(* ===== verification/Prelude.thy ===== *)
theory Prelude
  imports Main "HOL-Library.Word" "HOL-Library.AList" "HOL-Library.Multiset"
begin

text \<open>
  Shared vocabulary of the development: the machine integers and identifiers of
  \<^verbatim>\<open>src/src/lib.rs\<close>, panics as values, the hash map and the B-tree map
  as association lists, generic facts on counting, words and runs of machines.

  Integers follow the release profile of \<^verbatim>\<open>Cargo.toml\<close>, which has no
  overflow checks: arithmetic wraps around, as it does on \<open>'n word\<close>. A panic ends the
  process (\<^verbatim>\<open>panic = "abort"\<close>), so it is the left value of a sum.
\<close>

section \<open>Machine integers and identifiers\<close>

type_synonym u8 = "8 word"
type_synonym u16 = "16 word"
type_synonym u32 = "32 word"
type_synonym u64 = "64 word"

type_synonym WorkerId = u32
type_synonym TakoTaskId = u64
type_synonym InstanceId = u32
type_synonym JobId = u32
type_synonym JobTaskId = u32
type_synonym JobTaskCount = u32

text \<open>
  A date is the number of nanoseconds of its timestamp; paths and byte strings are
  strings of bytes.
\<close>

type_synonym date = int
type_synonym path = string
type_synonym bstring = string

lemma unat_mem_image: "unat t \<in> unat ` A \<longleftrightarrow> t \<in> A"
  by (rule inj_image_mem_iff) (simp add: inj_on_def word_unat_eq_iff)

lemma unat_ucast_u64: "unat (ucast (x :: u32) :: u64) = unat x"
  using unsigned_less [where 'a = nat, of x]
  by (simp add: unsigned_ucast_eq take_bit_nat_eq_self)

section \<open>Panics\<close>

datatype panic =
    Unwrap_none
  | Assert_failed
  | Explicit_panic
  | Unreachable
  | Step_zero
  | Slice_range

type_synonym 'a outcome = "panic + 'a"

text \<open>Sequencing of fallible computations, as the operator \<^verbatim>\<open>?\<close> and as panics do.\<close>

definition try_bind :: "'e + 'a \<Rightarrow> ('a \<Rightarrow> 'e + 'b) \<Rightarrow> 'e + 'b" where
  "try_bind r f = (case r of Inl e \<Rightarrow> Inl e | Inr x \<Rightarrow> f x)"

definition unwrap :: "'a option \<Rightarrow> 'a outcome" where
  "unwrap x = (case x of None \<Rightarrow> Inl Unwrap_none | Some v \<Rightarrow> Inr v)"

definition no_panic :: "'a outcome \<Rightarrow> bool" where
  "no_panic r = (case r of Inl _ \<Rightarrow> False | Inr _ \<Rightarrow> True)"

text \<open>The collection that unfolds the sequencing of outcomes.\<close>

named_theorems outcome_simps \<open>equations of outcomes\<close>

lemma try_bind_simps [simp]:
  "try_bind (Inl e) f = Inl e"
  "try_bind (Inr x) f = f x"
  by (simp_all add: try_bind_def)

lemma unwrap_simps [simp]:
  "unwrap None = Inl Unwrap_none"
  "unwrap (Some v) = Inr v"
  by (simp_all add: unwrap_def)

lemma no_panic_simps [simp]:
  "\<not> no_panic (Inl p)"
  "no_panic (Inr x)"
  by (simp_all add: no_panic_def)

lemma no_panic_iff: "no_panic r \<longleftrightarrow> (\<exists>x. r = Inr x)"
  by (cases r) auto

lemma try_bind_InrE:
  assumes "try_bind r f = Inr y"
  obtains x where "r = Inr x" "f x = Inr y"
  using assms by (cases r) auto

lemma try_bind_Inr_iff [outcome_simps]:
  "try_bind r f = Inr y \<longleftrightarrow> (\<exists>x. r = Inr x \<and> f x = Inr y)"
  by (cases r) auto

lemma unwrap_Inr_iff [outcome_simps]: "unwrap x = Inr v \<longleftrightarrow> x = Some v"
  by (cases x) auto

text \<open>A fallible computation for every element of a list, up to the first failure.\<close>

fun traverse :: "('a \<Rightarrow> 'e + 'b) \<Rightarrow> 'a list \<Rightarrow> 'e + 'b list" where
  "traverse f [] = Inr []"
| "traverse f (x # xs) = try_bind (f x) (\<lambda>y. try_bind (traverse f xs) (\<lambda>ys. Inr (y # ys)))"

lemma traverse_Inr: "(\<And>x. x \<in> set xs \<Longrightarrow> f x = Inr (g x)) \<Longrightarrow> traverse f xs = Inr (map g xs)"
  by (induction xs) auto

section \<open>Hash maps\<close>

text \<open>
  \<^verbatim>\<open>crate::Map\<close> is an association list with distinct keys. The order of the list
  stands for the iteration order of the hash map, which the program does not rely on:
  insertion returns the old value, a mutable borrow changes one value in place.
\<close>

type_synonym ('k, 'v) hmap = "('k \<times> 'v) list"

definition hm_insert :: "'k \<Rightarrow> 'v \<Rightarrow> ('k, 'v) hmap \<Rightarrow> ('k, 'v) hmap \<times> 'v option" where
  "hm_insert k v m = (AList.update k v m, map_of m k)"

definition hm_modify :: "'k \<Rightarrow> ('v \<Rightarrow> 'v) \<Rightarrow> ('k, 'v) hmap \<Rightarrow> ('k, 'v) hmap" where
  "hm_modify k f m = map (\<lambda>(k', v). if k' = k then (k', f v) else (k', v)) m"

definition hm_remove :: "'k \<Rightarrow> ('k, 'v) hmap \<Rightarrow> ('k, 'v) hmap \<times> 'v option" where
  "hm_remove k m = (AList.delete k m, map_of m k)"

lemma map_fst_hm_modify [simp]: "map fst (hm_modify k f m) = map fst m"
  by (induction m) (auto simp: hm_modify_def)

lemma length_hm_modify [simp]: "length (hm_modify k f m) = length m"
  by (simp add: hm_modify_def)

lemma map_of_hm_modify:
  "map_of (hm_modify k f m) x = (if x = k then map_option f (map_of m k) else map_of m x)"
  by (induction m) (auto simp: hm_modify_def)

lemma hm_modify_Cons [simp]:
  "hm_modify k f ((k', v) # m) = (k', if k' = k then f v else v) # hm_modify k f m"
  by (simp add: hm_modify_def)

lemma hm_modify_notin [simp]: "k \<notin> fst ` set m \<Longrightarrow> hm_modify k f m = m"
  by (induction m) (auto simp: hm_modify_def)

lemma hm_modify_Nil [simp]: "hm_modify k f [] = []"
  by (simp add: hm_modify_def)

lemma update_new: "k \<notin> fst ` set m \<Longrightarrow> AList.update k v m = m @ [(k, v)]"
  by (induction m) auto

section \<open>Numbers as text\<close>

text \<open>The decimal form that \<^verbatim>\<open>format!("{}", n)\<close> gives an unsigned integer.\<close>

definition digit_char :: "nat \<Rightarrow> char" where
  "digit_char d = char_of (48 + d)"

fun show_nat :: "nat \<Rightarrow> string" where
  "show_nat n = (if n < 10 then [digit_char n] else show_nat (n div 10) @ [digit_char (n mod 10)])"

declare show_nat.simps [simp del]

definition show_u32 :: "u32 \<Rightarrow> string" where
  "show_u32 x = show_nat (unat x)"

section \<open>Counting\<close>

definition count_if :: "('a \<Rightarrow> bool) \<Rightarrow> 'a list \<Rightarrow> nat" where
  "count_if P xs = length (filter P xs)"

lemma count_if_simps [simp]:
  "count_if P [] = 0"
  "count_if P (x # xs) = (if P x then Suc (count_if P xs) else count_if P xs)"
  "count_if P (xs @ ys) = count_if P xs + count_if P ys"
  by (simp_all add: count_if_def)

lemma count_if_le_length: "count_if P xs \<le> length xs"
  by (simp add: count_if_def)

lemma count_if_pos: "0 < count_if P xs \<longleftrightarrow> (\<exists>x\<in>set xs. P x)"
  by (induction xs) auto

lemma count_if_zero: "count_if P xs = 0 \<longleftrightarrow> (\<forall>x\<in>set xs. \<not> P x)"
  by (induction xs) auto

text \<open>Changing one value of a map with distinct keys moves one unit between counts.\<close>

lemma count_if_hm_modify:
  assumes "distinct (map fst m)" and "map_of m k = Some v"
  shows "count_if P (map (\<lambda>x. g (snd x)) (hm_modify k f m)) + (if P (g v) then 1 else 0) =
         count_if P (map (\<lambda>x. g (snd x)) m) + (if P (g (f v)) then 1 else 0)"
  using assms
  by (induction m) (auto simp: dest: map_of_SomeD image_eqI split: if_splits)

section \<open>B-tree maps\<close>

text \<open>
  A \<^verbatim>\<open>BTreeMap\<close> is an association list sorted by key. \<open>bt_floor m k\<close> is
  \<^verbatim>\<open>m.range(..=k).rev().next()\<close>: the entry with the greatest key not above \<open>k\<close>.
\<close>

type_synonym ('k, 'v) btmap = "('k \<times> 'v) list"

fun bt_insert :: "'k::linorder \<Rightarrow> 'v \<Rightarrow> ('k, 'v) btmap \<Rightarrow> ('k, 'v) btmap" where
  "bt_insert k v [] = [(k, v)]"
| "bt_insert k v ((k', v') # m) =
     (if k < k' then (k, v) # (k', v') # m
      else if k = k' then (k, v) # m
      else (k', v') # bt_insert k v m)"

fun bt_floor :: "('k::linorder, 'v) btmap \<Rightarrow> 'k \<Rightarrow> ('k \<times> 'v) option" where
  "bt_floor [] k = None"
| "bt_floor ((k', v') # m) k =
     (if k < k' then None
      else (case bt_floor m k of None \<Rightarrow> Some (k', v') | Some e \<Rightarrow> Some e))"

abbreviation bt_sorted :: "('k::linorder \<times> 'v) list \<Rightarrow> bool" where
  "bt_sorted m \<equiv> sorted_wrt (<) (map fst m)"

text \<open>The interface the server state relies on: insertion and the floor query.\<close>

locale floor_index =
  fixes ins :: "'k::linorder \<Rightarrow> 'v \<Rightarrow> 'm \<Rightarrow> 'm"
    and floor_of :: "'m \<Rightarrow> 'k \<Rightarrow> ('k \<times> 'v) option"
    and look :: "'m \<Rightarrow> 'k \<Rightarrow> 'v option"
    and wf :: "'m \<Rightarrow> bool"
  assumes wf_ins: "wf m \<Longrightarrow> wf (ins k v m)"
    and look_ins: "wf m \<Longrightarrow> look (ins k v m) = (look m)(k \<mapsto> v)"
    and floor_Some: "wf m \<Longrightarrow> floor_of m k = Some (k', v) \<Longrightarrow>
      look m k' = Some v \<and> k' \<le> k \<and> (\<forall>x v'. look m x = Some v' \<longrightarrow> x \<le> k \<longrightarrow> x \<le> k')"
    and floor_None: "wf m \<Longrightarrow> floor_of m k = None \<Longrightarrow> look m x = Some v \<Longrightarrow> k < x"
begin

lemma floor_greatest:
  assumes "wf m" "look m b = Some v" "b \<le> k" "\<And>x v'. look m x = Some v' \<Longrightarrow> x \<le> k \<Longrightarrow> x \<le> b"
  shows "floor_of m k = Some (b, v)"
proof (cases "floor_of m k")
  case None
  with assms(1,2) have "k < b" by (simp add: floor_None)
  with assms(3) show ?thesis by simp
next
  case (Some e)
  obtain b' v' where e: "e = (b', v')" by force
  with Some assms(1) have "look m b' = Some v'" "b' \<le> k"
    and "\<And>x w. look m x = Some w \<Longrightarrow> x \<le> k \<Longrightarrow> x \<le> b'"
    using floor_Some by blast+
  with assms have "b' = b" by (meson order_antisym)
  with \<open>look m b' = Some v'\<close> assms(2) Some e show ?thesis by simp
qed

text \<open>
  Half-open intervals that start at the keys and do not overlap: the floor query finds
  the only interval that can hold a point.
\<close>

lemma floor_owner:
  assumes "wf m" "look m b = Some v" "b \<le> k" "k < e"
    and "\<And>x v'. look m x = Some v' \<Longrightarrow> b < x \<Longrightarrow> e \<le> x"
  shows "floor_of m k = Some (b, v)"
proof (rule floor_greatest [OF assms(1-3)])
  fix x v' assume x: "look m x = Some v'" "x \<le> k"
  show "x \<le> b"
  proof (rule ccontr)
    assume "\<not> x \<le> b"
    with x(1) assms(5) have "e \<le> x" by simp
    with x(2) assms(4) show False by simp
  qed
qed

end

lemma map_of_bt_insert:
  assumes "bt_sorted m"
  shows "map_of (bt_insert k v m) = (map_of m)(k \<mapsto> v)"
  using assms
proof (induction m)
  case (Cons e m)
  then show ?case by (cases e) (auto simp: fun_eq_iff)
qed simp

lemma set_bt_insert: "fst ` set (bt_insert k v m) = insert k (fst ` set m)"
  by (induction k v m rule: bt_insert.induct) auto

lemma bt_insert_sorted:
  assumes "bt_sorted m"
  shows "bt_sorted (bt_insert k v m)"
  using assms
proof (induction m)
  case (Cons e m)
  obtain k' v' where e: "e = (k', v')" by force
  have "\<And>x. x \<in> fst ` set (bt_insert k v m) \<Longrightarrow> x = k \<or> x \<in> fst ` set m"
    using set_bt_insert [of k v m] by blast
  with Cons e show ?case by fastforce
qed simp

lemma bt_floor_None:
  assumes "bt_sorted m" "bt_floor m k = None" "map_of m x = Some v"
  shows "k < x"
  using assms
proof (induction m)
  case (Cons e m)
  then show ?case
    by (cases e) (force split: if_splits option.splits dest: map_of_SomeD)
qed simp

lemma bt_floor_Some:
  assumes "bt_sorted m" "bt_floor m k = Some (k', v)"
  shows "map_of m k' = Some v \<and> k' \<le> k \<and> (\<forall>x v'. map_of m x = Some v' \<longrightarrow> x \<le> k \<longrightarrow> x \<le> k')"
  using assms
proof (induction m arbitrary: k' v)
  case (Cons e m)
  obtain a b where e: "e = (a, b)" by force
  have lt: "\<And>x w. map_of m x = Some w \<Longrightarrow> a < x"
    using Cons.prems(1) e by (force dest: map_of_SomeD)
  from Cons.prems e have ak: "a \<le> k" by (auto split: if_splits)
  show ?case
  proof (cases "bt_floor m k")
    case None
    have "\<And>x w. map_of m x = Some w \<Longrightarrow> k < x"
      using Cons.prems(1) e None by (auto intro: bt_floor_None)
    with None Cons.prems e ak show ?thesis by (fastforce split: if_splits)
  next
    case (Some d)
    obtain c w where d: "d = (c, w)" by force
    from Cons.prems(1) e have "bt_sorted m" by simp
    from Cons.IH [OF this] Some d
    have "map_of m c = Some w" "c \<le> k" "\<And>x v'. map_of m x = Some v' \<Longrightarrow> x \<le> k \<Longrightarrow> x \<le> c"
      by auto
    moreover have "k' = c" "v = w" using Cons.prems(2) e Some d by (simp_all split: if_splits)
    ultimately show ?thesis using lt e by (auto simp: less_imp_le)
  qed
qed simp

interpretation bt: floor_index bt_insert bt_floor map_of bt_sorted
  by unfold_locales
    (simp_all add: bt_insert_sorted map_of_bt_insert bt_floor_Some bt_floor_None)

section \<open>Machines\<close>

text \<open>
  A component that reacts to actions: \<open>step a s\<close> panics or gives the next state, \<open>allowed a s\<close> is
  what its surroundings promise about the actions they perform. \<open>reaches\<close> is a run of allowed
  actions.
\<close>

inductive reaches :: "('a \<Rightarrow> 's \<Rightarrow> 's outcome) \<Rightarrow> ('a \<Rightarrow> 's \<Rightarrow> bool) \<Rightarrow> 's \<Rightarrow> 's \<Rightarrow> bool"
  for step :: "'a \<Rightarrow> 's \<Rightarrow> 's outcome" and allowed :: "'a \<Rightarrow> 's \<Rightarrow> bool" and s :: 's where
  reaches_refl: "reaches step allowed s s"
| reaches_step: "reaches step allowed s t \<Longrightarrow> allowed a t \<Longrightarrow> step a t = Inr u \<Longrightarrow>
    reaches step allowed s u"

locale machine =
  fixes step :: "'a \<Rightarrow> 's \<Rightarrow> 's outcome"
    and allowed :: "'a \<Rightarrow> 's \<Rightarrow> bool"
    and inv :: "'s \<Rightarrow> bool"
  assumes step_ok: "inv s \<Longrightarrow> allowed a s \<Longrightarrow> \<exists>t. step a s = Inr t \<and> inv t"
begin

lemma run_inv:
  assumes "reaches step allowed s t" "inv s"
  shows "inv t"
  using assms
proof (induction rule: reaches.induct)
  case (reaches_step t a u)
  then show ?case using step_ok [of t a] by auto
qed

lemma run_safe:
  assumes "reaches step allowed s t" "inv s" "allowed a t"
  shows "\<exists>u. step a t = Inr u \<and> inv u"
  using run_inv [OF assms(1,2)] assms(3) by (rule step_ok)

end

end
