(* ===== verification/IntArray.thy ===== *)
theory IntArray
  imports Prelude
begin

text \<open>
  Task id arrays: \<^verbatim>\<open>src/src/common/arraydef.rs\<close> (ranges, iteration, building from
  ids, display) and the semantic actions of \<^verbatim>\<open>src/src/common/arrayparser.rs\<close>
  (range validation and the overlap check). The lemmas show which ids an array iterates
  over, that the overlap check decides distinctness, and that an array built from ids
  iterates over these ids.
\<close>

section \<open>Definitions\<close>

record IntRange =
  start :: u32
  count :: u32
  step :: u32

definition IntRange_new :: "u32 \<Rightarrow> u32 \<Rightarrow> u32 \<Rightarrow> IntRange" where
  "IntRange_new s c k = \<lparr>start = s, count = c, step = k\<rparr>"

text \<open>
  \<^verbatim>\<open>(s..e).step_by(k)\<close>: the counter of the iterator is checked, so a step beyond
  the type's last value ends the iteration; a zero step panics when the iterator is made.
\<close>

function step_list :: "nat \<Rightarrow> nat \<Rightarrow> nat \<Rightarrow> nat list" where
  "step_list s e k = (if s < e \<and> 0 < k then s # step_list (s + k) e k else [])"
  by pat_completeness auto
termination
  by (relation "measure (\<lambda>(s, e, k). e - s)") auto

declare step_list.simps [simp del]

definition IntRange_iter :: "IntRange \<Rightarrow> u32 list outcome" where
  "IntRange_iter r =
     (if step r = 0 then Inl Step_zero
      else Inr (map of_nat (step_list (unat (start r)) (unat (start r + count r)) (unat (step r)))))"

record IntArray =
  ranges :: "IntRange list"

definition IntArray_new :: "IntRange list \<Rightarrow> IntArray" where
  "IntArray_new rs = \<lparr>ranges = rs\<rparr>"

text \<open>
  \<open>ranges.iter().position(..)\<close> followed by \<open>ranges[pos].count += 1\<close>: the first range
  that ends right before the id grows by one.
\<close>

fun extend_range :: "u32 \<Rightarrow> IntRange list \<Rightarrow> IntRange list option" where
  "extend_range i [] = None"
| "extend_range i (r # rs) =
     (if i = start r + count r then Some (r\<lparr>count := count r + 1\<rparr> # rs)
      else map_option ((#) r) (extend_range i rs))"

definition push_id :: "IntRange list \<Rightarrow> u32 \<Rightarrow> IntRange list" where
  "push_id rs i = (case extend_range i rs of
     Some rs' \<Rightarrow> rs'
   | None \<Rightarrow> rs @ [IntRange_new i 1 1])"

definition from_ids :: "u32 list \<Rightarrow> IntArray" where
  "from_ids ids = \<lparr>ranges = foldl push_id [] ids\<rparr>"

definition from_range :: "u32 \<Rightarrow> u32 \<Rightarrow> IntArray" where
  "from_range s c = \<lparr>ranges = [\<lparr>start = s, count = c, step = 1\<rparr>]\<rparr>"

definition id_count :: "IntArray \<Rightarrow> u32" where
  "id_count a = sum_list (map count (ranges a))"

fun iter_ranges :: "IntRange list \<Rightarrow> u32 list outcome" where
  "iter_ranges [] = Inr []"
| "iter_ranges (r # rs) =
     try_bind (IntRange_iter r) (\<lambda>xs. try_bind (iter_ranges rs) (\<lambda>ys. Inr (xs @ ys)))"

definition IntArray_iter :: "IntArray \<Rightarrow> u32 list outcome" where
  "IntArray_iter a = iter_ranges (ranges a)"

text \<open>\<open>impl fmt::Display\<close>: the last two bytes are cut off; slicing an empty string panics.\<close>

definition fmt_range :: "IntRange \<Rightarrow> string" where
  "fmt_range x =
     (if count x = 1 then show_u32 (start x) @ '', ''
      else if step x = 1 then
        show_u32 (start x) @ ''-'' @ show_u32 (start x + count x - 1) @ '', ''
      else
        show_u32 (start x) @ ''-'' @ show_u32 (start x + count x - 1) @ '':'' @
        show_u32 (step x) @ '', '')"

definition IntArray_fmt :: "IntArray \<Rightarrow> string outcome" where
  "IntArray_fmt a =
     (let s = concat (map fmt_range (ranges a))
      in if length s < 2 then Inl Slice_range else Inr (take (length s - 2) s))"

text \<open>The closures of \<open>p_range\<close> and \<open>p_array\<close>, applied to what the grammar has read.\<close>

definition p_range :: "u32 \<times> u32 option \<times> u32 option \<Rightarrow> string + IntRange" where
  "p_range r = (case r of
     (v, None, None) \<Rightarrow> Inr (IntRange_new v 1 1)
   | (v, Some w, None) \<Rightarrow>
       (if w \<ge> v then Inr (IntRange_new v (w - v + 1) 1) else Inl ''Invalid range'')
   | (v, Some w, Some x) \<Rightarrow>
       (if w \<ge> v \<and> x \<le> w - v \<and> x > 0 then Inr (IntRange_new v (w - v + 1) x)
        else Inl ''Invalid range'')
   | _ \<Rightarrow> Inl ''Invalid range'')"

text \<open>
  \<open>range.iter().any(|x| !ids.insert(x))\<close>: \<open>None\<close> as soon as an insertion meets a member.
\<close>

fun insert_new :: "u32 list \<Rightarrow> u32 list \<Rightarrow> u32 list option" where
  "insert_new ids [] = Some ids"
| "insert_new ids (x # xs) = (if x \<in> set ids then None else insert_new (x # ids) xs)"

fun overlap_loop :: "u32 list \<Rightarrow> IntRange list \<Rightarrow> bool outcome" where
  "overlap_loop ids [] = Inr False"
| "overlap_loop ids (r # rs) =
     try_bind (IntRange_iter r) (\<lambda>xs.
       case insert_new ids xs of None \<Rightarrow> Inr True | Some ids' \<Rightarrow> overlap_loop ids' rs)"

definition is_overlapping :: "IntRange list \<Rightarrow> bool outcome" where
  "is_overlapping rs = overlap_loop [] (sort_key start rs)"

definition p_array :: "IntRange list \<Rightarrow> (string + IntArray) outcome" where
  "p_array rs = try_bind (is_overlapping rs) (\<lambda>b.
     Inr (if \<not> b then Inr (IntArray_new rs) else Inl ''Ranges overlap''))"

section \<open>Iteration\<close>

lemma step_list_mem:
  assumes "0 < k"
  shows "x \<in> set (step_list s e k) \<longleftrightarrow> (\<exists>i. x = s + i * k \<and> x < e)"
  using assms
proof (induction s e k rule: step_list.induct)
  case (1 s e k)
  have "(\<exists>i. x = s + i * k \<and> x < e) \<longleftrightarrow> (x = s \<and> s < e) \<or> (\<exists>i. x = s + k + i * k \<and> x < e)"
    (is "?L \<longleftrightarrow> ?R")
  proof
    assume ?L
    then obtain i where i: "x = s + i * k" "x < e" by blast
    show ?R
    proof (cases i)
      case 0
      with i show ?thesis by simp
    next
      case (Suc j)
      with i have "x = s + k + j * k" by simp
      with i show ?thesis by blast
    qed
  next
    assume ?R
    then show ?L
    proof
      assume "x = s \<and> s < e"
      then show ?L by (intro exI [of _ 0]) simp
    next
      assume "\<exists>i. x = s + k + i * k \<and> x < e"
      then obtain i where i: "x = s + k + i * k" "x < e" by blast
      then have "x = s + Suc i * k" by simp
      with i(2) show ?L by blast
    qed
  qed
  moreover have "x \<in> set (step_list s e k) \<longleftrightarrow> s < e \<and> (x = s \<or> x \<in> set (step_list (s + k) e k))"
    using 1(2) by (subst step_list.simps) simp
  moreover have "s < e \<Longrightarrow> x \<in> set (step_list (s + k) e k) \<longleftrightarrow> (\<exists>i. x = s + k + i * k \<and> x < e)"
    using 1 by simp
  moreover have "\<not> s < e \<Longrightarrow> \<not> (\<exists>i. x = s + k + i * k \<and> x < e)" by auto
  ultimately show ?case by blast
qed

lemma step_list_zero [simp]: "step_list s e 0 = []"
  by (subst step_list.simps) simp

lemma step_list_bounds: "x \<in> set (step_list s e k) \<Longrightarrow> s \<le> x \<and> x < e"
  by (cases "k = 0") (auto simp: step_list_mem)

lemma step_list_sorted: "sorted_wrt (<) (step_list s e k)"
proof (induction s e k rule: step_list.induct)
  case (1 s e k)
  show ?case
  proof (cases "s < e \<and> 0 < k")
    case True
    then have "step_list s e k = s # step_list (s + k) e k" by (subst step_list.simps) simp
    moreover have "\<forall>x\<in>set (step_list (s + k) e k). s < x"
      using True by (auto dest!: step_list_bounds)
    ultimately show ?thesis using 1 True by simp
  next
    case False
    then show ?thesis by (subst step_list.simps) simp
  qed
qed

lemma step_list_one: "step_list s e (Suc 0) = [s..<e]"
proof (induction "e - s" arbitrary: s)
  case 0
  then show ?case by (subst step_list.simps) simp
next
  case (Suc n)
  then have "step_list (s + Suc 0) e (Suc 0) = [s + 1..<e]" by simp
  with Suc(2) show ?case by (subst step_list.simps) (simp add: upt_conv_Cons)
qed

text \<open>The number of steps is the distance divided by the step, rounded up.\<close>

lemma length_step_list:
  assumes "0 < k"
  shows "length (step_list s e k) = (e - s + (k - 1)) div k"
  using assms
proof (induction s e k rule: step_list.induct)
  case (1 s e k)
  show ?case
  proof (cases "s < e")
    case True
    with 1 have "length (step_list s e k) = Suc ((e - (s + k) + (k - 1)) div k)"
      by (subst step_list.simps) simp
    also have "\<dots> = (e - s + (k - 1)) div k"
    proof (cases "s + k \<le> e")
      case True
      then have "e - s + (k - 1) = k + (e - (s + k) + (k - 1))" by simp
      then show ?thesis using 1(2) by (simp only: div_add_self1 Suc_eq_plus1_left)
    next
      case False
      with True 1(2) have "k \<le> e - s + (k - 1)" "e - s + (k - 1) < k + k" by linarith+
      then have "(e - s + (k - 1)) div k = 1" by (simp add: div_nat_eqI)
      with False 1(2) show ?thesis by simp
    qed
    finally show ?thesis .
  next
    case False
    then show ?thesis using 1(2) by (subst step_list.simps) simp
  qed
qed

section \<open>The overlap check\<close>

text \<open>A range is sound when its step is not zero: its iterator does not panic.\<close>

definition range_ids :: "IntRange \<Rightarrow> u32 list" where
  "range_ids r = map of_nat (step_list (unat (start r)) (unat (start r + count r)) (unat (step r)))"

lemma IntRange_iter_ids: "step r \<noteq> 0 \<Longrightarrow> IntRange_iter r = Inr (range_ids r)"
  by (simp add: IntRange_iter_def range_ids_def)

lemma iter_ranges_ids:
  assumes "\<forall>r\<in>set rs. step r \<noteq> 0"
  shows "iter_ranges rs = Inr (concat (map range_ids rs))"
  using assms by (induction rs) (simp_all add: IntRange_iter_ids)

lemma insert_new_correct:
  assumes "distinct ids"
  shows "insert_new ids xs = (if distinct (ids @ xs) then Some (rev xs @ ids) else None)"
  using assms
proof (induction xs arbitrary: ids)
  case (Cons x xs)
  then show ?case by (cases "x \<in> set ids") auto
qed simp

lemma overlap_loop_correct:
  assumes "\<forall>r\<in>set rs. step r \<noteq> 0" "distinct ids"
  shows "overlap_loop ids rs = Inr (\<not> distinct (ids @ concat (map range_ids rs)))"
  using assms
proof (induction rs arbitrary: ids)
  case (Cons r rs)
  have r: "IntRange_iter r = Inr (range_ids r)" using Cons.prems by (simp add: IntRange_iter_ids)
  show ?case
  proof (cases "distinct (ids @ range_ids r)")
    case True
    then have "distinct (rev (range_ids r) @ ids)" by auto
    then have "overlap_loop (rev (range_ids r) @ ids) rs =
      Inr (\<not> distinct ((rev (range_ids r) @ ids) @ concat (map range_ids rs)))"
      using Cons.prems(1) by (intro Cons.IH) simp_all
    moreover have "distinct ((rev (range_ids r) @ ids) @ concat (map range_ids rs)) \<longleftrightarrow>
      distinct (ids @ concat (map range_ids (r # rs)))"
      by (rule mset_eq_imp_distinct_iff) simp
    moreover have "insert_new ids (range_ids r) = Some (rev (range_ids r) @ ids)"
      using True Cons.prems(2) by (simp add: insert_new_correct)
    ultimately show ?thesis using r by (simp del: distinct_append)
  next
    case False
    with r Cons.prems show ?thesis by (auto simp: insert_new_correct)
  qed
qed simp

lemma mset_range_ids_sort:
  "mset (concat (map range_ids (sort_key f rs))) = mset (concat (map range_ids rs))"
  by (simp add: mset_concat flip: sum_mset_sum_list)

lemma is_overlapping_ids:
  assumes "\<forall>r\<in>set rs. step r \<noteq> 0"
  shows "is_overlapping rs = Inr (\<not> distinct (concat (map range_ids rs)))"
proof -
  have "is_overlapping rs = Inr (\<not> distinct (concat (map range_ids (sort_key start rs))))"
    using assms unfolding is_overlapping_def by (subst overlap_loop_correct) simp_all
  also have "distinct (concat (map range_ids (sort_key start rs))) \<longleftrightarrow>
             distinct (concat (map range_ids rs))"
    using mset_eq_imp_distinct_iff [OF mset_range_ids_sort] .
  finally show ?thesis .
qed

section \<open>Arrays built from ids\<close>

text \<open>A range with step one whose end does not wrap around.\<close>

definition plain :: "IntRange \<Rightarrow> bool" where
  "plain r \<longleftrightarrow> step r = 1 \<and> 0 < unat (count r) \<and> unat (start r) + unat (count r) < 2 ^ 32"

lemma range_ids_plain:
  "plain r \<Longrightarrow> range_ids r = map of_nat [unat (start r)..<unat (start r) + unat (count r)]"
  by (simp add: plain_def range_ids_def unat_word_ariths step_list_one)

lemma plain_step: "plain r \<Longrightarrow> step r \<noteq> 0"
  by (simp add: plain_def)

lemma plain_extend:
  assumes "plain r" "i = start r + count r" "unat i + 1 < 2 ^ 32"
  shows "plain (r\<lparr>count := count r + 1\<rparr>)" "range_ids (r\<lparr>count := count r + 1\<rparr>) = range_ids r @ [i]"
proof -
  from assms have i: "unat i = unat (start r) + unat (count r)"
    by (simp add: plain_def unat_word_ariths)
  with assms(3) have "unat (count r) + 1 < 2 ^ 32" by simp
  then have c: "unat (count r + 1) = unat (count r) + 1" by (simp add: unat_word_ariths)
  show p: "plain (r\<lparr>count := count r + 1\<rparr>)" using assms(1,3) i c by (simp add: plain_def)
  have "of_nat (unat (start r) + unat (count r)) = i" using assms(2) by simp
  with range_ids_plain [OF p] range_ids_plain [OF assms(1)] c
  show "range_ids (r\<lparr>count := count r + 1\<rparr>) = range_ids r @ [i]" by simp
qed

lemma plain_single:
  assumes "unat i + 1 < 2 ^ 32"
  shows "plain (IntRange_new i 1 1)" "range_ids (IntRange_new i 1 1) = [i]"
proof -
  show p: "plain (IntRange_new i 1 1)" using assms by (simp add: plain_def IntRange_new_def)
  show "range_ids (IntRange_new i 1 1) = [i]"
    using range_ids_plain [OF p] by (simp add: IntRange_new_def)
qed

lemma extend_range_plain:
  assumes "extend_range i rs = Some rs'" "\<forall>r\<in>set rs. plain r" "unat i + 1 < 2 ^ 32"
  shows "(\<forall>r\<in>set rs'. plain r) \<and>
    mset (concat (map range_ids rs')) = add_mset i (mset (concat (map range_ids rs)))"
  using assms
proof (induction rs arbitrary: rs')
  case (Cons r rs)
  show ?case
  proof (cases "i = start r + count r")
    case True
    with Cons.prems plain_extend [of r i] show ?thesis by auto
  next
    case False
    with Cons.prems obtain rs1 where "extend_range i rs = Some rs1" "rs' = r # rs1" by auto
    with Cons show ?thesis by auto
  qed
qed simp

lemma push_id_plain:
  assumes "\<forall>r\<in>set rs. plain r" "unat i + 1 < 2 ^ 32"
  shows "(\<forall>r\<in>set (push_id rs i). plain r) \<and>
    mset (concat (map range_ids (push_id rs i))) = add_mset i (mset (concat (map range_ids rs)))"
  using assms extend_range_plain [of i rs] plain_single [of i]
  by (auto simp: push_id_def split: option.splits)

text \<open>Without id overflow, no id is lost and none is invented, in any order of the ids.\<close>

lemma foldl_push_id:
  assumes "\<forall>r\<in>set rs. plain r" "\<forall>i\<in>set ids. unat i + 1 < 2 ^ 32"
  shows "(\<forall>r\<in>set (foldl push_id rs ids). plain r) \<and>
    mset (concat (map range_ids (foldl push_id rs ids))) = mset (concat (map range_ids rs)) + mset ids"
  using assms
proof (induction ids arbitrary: rs)
  case (Cons i ids)
  from Cons.prems push_id_plain [of rs i] have
    "\<forall>r\<in>set (push_id rs i). plain r"
    "mset (concat (map range_ids (push_id rs i))) = add_mset i (mset (concat (map range_ids rs)))"
    by simp_all
  with Cons.IH [of "push_id rs i"] Cons.prems(2) show ?case by simp
qed simp

text \<open>Ascending ids: only the last range can grow, so the order is kept too.\<close>

lemma extend_range_last:
  assumes "extend_range i rs = Some rs'" "\<forall>r\<in>set rs. plain r" "unat i + 1 < 2 ^ 32"
    "sorted_wrt (<) (concat (map range_ids rs) @ [i])"
  shows "concat (map range_ids rs') = concat (map range_ids rs) @ [i]"
  using assms
proof (induction rs arbitrary: rs')
  case (Cons r rs)
  show ?case
  proof (cases "i = start r + count r")
    case True
    have pr: "plain r" using Cons.prems by simp
    have last: "i - 1 \<in> set (range_ids r)"
    proof -
      have "unat i = unat (start r) + unat (count r)" "0 < unat (count r)"
        using True pr by (simp_all add: plain_def unat_word_ariths)
      then have "i - 1 = of_nat (unat i - 1)"
        and "unat i - 1 \<in> {unat (start r)..<unat (start r) + unat (count r)}"
        using True by (simp_all add: of_nat_diff)
      then show ?thesis unfolding range_ids_plain [OF pr] by (simp only: set_map set_upt) blast
    qed
    have "rs = []"
    proof (rule ccontr)
      assume "rs \<noteq> []"
      then obtain q qs where q: "rs = q # qs" by (cases rs) auto
      then have pq: "plain q" using Cons.prems by simp
      then have "range_ids q \<noteq> []" by (simp add: range_ids_plain plain_def)
      then obtain x where x: "x \<in> set (range_ids q)" by (cases "range_ids q") auto
      have "i - 1 < x" "x < i"
        using Cons.prems(4) q x last by (auto simp: sorted_wrt_append)
      then show False by (simp add: word_less_nat_alt unat_sub_if_size split: if_splits)
    qed
    with Cons.prems True plain_extend [of r i] pr show ?thesis by auto
  next
    case False
    with Cons.prems obtain rs1 where rs1: "extend_range i rs = Some rs1" "rs' = r # rs1" by auto
    have "sorted_wrt (<) (concat (map range_ids rs) @ [i])"
      using Cons.prems(4) by (simp add: sorted_wrt_append)
    with Cons rs1 show ?thesis by simp
  qed
qed simp

lemma push_id_last:
  assumes "\<forall>r\<in>set rs. plain r" "unat i + 1 < 2 ^ 32"
    "sorted_wrt (<) (concat (map range_ids rs) @ [i])"
  shows "concat (map range_ids (push_id rs i)) = concat (map range_ids rs) @ [i]"
  using assms extend_range_last [of i rs] plain_single [of i]
  by (auto simp: push_id_def split: option.splits)

lemma foldl_push_id_sorted:
  assumes "\<forall>r\<in>set rs. plain r" "\<forall>i\<in>set ids. unat i + 1 < 2 ^ 32"
    "sorted_wrt (<) (concat (map range_ids rs) @ ids)"
  shows "concat (map range_ids (foldl push_id rs ids)) = concat (map range_ids rs) @ ids"
  using assms
proof (induction ids arbitrary: rs)
  case (Cons i ids)
  have "sorted_wrt (<) (concat (map range_ids rs) @ [i])"
    using Cons.prems(3) by (auto simp: sorted_wrt_append)
  with Cons.prems have "concat (map range_ids (push_id rs i)) = concat (map range_ids rs) @ [i]"
    by (intro push_id_last) auto
  with Cons push_id_plain [of rs i] show ?case by simp
qed simp

lemma from_ids_ids:
  assumes "\<forall>i\<in>set ids. unat i + 1 < 2 ^ 32"
  shows "\<exists>xs. IntArray_iter (from_ids ids) = Inr xs \<and> mset xs = mset ids \<and>
    (sorted_wrt (<) ids \<longrightarrow> xs = ids)"
proof -
  have "\<forall>r\<in>set (foldl push_id [] ids). plain r"
    "mset (concat (map range_ids (foldl push_id [] ids))) = mset ids"
    using foldl_push_id [of "[]" ids] assms by simp_all
  then show ?thesis
    using iter_ranges_ids [of "foldl push_id [] ids"] foldl_push_id_sorted [of "[]" ids] assms
    by (auto simp: IntArray_iter_def from_ids_def plain_step)
qed

section \<open>The number of ids\<close>

text \<open>Arrays without wrap-around: neither a range nor the sum of the counts overflows.\<close>

definition range_ok :: "IntRange \<Rightarrow> bool" where
  "range_ok r \<longleftrightarrow> step r \<noteq> 0 \<and> 0 < count r \<and> unat (start r) + unat (count r) < 2 ^ 32"

definition array_ok :: "IntArray \<Rightarrow> bool" where
  "array_ok a \<longleftrightarrow> ranges a \<noteq> [] \<and> (\<forall>r \<in> set (ranges a). range_ok r) \<and>
     sum_list (map (\<lambda>r. unat (count r)) (ranges a)) < 2 ^ 32"

lemma length_range_ids:
  assumes "range_ok r"
  shows "length (range_ids r) = (unat (count r) + (unat (step r) - 1)) div unat (step r)"
proof -
  have k: "0 < unat (step r)" using assms by (simp add: range_ok_def unat_gt_0)
  have "unat (start r + count r) = unat (start r) + unat (count r)"
    using assms by (simp add: range_ok_def unat_word_ariths)
  then show ?thesis by (simp add: range_ids_def length_step_list [OF k])
qed

lemma div_round_up:
  assumes "0 < (c::nat)" "0 < k"
  shows "0 < (c + (k - 1)) div k" "(c + (k - 1)) div k \<le> c"
    "(c + (k - 1)) div k = c \<longleftrightarrow> k = 1 \<or> c = 1"
proof -
  have eq: "(c + (k - 1)) div k = Suc ((c - 1) div k)"
  proof -
    have "c + (k - 1) = (c - 1) + k" using assms by simp
    moreover have "(c - 1 + k) div k = Suc ((c - 1) div k)"
      using assms(2) div_add_self2 [of k "c - 1"] by linarith
    ultimately show ?thesis by (simp only:)
  qed
  show "0 < (c + (k - 1)) div k" unfolding eq by simp
  have le: "(c - 1) div k \<le> c - 1" by (rule div_le_dividend)
  then show "(c + (k - 1)) div k \<le> c" using assms(1) unfolding eq by linarith
  show "(c + (k - 1)) div k = c \<longleftrightarrow> k = 1 \<or> c = 1"
  proof
    assume "(c + (k - 1)) div k = c"
    then have "(c - 1) div k = c - 1" unfolding eq by simp
    moreover have "(c - 1) div k < c - 1" if "1 < k" "1 < c"
      using that by (intro div_less_dividend) simp_all
    ultimately show "k = 1 \<or> c = 1" using assms by linarith
  next
    assume "k = 1 \<or> c = 1"
    then show "(c + (k - 1)) div k = c"
    proof
      assume "k = 1"
      then show ?thesis by simp
    next
      assume "c = 1"
      then show ?thesis unfolding eq by simp
    qed
  qed
qed

lemma range_ids_count:
  assumes "range_ok r"
  shows "0 < length (range_ids r)" "length (range_ids r) \<le> unat (count r)"
    "length (range_ids r) = unat (count r) \<longleftrightarrow> step r = 1 \<or> count r = 1"
proof -
  have c: "0 < unat (count r)" "0 < unat (step r)"
    using assms by (simp_all add: range_ok_def unat_gt_0 word_gt_0)
  have "unat (step r) = 1 \<longleftrightarrow> step r = 1" "unat (count r) = 1 \<longleftrightarrow> count r = 1"
    by (simp_all add: word_unat_eq_iff)
  with div_round_up [OF c] show "0 < length (range_ids r)" "length (range_ids r) \<le> unat (count r)"
    "length (range_ids r) = unat (count r) \<longleftrightarrow> step r = 1 \<or> count r = 1"
    unfolding length_range_ids [OF assms] by simp_all
qed

lemma unat_id_count:
  assumes "sum_list (map (\<lambda>r. unat (count r)) (ranges a)) < 2 ^ 32"
  shows "unat (id_count a) = sum_list (map (\<lambda>r. unat (count r)) (ranges a))"
proof -
  have "unat (sum_list (map count rs)) = sum_list (map (\<lambda>r. unat (count r)) rs)"
    if "sum_list (map (\<lambda>r. unat (count r)) rs) < 2 ^ 32" for rs
    using that by (induction rs) (simp_all add: unat_word_ariths)
  with assms show ?thesis by (simp add: id_count_def)
qed

lemma iter_array_ok:
  assumes "array_ok a"
  shows "IntArray_iter a = Inr (concat (map range_ids (ranges a)))"
  using assms iter_ranges_ids [of "ranges a"]
  by (auto simp: IntArray_iter_def array_ok_def range_ok_def)

lemma sum_counts:
  assumes "\<forall>r \<in> set rs. range_ok r"
  shows "length (concat (map range_ids rs)) \<le> sum_list (map (\<lambda>r. unat (count r)) rs) \<and>
    (length (concat (map range_ids rs)) = sum_list (map (\<lambda>r. unat (count r)) rs) \<longleftrightarrow>
       (\<forall>r \<in> set rs. step r = 1 \<or> count r = 1))"
  using assms
proof (induction rs)
  case (Cons r rs)
  from Cons.prems have r: "range_ok r" by simp
  from Cons range_ids_count [OF r] show ?case by auto
qed simp

lemma array_ids_count:
  assumes "array_ok a"
  shows "length (concat (map range_ids (ranges a))) \<le> unat (id_count a)"
    "length (concat (map range_ids (ranges a))) = unat (id_count a) \<longleftrightarrow>
       (\<forall>r \<in> set (ranges a). step r = 1 \<or> count r = 1)"
    "concat (map range_ids (ranges a)) \<noteq> []"
proof -
  have ok: "\<forall>r \<in> set (ranges a). range_ok r" and ne: "ranges a \<noteq> []"
    and u: "unat (id_count a) = sum_list (map (\<lambda>r. unat (count r)) (ranges a))"
    using assms by (simp_all add: array_ok_def unat_id_count)
  show "length (concat (map range_ids (ranges a))) \<le> unat (id_count a)"
    "length (concat (map range_ids (ranges a))) = unat (id_count a) \<longleftrightarrow>
       (\<forall>r \<in> set (ranges a). step r = 1 \<or> count r = 1)"
    using sum_counts [OF ok] u by simp_all
  obtain r rs where "ranges a = r # rs" using ne by (cases "ranges a") auto
  with ok range_ids_count(1) [of r] show "concat (map range_ids (ranges a)) \<noteq> []" by auto
qed

section \<open>Properties\<close>

lemma iter_ranges_steps:
  assumes "iter_ranges rs = Inr ids"
  shows "\<forall>r \<in> set rs. step r \<noteq> 0"
  using assms
  by (induction rs arbitrary: ids) (auto simp: IntRange_iter_def outcome_simps split: if_splits)

lemma range_ids_mem:
  assumes "step r \<noteq> 0" "unat (start r) + unat (count r) < 2 ^ 32"
  shows "i \<in> set (range_ids r) \<longleftrightarrow>
    (\<exists>k. unat i = unat (start r) + k * unat (step r) \<and> unat i < unat (start r) + unat (count r))"
proof -
  let ?l = "step_list (unat (start r)) (unat (start r) + unat (count r)) (unat (step r))"
  have e: "unat (start r + count r) = unat (start r) + unat (count r)"
    using assms(2) by (simp add: unat_word_ariths)
  have lt: "x < 2 ^ 32" if "x \<in> set ?l" for x
    using step_list_bounds [OF that] assms(2) by simp
  have "i \<in> set (range_ids r) \<longleftrightarrow> unat i \<in> set ?l"
  proof
    assume "i \<in> set (range_ids r)"
    then obtain x where x: "x \<in> set ?l" "i = of_nat x" by (auto simp: range_ids_def e)
    with lt [OF x(1)] have "unat i = x" by (simp add: unat_of_nat take_bit_nat_eq_self)
    with x(1) show "unat i \<in> set ?l" by simp
  next
    assume "unat i \<in> set ?l"
    then have "of_nat (unat i) \<in> set (range_ids r)" unfolding range_ids_def e set_map by blast
    then show "i \<in> set (range_ids r)" by simp
  qed
  also have "\<dots> \<longleftrightarrow> (\<exists>k. unat i = unat (start r) + k * unat (step r) \<and>
      unat i < unat (start r) + unat (count r))"
    using assms(1) by (intro step_list_mem) (simp add: unat_gt_0)
  finally show ?thesis .
qed

lemma range_ids_sorted:
  assumes "unat (start r) + unat (count r) < 2 ^ 32"
  shows "sorted_wrt (<) (range_ids r)"
proof -
  let ?l = "step_list (unat (start r)) (unat (start r) + unat (count r)) (unat (step r))"
  have e: "unat (start r + count r) = unat (start r) + unat (count r)"
    using assms by (simp add: unat_word_ariths)
  have "(of_nat x :: u32) < of_nat y" if "x \<in> set ?l" "y \<in> set ?l" "x < y" for x y
    using that assms step_list_bounds [OF that(1)] step_list_bounds [OF that(2)]
    by (simp add: word_less_nat_alt unat_of_nat take_bit_nat_eq_self)
  from sorted_wrt_mono_rel [OF this step_list_sorted] show ?thesis
    unfolding range_ids_def e sorted_wrt_map .
qed

text \<open>
  A range that the parser accepts stands for the ids from its first to its last value in steps of
  the given width, in ascending order, unless the last value is the largest of the type.
\<close>

theorem p_range_ids:
  assumes "p_range (v, w, x) = Inr r"
    and "unat (case w of None \<Rightarrow> v | Some l \<Rightarrow> l) + 1 < 2 ^ 32"
  shows "\<exists>ids. IntRange_iter r = Inr ids \<and> sorted_wrt (<) ids \<and>
    (\<forall>i. i \<in> set ids \<longleftrightarrow>
       (\<exists>k. unat i = unat v + k * unat (case x of None \<Rightarrow> 1 | Some d \<Rightarrow> d)) \<and>
       v \<le> i \<and> i \<le> (case w of None \<Rightarrow> v | Some l \<Rightarrow> l))"
proof -
  define l where "l = (case w of None \<Rightarrow> v | Some l \<Rightarrow> l)"
  define d where "d = (case x of None \<Rightarrow> 1 | Some d \<Rightarrow> d)"
  have r: "v \<le> l" "start r = v" "step r = d" "count r = l - v + 1" "d \<noteq> 0"
    using assms(1)
    by (auto simp: p_range_def IntRange_new_def l_def d_def split: option.splits if_splits)
  have u: "unat (l - v) = unat l - unat v" "unat v \<le> unat l"
    using r(1) by (simp_all add: unat_sub word_le_nat_alt)
  have c: "unat (count r) = unat l - unat v + 1"
    using assms(2) u unfolding r(4) l_def [symmetric] by (simp add: unat_word_ariths)
  have b: "unat (start r) + unat (count r) < 2 ^ 32"
    using assms(2) u(2) unfolding l_def [symmetric] r(2) c by linarith
  have "IntRange_iter r = Inr (range_ids r)" using r by (intro IntRange_iter_ids) simp
  moreover have "i \<in> set (range_ids r) \<longleftrightarrow>
      (\<exists>k. unat i = unat v + k * unat d) \<and> v \<le> i \<and> i \<le> l" for i
  proof -
    have "i \<in> set (range_ids r) \<longleftrightarrow>
        (\<exists>k. unat i = unat v + k * unat d \<and> unat i < unat v + unat (count r))"
      using range_ids_mem [of r i] b r by simp
    also have "\<dots> \<longleftrightarrow> (\<exists>k. unat i = unat v + k * unat d) \<and> unat v \<le> unat i \<and> unat i \<le> unat l"
      using u(2) unfolding c by auto
    finally show ?thesis by (simp add: word_le_nat_alt)
  qed
  ultimately show ?thesis
    using range_ids_sorted [OF b] unfolding l_def d_def by blast
qed

theorem p_range_ids_witness:
  "\<exists>ids. IntRange_iter (IntRange_new 0 11 2) = Inr ids \<and> sorted_wrt (<) ids \<and>
    (\<forall>i. i \<in> set ids \<longleftrightarrow> (\<exists>k. unat i = k * 2) \<and> i \<le> 10)"
  using p_range_ids [of 0 "Some 10" "Some 2" "IntRange_new 0 11 2"]
  by (simp add: p_range_def)

lemma p_array_ids:
  assumes "IntArray_iter (IntArray_new rs) = Inr ids"
  shows "p_array rs = Inr (if distinct ids then Inr (IntArray_new rs) else Inl ''Ranges overlap'')"
proof -
  have it: "iter_ranges rs = Inr ids" using assms by (simp add: IntArray_iter_def IntArray_new_def)
  note st = iter_ranges_steps [OF it]
  have "ids = concat (map range_ids rs)" using it iter_ranges_ids [OF st] by simp
  with is_overlapping_ids [OF st] show ?thesis by (simp add: p_array_def)
qed

text \<open>
  Claim C34. The parser accepts a list of ranges exactly when no id occurs twice in them: the check of
  overlaps on the sorted ranges decides that the iteration has no repetition.
\<close>

theorem p_array_decides_overlap:
  assumes "IntArray_iter (IntArray_new rs) = Inr ids"
  shows "p_array rs = Inr (if distinct ids then Inr (IntArray_new rs) else Inl ''Ranges overlap'')"
  using assms by (rule p_array_ids)

lemma iter_example:
  "IntArray_iter (IntArray_new [IntRange_new 4 3 1, IntRange_new 6 1 1]) = Inr [4, 5, 6, 6]"
  by (simp add: IntArray_iter_def IntArray_new_def IntRange_iter_def IntRange_new_def
      step_list.simps)

theorem p_array_decides_overlap_witness:
  "p_array [IntRange_new 4 3 1, IntRange_new 6 1 1] = Inr (Inl ''Ranges overlap'')"
  using p_array_decides_overlap [OF iter_example] by simp

text \<open>
  An array built from ids iterates over exactly these ids, as often as each is given, and in the
  same order when they are ascending, provided none is the largest value of the type.
\<close>

theorem from_ids_roundtrip:
  assumes "\<forall>i \<in> set ids. unat i + 1 < 2 ^ 32"
  shows "\<exists>xs. IntArray_iter (from_ids ids) = Inr xs \<and> mset xs = mset ids \<and>
    (sorted_wrt (<) ids \<longrightarrow> xs = ids)"
  using assms by (rule from_ids_ids)

theorem from_ids_roundtrip_witness:
  "IntArray_iter (from_ids [1, 2, 3, 7]) = Inr [1, 2, 3, 7]"
  using from_ids_roundtrip [of "[1, 2, 3, 7]"] by simp



text \<open>
  The largest id is lost: an array of only that id counts one id and iterates over none, and the
  range of all ids that the parser accepts has the count zero.
\<close>

theorem top_id_wraps:
  "id_count (from_range 4294967295 1) = 1 \<and> IntArray_iter (from_range 4294967295 1) = Inr [] \<and>
   p_range (0, Some 4294967295, None) = Inr (IntRange_new 0 0 1)"
proof -
  have "IntRange_new 0 4294967296 1 = IntRange_new 0 0 1"
    by (simp add: IntRange_new_def word_unat_eq_iff)
  then show ?thesis
    by (simp add: id_count_def from_range_def IntArray_iter_def IntRange_iter_def step_list.simps
        p_range_def)
qed

end
