(* ===== verification/Messages.thy ===== *)
theory Messages
  imports IntArray
begin

text \<open>
  The data that server, clients, workers and the task backend exchange:
  \<^verbatim>\<open>src/src/transfer/messages.rs\<close>, the task states and counters of
  \<^verbatim>\<open>src/src/server/job.rs\<close> that messages carry, the statuses of
  \<^verbatim>\<open>src/src/client/status.rs\<close>, the control messages of
  \<^verbatim>\<open>src/src/stream/server/control.rs\<close>, and the gateway messages of the Tako
  backend with the fields the program reads and writes. The resource request is a type of
  Tako whose structure the program does not see: it is the type parameter \<open>'rr\<close>.
\<close>

section \<open>Task states and counters\<close>

datatype JobTaskState =
    Waiting
  | Running WorkerId date
  | Finished WorkerId date date
  | Failed WorkerId date date string
  | Canceled

fun get_worker_of_state :: "JobTaskState \<Rightarrow> WorkerId option" where
  "get_worker_of_state (Running w _) = Some w"
| "get_worker_of_state (Finished w _ _) = Some w"
| "get_worker_of_state (Failed w _ _ _) = Some w"
| "get_worker_of_state _ = None"

record JobTaskInfo =
  info_state :: JobTaskState
  info_task_id :: JobTaskId

record JobTaskCounters =
  n_running_tasks :: JobTaskCount
  n_finished_tasks :: JobTaskCount
  n_failed_tasks :: JobTaskCount
  n_canceled_tasks :: JobTaskCount

definition counters_default :: JobTaskCounters where
  "counters_default =
     \<lparr>n_running_tasks = 0, n_finished_tasks = 0, n_failed_tasks = 0, n_canceled_tasks = 0\<rparr>"

text \<open>\<open>impl std::ops::Add for JobTaskCounters\<close>.\<close>

definition JobTaskCounters_add :: "JobTaskCounters \<Rightarrow> JobTaskCounters \<Rightarrow> JobTaskCounters" where
  "JobTaskCounters_add a b =
     \<lparr>n_running_tasks = n_running_tasks a + n_running_tasks b,
      n_finished_tasks = n_finished_tasks a + n_finished_tasks b,
      n_failed_tasks = n_failed_tasks a + n_failed_tasks b,
      n_canceled_tasks = n_canceled_tasks a + n_canceled_tasks b\<rparr>"

definition n_waiting_tasks :: "JobTaskCounters \<Rightarrow> JobTaskCount \<Rightarrow> JobTaskCount" where
  "n_waiting_tasks c n =
     n - n_running_tasks c - n_finished_tasks c - n_failed_tasks c - n_canceled_tasks c"

section \<open>Programs, jobs and requests\<close>

datatype StdioDef = Null | File path | Pipe

record ProgramDefinition =
  pd_args :: "bstring list"
  pd_env :: "(bstring, bstring) hmap"
  pd_stdout :: StdioDef
  pd_stderr :: StdioDef
  pd_cwd :: "path option"

datatype JobType = Simple | Array IntArray

record TaskBody =
  tb_program :: ProgramDefinition
  tb_pin :: bool
  tb_job_id :: JobId
  tb_task_id :: JobTaskId

record 'rr SubmitRequest =
  sr_job_type :: JobType
  sr_name :: string
  sr_max_fails :: "JobTaskCount option"
  sr_spec :: ProgramDefinition
  sr_resources :: 'rr
  sr_pin :: bool
  sr_entries :: "bstring list option"
  sr_submit_dir :: path
  sr_priority :: int
  sr_time_limit :: "nat option"
  sr_log :: "path option"

datatype Selector = All | LastN u32 | Specific IntArray

datatype Status = StWaiting | StRunning | StFinished | StFailed | StCanceled

record ResubmitRequest =
  rr_job_id :: JobId
  rr_status :: "Status list option"

datatype 'rr FromClientMessage =
    Submit "'rr SubmitRequest"
  | Resubmit ResubmitRequest
  | Cancel Selector
  | JobDetailReq Selector bool
  | JobInfoReq Selector
  | WorkerList
  | WorkerInfoReq WorkerId
  | Stats
  | StopWorkerReq Selector
  | Stop

datatype CancelJobResponse =
    CjCanceled "JobTaskId list" JobTaskCount
  | CjInvalidJob
  | CjFailed string

datatype StopWorkerResponse =
    SwStopped
  | SwAlreadyStopped
  | SwInvalidWorker
  | SwFailed string

record StreamStats =
  ss_connections :: "string list"
  ss_registrations :: "(JobId \<times> path) list"
  ss_files :: "string list"

record 'rr JobInfo =
  ji_id :: JobId
  ji_name :: string
  ji_n_tasks :: JobTaskCount
  ji_counters :: JobTaskCounters
  ji_resources :: 'rr

record 'rr JobDetail =
  jd_info :: "'rr JobInfo"
  jd_job_type :: JobType
  jd_program_def :: ProgramDefinition
  jd_tasks :: "JobTaskInfo list"
  jd_resources :: 'rr
  jd_pin :: bool
  jd_max_fails :: "JobTaskCount option"
  jd_priority :: int
  jd_time_limit :: "nat option"
  jd_submission_date :: date
  jd_completion_date_or_now :: date

section \<open>Workers\<close>

record ResourceDescriptor =
  cpus :: "u32 list list"

record WorkerConfiguration =
  wc_resources :: ResourceDescriptor
  wc_listen_address :: string
  wc_hostname :: string
  wc_work_dir :: path
  wc_log_dir :: path
  wc_heartbeat_interval :: nat
  wc_idle_timeout :: "nat option"
  wc_extra :: "(string, string) hmap"
  wc_hw_state_poll_interval :: "nat option"

datatype LostWorkerReasonInfo =
    InfoStopped
  | InfoConnectionLost
  | InfoHeartbeatLost
  | InfoIdleTimeout

record WorkerExitInfo =
  ended_at :: date
  reason :: LostWorkerReasonInfo

record WorkerInfo =
  wi_id :: WorkerId
  wi_configuration :: WorkerConfiguration
  wi_ended :: "WorkerExitInfo option"

datatype 'rr ToClientMessage =
    JobInfoResponse "'rr JobInfo list"
  | JobDetailResponse "(JobId \<times> 'rr JobDetail option) list"
  | SubmitResponse "'rr JobDetail"
  | WorkerListResponse "WorkerInfo list"
  | WorkerInfoResponse "WorkerInfo option"
  | StatsResponse StreamStats
  | StopWorkerResponses "(WorkerId \<times> StopWorkerResponse) list"
  | CancelJobResponses "(JobId \<times> CancelJobResponse) list"
  | ErrorResponse string

section \<open>Control messages of the stream server\<close>

datatype StreamServerControlMessage =
    RegisterStream JobId path
  | UnregisterStream JobId
  | AddConnection string
  | StreamStatsRequest

section \<open>Gateway messages of the task backend\<close>

record 'rr TaskDef =
  td_id :: TakoTaskId
  td_resources :: 'rr
  td_n_outputs :: nat
  td_time_limit :: "nat option"
  td_type_id :: nat
  td_body :: bstring
  td_keep :: bool
  td_observe :: bool
  td_priority :: int

datatype 'rr FromGatewayMessage =
    NewTasks "'rr TaskDef list"
  | CancelTasks "TakoTaskId list"
  | StopWorker WorkerId

datatype TaskState = TsInvalid | TsWaiting | TsRunning WorkerId | TsFinished

datatype LostWorkerReason = LwStopped | LwConnectionLost | LwHeartbeatLost | LwIdleTimeout

datatype ToGatewayMessage =
    TaskUpdate TakoTaskId TaskState
  | TaskFailed TakoTaskId string
  | NewWorker WorkerId WorkerConfiguration
  | LostWorker WorkerId "TakoTaskId list" LostWorkerReason
  | NewTasksResponse
  | CancelTasksResponse "TakoTaskId list"
  | WorkerStopped
  | GatewayError string

section \<open>Statuses\<close>

text \<open>\<^verbatim>\<open>client/status.rs\<close>: the status of a job from its counters, of a task from its state.\<close>

definition job_status :: "'rr JobInfo \<Rightarrow> Status outcome" where
  "job_status i =
     (let has_waiting = n_waiting_tasks (ji_counters i) (ji_n_tasks i) > 0
      in if n_running_tasks (ji_counters i) > 0 then Inr StRunning
         else if has_waiting then Inr StWaiting
         else if n_canceled_tasks (ji_counters i) > 0 then Inr StCanceled
         else if n_failed_tasks (ji_counters i) > 0 then Inr StFailed
         else if n_finished_tasks (ji_counters i) = ji_n_tasks i then Inr StFinished
         else Inl Assert_failed)"

definition info_is_terminated :: "'rr JobInfo \<Rightarrow> bool" where
  "info_is_terminated i \<longleftrightarrow>
     n_running_tasks (ji_counters i) = 0 \<and> n_waiting_tasks (ji_counters i) (ji_n_tasks i) = 0"

fun task_status :: "JobTaskState \<Rightarrow> Status" where
  "task_status Waiting = StWaiting"
| "task_status (Running _ _) = StRunning"
| "task_status (Finished _ _ _) = StFinished"
| "task_status (Failed _ _ _ _) = StFailed"
| "task_status Canceled = StCanceled"

fun Status_from_str :: "string \<Rightarrow> string + Status" where
  "Status_from_str s =
     (if s = ''waiting'' then Inr StWaiting
      else if s = ''running'' then Inr StRunning
      else if s = ''finished'' then Inr StFinished
      else if s = ''failed'' then Inr StFailed
      else if s = ''canceled'' then Inr StCanceled
      else Inl ''Invalid job status'')"

text \<open>Counters that describe a list of task states.\<close>

definition counters_of :: "JobTaskState list \<Rightarrow> JobTaskCounters" where
  "counters_of ss =
     \<lparr>n_running_tasks = of_nat (count_if (\<lambda>s. task_status s = StRunning) ss),
      n_finished_tasks = of_nat (count_if (\<lambda>s. task_status s = StFinished) ss),
      n_failed_tasks = of_nat (count_if (\<lambda>s. task_status s = StFailed) ss),
      n_canceled_tasks = of_nat (count_if (\<lambda>s. task_status s = StCanceled) ss)\<rparr>"

end
