(* ===== verification/Job.thy ===== *)
theory Job
  imports Messages
begin

text \<open>
  The job of \<^verbatim>\<open>src/src/server/job.rs\<close>: its table of tasks, the counters kept
  beside it, and the transitions that the server applies to one task at a time. The clock
  \<^verbatim>\<open>Utc::now()\<close> is the argument \<open>now\<close>; the control messages sent to the stream
  server are part of the result.
\<close>

section \<open>The job and its operations\<close>

datatype JobState =
    SingleTask JobTaskState
  | ManyTasks "(TakoTaskId, JobTaskInfo) hmap"

record 'rr Job =
  job_id :: JobId
  base_task_id :: TakoTaskId
  job_max_fails :: "JobTaskCount option"
  job_counters :: JobTaskCounters
  job_state :: JobState
  job_log :: "path option"
  job_type :: JobType
  job_name :: string
  job_program_def :: ProgramDefinition
  job_resources :: 'rr
  job_pin :: bool
  job_entries :: "bstring list option"
  job_priority :: int
  job_time_limit :: "nat option"
  job_submission_date :: date
  job_completion_date :: "date option"

definition collect_map :: "('k \<times> 'v) list \<Rightarrow> ('k, 'v) hmap" where
  "collect_map xs = foldl (\<lambda>m (k, v). fst (hm_insert k v m)) [] xs"

definition initial_tasks :: "TakoTaskId \<Rightarrow> JobTaskId list \<Rightarrow> (TakoTaskId \<times> JobTaskInfo) list" where
  "initial_tasks base ids =
     map (\<lambda>(i, task_id). (base + of_nat i, \<lparr>info_state = Waiting, info_task_id = task_id\<rparr>))
       (enumerate 0 ids)"

definition new_job_state :: "JobType \<Rightarrow> TakoTaskId \<Rightarrow> JobState outcome" where
  "new_job_state jt base =
     (case jt of
        Simple \<Rightarrow> Inr (SingleTask Waiting)
      | Array m \<Rightarrow>
          if id_count m = 1 then Inr (SingleTask Waiting)
          else try_bind (IntArray_iter m)
                 (\<lambda>ids. Inr (ManyTasks (collect_map (initial_tasks base ids)))))"

definition Job_new ::
  "date \<Rightarrow> JobType \<Rightarrow> JobId \<Rightarrow> TakoTaskId \<Rightarrow> string \<Rightarrow> ProgramDefinition \<Rightarrow> 'rr \<Rightarrow> bool \<Rightarrow>
   JobTaskCount option \<Rightarrow> bstring list option \<Rightarrow> int \<Rightarrow> nat option \<Rightarrow> path option \<Rightarrow> 'rr Job outcome" where
  "Job_new now jt jid base nm pd res pin mf entries prio tlim lg =
     try_bind (new_job_state jt base) (\<lambda>st.
       Inr \<lparr>job_id = jid, base_task_id = base, job_max_fails = mf,
            job_counters = counters_default, job_state = st, job_log = lg, job_type = jt,
            job_name = nm, job_program_def = pd, job_resources = res, job_pin = pin,
            job_entries = entries, job_priority = prio, job_time_limit = tlim,
            job_submission_date = now, job_completion_date = None\<rparr>)"

definition n_tasks :: "'rr Job \<Rightarrow> JobTaskCount" where
  "n_tasks j = (case job_state j of SingleTask _ \<Rightarrow> 1 | ManyTasks m \<Rightarrow> of_nat (length m))"

definition make_job_info :: "'rr Job \<Rightarrow> 'rr JobInfo" where
  "make_job_info j =
     \<lparr>ji_id = job_id j, ji_name = job_name j, ji_n_tasks = n_tasks j,
      ji_counters = job_counters j, ji_resources = job_resources j\<rparr>"

definition make_job_detail :: "date \<Rightarrow> 'rr Job \<Rightarrow> bool \<Rightarrow> 'rr JobDetail" where
  "make_job_detail now j include_tasks =
     \<lparr>jd_info = make_job_info j, jd_job_type = job_type j, jd_program_def = job_program_def j,
      jd_tasks =
        (if include_tasks
         then (case job_state j of
                 SingleTask s \<Rightarrow> [\<lparr>info_state = s, info_task_id = 0\<rparr>]
               | ManyTasks m \<Rightarrow> map snd m)
         else []),
      jd_resources = job_resources j, jd_pin = job_pin j, jd_max_fails = job_max_fails j,
      jd_priority = job_priority j, jd_time_limit = job_time_limit j,
      jd_submission_date = job_submission_date j,
      jd_completion_date_or_now =
        (case job_completion_date j of None \<Rightarrow> now | Some d \<Rightarrow> d)\<rparr>"

definition is_terminated :: "'rr Job \<Rightarrow> bool" where
  "is_terminated j \<longleftrightarrow>
     n_running_tasks (job_counters j) = 0 \<and> n_waiting_tasks (job_counters j) (n_tasks j) = 0"

text \<open>
  The mutable borrow of \<open>get_task_state_mut\<close> is a pair of a read, which panics for an
  unknown task of an array, and a write through the borrow. For a single task the identifier
  is only compared in debug builds.
\<close>

definition get_task_state :: "'rr Job \<Rightarrow> TakoTaskId \<Rightarrow> (JobTaskId \<times> JobTaskState) outcome" where
  "get_task_state j t =
     (case job_state j of
        SingleTask s \<Rightarrow> Inr (0, s)
      | ManyTasks m \<Rightarrow>
          try_bind (unwrap (map_of m t)) (\<lambda>i. Inr (info_task_id i, info_state i)))"

definition put_task_state :: "TakoTaskId \<Rightarrow> JobTaskState \<Rightarrow> 'rr Job \<Rightarrow> 'rr Job" where
  "put_task_state t s j =
     j\<lparr>job_state :=
         (case job_state j of
            SingleTask _ \<Rightarrow> SingleTask s
          | ManyTasks m \<Rightarrow> ManyTasks (hm_modify t (\<lambda>i. i\<lparr>info_state := s\<rparr>) m))\<rparr>"

definition iter_task_states :: "'rr Job \<Rightarrow> (TakoTaskId \<times> JobTaskId \<times> JobTaskState) list" where
  "iter_task_states j =
     (case job_state j of
        SingleTask s \<Rightarrow> [(base_task_id j, 0, s)]
      | ManyTasks m \<Rightarrow> map (\<lambda>(k, v). (k, info_task_id v, info_state v)) m)"

fun non_finished :: "JobTaskState \<Rightarrow> bool" where
  "non_finished Waiting = True"
| "non_finished (Running _ _) = True"
| "non_finished (Finished _ _ _) = False"
| "non_finished (Failed _ _ _ _) = False"
| "non_finished Canceled = False"

definition non_finished_task_ids :: "'rr Job \<Rightarrow> TakoTaskId list" where
  "non_finished_task_ids j =
     foldl (\<lambda>result (tako_id, _, s). if non_finished s then result @ [tako_id] else result) []
       (iter_task_states j)"

definition set_running_state :: "date \<Rightarrow> WorkerId \<Rightarrow> TakoTaskId \<Rightarrow> 'rr Job \<Rightarrow> 'rr Job outcome" where
  "set_running_state now worker t j =
     try_bind (get_task_state j t) (\<lambda>(_, s).
       if s = Waiting
       then Inr ((put_task_state t (Running worker now) j)
                   \<lparr>job_counters := (job_counters j)
                      \<lparr>n_running_tasks := n_running_tasks (job_counters j) + 1\<rparr>\<rparr>)
       else Inr j)"

definition check_termination :: "date \<Rightarrow> 'rr Job \<Rightarrow> 'rr Job \<times> StreamServerControlMessage list" where
  "check_termination now j =
     (if is_terminated j
      then (j\<lparr>job_completion_date := Some now\<rparr>,
            if job_log j \<noteq> None then [UnregisterStream (job_id j)] else [])
      else (j, []))"

definition set_finished_state ::
  "date \<Rightarrow> TakoTaskId \<Rightarrow> 'rr Job \<Rightarrow> ('rr Job \<times> StreamServerControlMessage list) outcome" where
  "set_finished_state now t j =
     try_bind (get_task_state j t) (\<lambda>(_, s).
       case s of
         Running worker start_date \<Rightarrow>
           (let c = job_counters j
            in Inr (check_termination now
                 ((put_task_state t (Finished worker start_date now) j)
                    \<lparr>job_counters :=
                       c\<lparr>n_running_tasks := n_running_tasks c - 1,
                         n_finished_tasks := n_finished_tasks c + 1\<rparr>\<rparr>)))
       | _ \<Rightarrow> Inl Explicit_panic)"

definition set_waiting_state :: "TakoTaskId \<Rightarrow> 'rr Job \<Rightarrow> 'rr Job outcome" where
  "set_waiting_state t j =
     try_bind (get_task_state j t) (\<lambda>(_, s).
       case s of
         Running _ _ \<Rightarrow>
           (let c = job_counters j
            in Inr ((put_task_state t Waiting j)
                      \<lparr>job_counters := c\<lparr>n_running_tasks := n_running_tasks c - 1\<rparr>\<rparr>))
       | _ \<Rightarrow> Inl Assert_failed)"

definition set_failed_state ::
  "date \<Rightarrow> string \<Rightarrow> TakoTaskId \<Rightarrow> 'rr Job \<Rightarrow> ('rr Job \<times> StreamServerControlMessage list) outcome" where
  "set_failed_state now error t j =
     try_bind (get_task_state j t) (\<lambda>(_, s).
       case s of
         Running worker start_date \<Rightarrow>
           (let c = job_counters j
            in Inr (check_termination now
                 ((put_task_state t (Failed worker start_date now error) j)
                    \<lparr>job_counters :=
                       c\<lparr>n_running_tasks := n_running_tasks c - 1,
                         n_failed_tasks := n_failed_tasks c + 1\<rparr>\<rparr>)))
       | _ \<Rightarrow> Inl Explicit_panic)"

definition set_cancel_state ::
  "date \<Rightarrow> TakoTaskId \<Rightarrow> 'rr Job \<Rightarrow>
   (JobTaskId \<times> 'rr Job \<times> StreamServerControlMessage list) outcome" where
  "set_cancel_state now t j =
     try_bind (get_task_state j t) (\<lambda>(task_id, old_state).
       let j1 = put_task_state t Canceled j;
           c = job_counters j;
           c1 = (case old_state of
                   Running _ _ \<Rightarrow> c\<lparr>n_running_tasks := n_running_tasks c - 1\<rparr>
                 | _ \<Rightarrow> c)
       in if non_finished old_state
          then Inr (task_id, check_termination now
                 (j1\<lparr>job_counters := c1\<lparr>n_canceled_tasks := n_canceled_tasks c1 + 1\<rparr>\<rparr>))
          else Inl Assert_failed)"

section \<open>The table of tasks\<close>

text \<open>
  Both representations of the tasks are a table from the identifiers of the backend to the
  tasks of the job. It is the abstract state that the operations act on.
\<close>

definition task_table :: "'rr Job \<Rightarrow> (TakoTaskId, JobTaskInfo) hmap" where
  "task_table j =
     (case job_state j of
        SingleTask s \<Rightarrow> [(base_task_id j, \<lparr>info_state = s, info_task_id = 0\<rparr>)]
      | ManyTasks m \<Rightarrow> m)"

definition task_states :: "'rr Job \<Rightarrow> JobTaskState list" where
  "task_states j = map (\<lambda>x. info_state (snd x)) (task_table j)"

definition owns :: "'rr Job \<Rightarrow> TakoTaskId \<Rightarrow> bool" where
  "owns j t \<longleftrightarrow> t \<in> fst ` set (task_table j)"

lemma owns_map_of: "owns j t \<longleftrightarrow> (\<exists>i. map_of (task_table j) t = Some i)"
  unfolding owns_def by (metis map_of_eq_None_iff not_None_eq)

lemma get_task_state_table:
  assumes "map_of (task_table j) t = Some i"
  shows "get_task_state j t = Inr (info_task_id i, info_state i)"
  using assms
  by (auto simp: task_table_def get_task_state_def split: JobState.splits if_splits)

lemma put_task_state_table:
  assumes "owns j t"
  shows "task_table (put_task_state t s j) =
         hm_modify t (\<lambda>i. i\<lparr>info_state := s\<rparr>) (task_table j)"
  using assms
  by (auto simp: task_table_def put_task_state_def owns_def split: JobState.splits)

lemma iter_task_states_table:
  "iter_task_states j = map (\<lambda>(k, v). (k, info_task_id v, info_state v)) (task_table j)"
  by (auto simp: iter_task_states_def task_table_def split: JobState.splits)

lemma foldl_filter_snoc:
  "foldl (\<lambda>r (a, b, s). if P s then r @ [a] else r) r0 xs =
   r0 @ map fst (filter (\<lambda>(a, b, s). P s) xs)"
  by (induction xs arbitrary: r0) auto

lemma non_finished_task_ids_table:
  "non_finished_task_ids j =
     map fst (filter (\<lambda>x. non_finished (info_state (snd x))) (task_table j))"
  unfolding non_finished_task_ids_def foldl_filter_snoc iter_task_states_table
  by (induction "task_table j") (auto simp: filter_map comp_def case_prod_unfold)

lemma n_tasks_table: "n_tasks j = of_nat (length (task_table j))"
  by (simp add: n_tasks_def task_table_def split: JobState.splits)

lemma task_table_update [simp]:
  "task_table (j\<lparr>job_counters := c\<rparr>) = task_table j"
  "task_table (j\<lparr>job_completion_date := d\<rparr>) = task_table j"
  by (simp_all add: task_table_def split: JobState.splits)

lemma put_task_state_fields [simp]:
  "job_id (put_task_state t s j) = job_id j"
  "base_task_id (put_task_state t s j) = base_task_id j"
  "job_counters (put_task_state t s j) = job_counters j"
  "job_log (put_task_state t s j) = job_log j"
  "job_completion_date (put_task_state t s j) = job_completion_date j"
  by (simp_all add: put_task_state_def)

section \<open>The invariant\<close>

text \<open>
  The counters are those of the table, the identifiers of the backend are the interval that
  starts at the base, and the completion date is set exactly for a job with tasks all of
  which have ended.
\<close>

definition job_wf :: "'rr Job \<Rightarrow> bool" where
  "job_wf j \<longleftrightarrow>
     distinct (map fst (task_table j)) \<and>
     unat ` fst ` set (task_table j) =
       {unat (base_task_id j) ..< unat (base_task_id j) + length (task_table j)} \<and>
     length (task_table j) < 2 ^ 32 \<and>
     job_counters j = counters_of (task_states j) \<and>
     (job_completion_date j \<noteq> None \<longleftrightarrow>
        task_states j \<noteq> [] \<and> (\<forall>s \<in> set (task_states j). \<not> non_finished s))"

definition bump :: "Status \<Rightarrow> u32 \<Rightarrow> JobTaskCounters \<Rightarrow> JobTaskCounters" where
  "bump st d c =
     (case st of
        StWaiting \<Rightarrow> c
      | StRunning \<Rightarrow> c\<lparr>n_running_tasks := n_running_tasks c + d\<rparr>
      | StFinished \<Rightarrow> c\<lparr>n_finished_tasks := n_finished_tasks c + d\<rparr>
      | StFailed \<Rightarrow> c\<lparr>n_failed_tasks := n_failed_tasks c + d\<rparr>
      | StCanceled \<Rightarrow> c\<lparr>n_canceled_tasks := n_canceled_tasks c + d\<rparr>)"

lemma of_nat_shift:
  assumes "a + (if P then 1 else 0) = b + (if Q then 1 else (0::nat))"
  shows "(of_nat a :: u32) = of_nat b + (if Q then 1 else 0) - (if P then 1 else 0)"
proof -
  have "of_nat (a + (if P then 1 else 0)) = (of_nat (b + (if Q then 1 else 0)) :: u32)"
    using assms by simp
  then show ?thesis by (auto simp: algebra_simps split: if_splits)
qed

lemma counters_shift:
  assumes "distinct (map fst m)" "map_of m t = Some i"
  shows "counters_of (map (\<lambda>x. info_state (snd x)) (hm_modify t (\<lambda>i. i\<lparr>info_state := s\<rparr>) m)) =
         bump (task_status s) 1 (bump (task_status (info_state i)) (-1)
           (counters_of (map (\<lambda>x. info_state (snd x)) m)))"
proof -
  have c: "(of_nat (count_if (\<lambda>s. task_status s = st)
              (map (\<lambda>x. info_state (snd x)) (hm_modify t (\<lambda>i. i\<lparr>info_state := s\<rparr>) m))) :: u32) =
           of_nat (count_if (\<lambda>s. task_status s = st) (map (\<lambda>x. info_state (snd x)) m))
             + (if task_status s = st then 1 else 0)
             - (if task_status (info_state i) = st then 1 else 0)" for st
    using count_if_hm_modify [OF assms, of "\<lambda>s. task_status s = st" info_state
        "\<lambda>i. i\<lparr>info_state := s\<rparr>"]
    by (intro of_nat_shift) simp
  show ?thesis
    unfolding counters_of_def c by (simp add: bump_def split: Status.splits)
qed

lemma task_states_length [simp]: "length (task_states j) = length (task_table j)"
  by (simp add: task_states_def)

lemma status_partition:
  "length ss = count_if (\<lambda>s. task_status s = StWaiting) ss
     + count_if (\<lambda>s. task_status s = StRunning) ss + count_if (\<lambda>s. task_status s = StFinished) ss
     + count_if (\<lambda>s. task_status s = StFailed) ss + count_if (\<lambda>s. task_status s = StCanceled) ss"
proof (induction ss)
  case (Cons s ss)
  then show ?case by (cases s) simp_all
qed simp

lemma unat_count:
  assumes "length ss < 2 ^ 32"
  shows "unat (of_nat (count_if P ss) :: u32) = count_if P ss"
  using assms count_if_le_length [of P ss] by (simp add: unat_of_nat take_bit_nat_eq_self)

lemma n_waiting_counters_of:
  "n_waiting_tasks (counters_of ss) (of_nat (length ss)) =
   of_nat (count_if (\<lambda>s. task_status s = StWaiting) ss)"
  by (simp add: n_waiting_tasks_def counters_of_def status_partition [of ss])

lemma non_finished_status:
  "non_finished s \<longleftrightarrow> task_status s = StWaiting \<or> task_status s = StRunning"
  by (cases s) simp_all

lemma count_word_zero:
  assumes "length ss < 2 ^ 32"
  shows "(of_nat (count_if P ss) :: u32) = 0 \<longleftrightarrow> (\<forall>s \<in> set ss. \<not> P s)"
  using unat_count [OF assms, of P] count_if_zero [of P ss]
  by (metis unat_0 unat_eq_0)

lemma is_terminated_counters:
  assumes "job_counters j = counters_of (task_states j)" "length (task_table j) < 2 ^ 32"
  shows "is_terminated j \<longleftrightarrow> (\<forall>s \<in> set (task_states j). \<not> non_finished s)"
proof -
  have l: "length (task_states j) < 2 ^ 32" using assms(2) by simp
  have "is_terminated j \<longleftrightarrow>
      (of_nat (count_if (\<lambda>s. task_status s = StRunning) (task_states j)) :: u32) = 0 \<and>
      (of_nat (count_if (\<lambda>s. task_status s = StWaiting) (task_states j)) :: u32) = 0"
    unfolding is_terminated_def assms(1) n_tasks_table
    using n_waiting_counters_of [of "task_states j"] by (simp add: counters_of_def)
  then show ?thesis
    unfolding count_word_zero [OF l] non_finished_status by blast
qed

lemma job_wf_terminated:
  assumes "job_wf j"
  shows "is_terminated j \<longleftrightarrow> (\<forall>s \<in> set (task_states j). \<not> non_finished s)"
  using assms by (intro is_terminated_counters) (simp_all add: job_wf_def)

lemma check_termination_fields [simp]:
  "task_table (fst (check_termination now j)) = task_table j"
  "base_task_id (fst (check_termination now j)) = base_task_id j"
  "job_counters (fst (check_termination now j)) = job_counters j"
  "job_id (fst (check_termination now j)) = job_id j"
  "job_log (fst (check_termination now j)) = job_log j"
  by (simp_all add: check_termination_def)

lemma is_terminated_check [simp]:
  "is_terminated (fst (check_termination now j)) = is_terminated j"
  by (simp add: is_terminated_def n_tasks_table)

lemma task_states_check [simp]: "task_states (fst (check_termination now j)) = task_states j"
  by (simp add: task_states_def)

section \<open>One transition of one task\<close>

text \<open>
  All operations move one task to a new state and shift the counters by that task; those that
  end a task then check for termination. Every case of the invariant goes through this one
  transition.
\<close>

definition move_task :: "TakoTaskId \<Rightarrow> JobTaskState \<Rightarrow> JobTaskState \<Rightarrow> 'rr Job \<Rightarrow> 'rr Job" where
  "move_task t old new j =
     (put_task_state t new j)
       \<lparr>job_counters := bump (task_status new) 1 (bump (task_status old) (-1) (job_counters j))\<rparr>"

lemma move_task_table:
  assumes "map_of (task_table j) t = Some i"
  shows "task_table (move_task t old new j) =
         hm_modify t (\<lambda>i. i\<lparr>info_state := new\<rparr>) (task_table j)"
  using assms put_task_state_table [of j t] by (auto simp: move_task_def owns_map_of)

lemma move_task_fields [simp]:
  "job_id (move_task t old new j) = job_id j"
  "base_task_id (move_task t old new j) = base_task_id j"
  "job_log (move_task t old new j) = job_log j"
  "job_completion_date (move_task t old new j) = job_completion_date j"
  by (simp_all add: move_task_def)

lemma move_task_counters:
  assumes "job_wf j" "map_of (task_table j) t = Some i"
  shows "job_counters (move_task t (info_state i) new j) =
         counters_of (task_states (move_task t (info_state i) new j))"
  using assms counters_shift [of "task_table j" t i new]
  by (simp add: task_states_def move_task_table job_wf_def) (simp add: move_task_def)

lemma open_task_no_completion:
  assumes "job_wf j" "map_of (task_table j) t = Some i" "non_finished (info_state i)"
  shows "job_completion_date j = None"
proof -
  have "info_state i \<in> set (task_states j)"
    using assms(2) by (force simp: task_states_def dest: map_of_SomeD)
  with assms(1,3) show ?thesis by (auto simp: job_wf_def)
qed

lemma fst_set_hm_modify [simp]: "fst ` set (hm_modify k f m) = fst ` set m"
  by (metis list.set_map map_fst_hm_modify)

lemma move_check_wf:
  assumes "job_wf j" "map_of (task_table j) t = Some i" "non_finished (info_state i)"
  shows "job_wf (fst (check_termination now (move_task t (info_state i) new j)))"
proof -
  let ?k = "move_task t (info_state i) new j"
  have c: "job_counters ?k = counters_of (task_states ?k)"
    using assms move_task_counters by blast
  have tt: "task_table ?k = hm_modify t (\<lambda>i. i\<lparr>info_state := new\<rparr>) (task_table j)"
    using assms(2) by (rule move_task_table)
  have l: "length (task_table ?k) < 2 ^ 32" using assms(1) by (simp add: tt job_wf_def)
  have ne: "task_states ?k \<noteq> []"
    using assms(2) tt by (auto simp: task_states_def hm_modify_def)
  have "job_completion_date (fst (check_termination now ?k)) \<noteq> None \<longleftrightarrow> is_terminated ?k"
    using open_task_no_completion [OF assms] by (simp add: check_termination_def)
  with is_terminated_counters [OF c l] ne
  have d: "job_completion_date (fst (check_termination now ?k)) \<noteq> None \<longleftrightarrow>
      task_states ?k \<noteq> [] \<and> (\<forall>s \<in> set (task_states ?k). \<not> non_finished s)"
    by blast
  from assms(1) c d l show ?thesis
    unfolding job_wf_def by (simp add: tt)
qed

lemma move_open_not_terminated:
  assumes "job_wf j" "map_of (task_table j) t = Some i" "non_finished new"
  shows "\<not> is_terminated (move_task t (info_state i) new j)"
proof -
  let ?k = "move_task t (info_state i) new j"
  have "map_of (task_table ?k) t = Some (i\<lparr>info_state := new\<rparr>)"
    using assms(2) by (simp add: move_task_table map_of_hm_modify)
  then have "new \<in> set (task_states ?k)"
    by (force simp: task_states_def dest: map_of_SomeD)
  moreover have "length (task_table ?k) < 2 ^ 32"
    using assms(1,2) by (simp add: move_task_table job_wf_def)
  ultimately show ?thesis
    using is_terminated_counters move_task_counters [OF assms(1,2)] assms(3) by blast
qed

lemma move_open_wf:
  assumes "job_wf j" "map_of (task_table j) t = Some i" "non_finished (info_state i)"
    and "non_finished new"
  shows "job_wf (move_task t (info_state i) new j)"
  using move_check_wf [OF assms(1-3), of 0 new] move_open_not_terminated [OF assms(1,2,4)]
  by (simp add: check_termination_def)

text \<open>What an operation leaves alone: everything but the states, the counters and the date.\<close>

definition same_config :: "'rr Job \<Rightarrow> 'rr Job \<Rightarrow> bool" where
  "same_config j j' \<longleftrightarrow>
     j' = j\<lparr>job_state := job_state j', job_counters := job_counters j',
            job_completion_date := job_completion_date j'\<rparr>"

lemma same_config_refl [simp]: "same_config j j"
  by (simp add: same_config_def)

lemma same_config_fields:
  assumes "same_config j j'"
  shows "job_id j' = job_id j" "base_task_id j' = base_task_id j"
    "job_log j' = job_log j" "job_max_fails j' = job_max_fails j" "job_type j' = job_type j"
  using assms unfolding same_config_def by (cases j; cases j'; simp)+

lemma same_config_trans:
  "same_config a b \<Longrightarrow> same_config b c \<Longrightarrow> same_config a c"
  unfolding same_config_def by (cases a; cases b; cases c) simp

lemma same_config_move [simp]: "same_config j (move_task t old new j)"
  by (simp add: same_config_def move_task_def put_task_state_def)

lemma same_config_check [simp]: "same_config j (fst (check_termination now j))"
  by (simp add: same_config_def check_termination_def)

section \<open>The contract of an operation on one task\<close>

text \<open>
  An operation has a set of task states it accepts and the state it moves the task to. In any
  other state it panics.
\<close>

locale task_op =
  fixes oper :: "TakoTaskId \<Rightarrow> 'rr Job \<Rightarrow> ('rr Job \<times> 'o) outcome"
    and accepts :: "JobTaskState \<Rightarrow> bool"
    and target :: "JobTaskState \<Rightarrow> JobTaskState"
  assumes oper_ok:
      "job_wf j \<Longrightarrow> map_of (task_table j) t = Some i \<Longrightarrow> accepts (info_state i) \<Longrightarrow>
       \<exists>j' out. oper t j = Inr (j', out) \<and> job_wf j' \<and> same_config j j' \<and>
         task_table j' = hm_modify t (\<lambda>i. i\<lparr>info_state := target (info_state i)\<rparr>) (task_table j)"
    and oper_panic:
      "map_of (task_table j) t = Some i \<Longrightarrow> \<not> accepts (info_state i) \<Longrightarrow> \<exists>p. oper t j = Inl p"
begin

lemma accepted:
  assumes "oper t j = Inr (j', out)" "map_of (task_table j) t = Some i"
  shows "accepts (info_state i)"
  using oper_panic [OF assms(2)] assms(1) by auto

lemma result:
  assumes "job_wf j" "owns j t" "oper t j = Inr (j', out)"
  shows "job_wf j'" "same_config j j'"
    "task_table j' = hm_modify t (\<lambda>i. i\<lparr>info_state := target (info_state i)\<rparr>) (task_table j)"
proof -
  obtain i where i: "map_of (task_table j) t = Some i" using assms(2) owns_map_of by blast
  from oper_ok [OF assms(1) i accepted [OF assms(3) i]] assms(3)
  show "job_wf j'" "same_config j j'"
    "task_table j' = hm_modify t (\<lambda>i. i\<lparr>info_state := target (info_state i)\<rparr>) (task_table j)"
    by auto
qed

lemma keeps_owned:
  assumes "job_wf j" "owns j t" "oper t j = Inr (j', out)"
  shows "owns j' = owns j" "length (task_table j') = length (task_table j)"
  using result [OF assms] by (simp_all add: owns_def fun_eq_iff)

lemma one_task_changes:
  assumes "job_wf j" "map_of (task_table j) t = Some i" "oper t j = Inr (j', out)"
  shows "map_of (task_table j') =
         (map_of (task_table j))(t \<mapsto> i\<lparr>info_state := target (info_state i)\<rparr>)"
  using result(3) [OF assms(1) _ assms(3)] assms(2)
  by (auto simp: owns_map_of map_of_hm_modify fun_eq_iff)

text \<open>The operation over a list of tasks, as the loops over cancelled and lost tasks do.\<close>

lemma loop_ok:
  assumes "job_wf j" "distinct ts" "\<forall>t \<in> set ts. \<exists>i. map_of (task_table j) t = Some i \<and> accepts (info_state i)"
    and "\<And>t ts j. loop (t # ts) j = try_bind (oper t j) (\<lambda>(j', out). loop ts j')"
    and "\<And>j. loop [] j = Inr j"
  shows "\<exists>j'. loop ts j = Inr j' \<and> job_wf j' \<and> same_config j j' \<and> owns j' = owns j \<and>
    map_of (task_table j') = (\<lambda>t. if t \<in> set ts
      then map_option (\<lambda>i. i\<lparr>info_state := target (info_state i)\<rparr>) (map_of (task_table j) t)
      else map_of (task_table j) t)"
  using assms(1-3)
proof (induction ts arbitrary: j)
  case Nil
  then show ?case by (simp add: assms(5))
next
  case (Cons t ts)
  obtain i where i: "map_of (task_table j) t = Some i" "accepts (info_state i)"
    using Cons.prems(3) by auto
  from oper_ok [OF Cons.prems(1) i] obtain j1 out where
    j1: "oper t j = Inr (j1, out)" "job_wf j1" "same_config j j1" by blast
  note one = one_task_changes [OF Cons.prems(1) i(1) j1(1)]
  have "\<forall>u \<in> set ts. \<exists>i. map_of (task_table j1) u = Some i \<and> accepts (info_state i)"
    using Cons.prems(2,3) one by auto
  from Cons.IH [OF j1(2) _ this] Cons.prems(2) obtain j2 where
    j2: "loop ts j1 = Inr j2" "job_wf j2" "same_config j1 j2" "owns j2 = owns j1"
      "map_of (task_table j2) = (\<lambda>t. if t \<in> set ts
        then map_option (\<lambda>i. i\<lparr>info_state := target (info_state i)\<rparr>) (map_of (task_table j1) t)
        else map_of (task_table j1) t)" by auto
  have "owns j1 = owns j"
    using keeps_owned(1) [OF Cons.prems(1) _ j1(1)] i(1) owns_map_of by blast
  then show ?case
    using j1 j2 one i(1) Cons.prems(2) same_config_trans [OF j1(3) j2(3)]
    by (auto simp: assms(4) fun_eq_iff)
qed

end

section \<open>The operations meet the contract\<close>

fun is_running :: "JobTaskState \<Rightarrow> bool" where
  "is_running (Running _ _) = True"
| "is_running _ = False"

fun finish_target :: "date \<Rightarrow> JobTaskState \<Rightarrow> JobTaskState" where
  "finish_target now (Running w d) = Finished w d now"
| "finish_target now s = s"

fun fail_target :: "date \<Rightarrow> string \<Rightarrow> JobTaskState \<Rightarrow> JobTaskState" where
  "fail_target now e (Running w d) = Failed w d now e"
| "fail_target now e s = s"

definition run_target :: "date \<Rightarrow> WorkerId \<Rightarrow> JobTaskState \<Rightarrow> JobTaskState" where
  "run_target now w s = (if s = Waiting then Running w now else s)"

text \<open>Results in the shape of the contract: the job and what else the operation yields.\<close>

definition with_unit :: "'rr Job outcome \<Rightarrow> ('rr Job \<times> unit) outcome" where
  "with_unit r = try_bind r (\<lambda>j. Inr (j, ()))"

definition job_first :: "('a \<times> 'rr Job \<times> 'b) outcome \<Rightarrow> ('rr Job \<times> 'a \<times> 'b) outcome" where
  "job_first r = try_bind r (\<lambda>(a, j, b). Inr (j, a, b))"

lemma hm_modify_cong:
  assumes "map_of m t = Some i" "distinct (map fst m)" "f i = g i"
  shows "hm_modify t f m = hm_modify t g m"
  using assms by (induction m) (auto split: if_splits simp: image_iff dest: map_of_SomeD)

lemma hm_modify_id:
  assumes "map_of m t = Some i" "distinct (map fst m)" "f i = i"
  shows "hm_modify t f m = m"
proof -
  have "hm_modify t f m = hm_modify t (\<lambda>x. x) m"
    using assms by (intro hm_modify_cong [of m t i]) simp_all
  also have "\<dots> = m" by (simp add: hm_modify_def case_prod_unfold map_idI)
  finally show ?thesis .
qed

lemma move_task_target:
  assumes "job_wf j" "map_of (task_table j) t = Some i" "new = target (info_state i)"
  shows "task_table (move_task t (info_state i) new j) =
         hm_modify t (\<lambda>i. i\<lparr>info_state := target (info_state i)\<rparr>) (task_table j)"
  unfolding move_task_table [OF assms(2)]
  using assms by (intro hm_modify_cong [of _ _ i]) (simp_all add: job_wf_def)

lemmas op_defs = set_running_state_def set_finished_state_def set_waiting_state_def
  set_failed_state_def set_cancel_state_def move_task_def bump_def Let_def

lemma set_finished_move:
  assumes "map_of (task_table j) t = Some i" "info_state i = Running w d"
  shows "set_finished_state now t j =
         Inr (check_termination now (move_task t (info_state i) (Finished w d now) j))"
  using assms by (simp add: get_task_state_table op_defs)

lemma set_failed_move:
  assumes "map_of (task_table j) t = Some i" "info_state i = Running w d"
  shows "set_failed_state now e t j =
         Inr (check_termination now (move_task t (info_state i) (Failed w d now e) j))"
  using assms by (simp add: get_task_state_table op_defs)

lemma set_waiting_move:
  assumes "map_of (task_table j) t = Some i" "info_state i = Running w d"
  shows "set_waiting_state t j = Inr (move_task t (info_state i) Waiting j)"
  using assms by (simp add: get_task_state_table op_defs)

lemma set_running_move:
  assumes "map_of (task_table j) t = Some i" "info_state i = Waiting"
  shows "set_running_state now w t j = Inr (move_task t (info_state i) (Running w now) j)"
  using assms by (simp add: get_task_state_table op_defs)

lemma set_cancel_move:
  assumes "map_of (task_table j) t = Some i" "non_finished (info_state i)"
  shows "set_cancel_state now t j =
         Inr (info_task_id i, check_termination now (move_task t (info_state i) Canceled j))"
  using assms by (cases "info_state i") (simp_all add: get_task_state_table op_defs)

text \<open>A transition followed by the check meets the contract whatever the new state is.\<close>

lemma move_check_contract:
  assumes "job_wf j" "map_of (task_table j) t = Some i" "non_finished (info_state i)"
    and "new = target (info_state i)"
  shows "job_wf (fst (check_termination now (move_task t (info_state i) new j)))"
    "same_config j (fst (check_termination now (move_task t (info_state i) new j)))"
    "task_table (fst (check_termination now (move_task t (info_state i) new j))) =
       hm_modify t (\<lambda>i. i\<lparr>info_state := target (info_state i)\<rparr>) (task_table j)"
  using move_check_wf [OF assms(1-3)] move_task_target [where target = target, OF assms(1,2,4)]
    same_config_trans [OF same_config_move same_config_check]
  by auto

interpretation finish: task_op "set_finished_state now" is_running "finish_target now"
  for now :: date
proof
  fix j :: "'a Job" and t i
  assume a: "job_wf j" "map_of (task_table j) t = Some i" "is_running (info_state i)"
  then obtain w d where s: "info_state i = Running w d" by (cases "info_state i") auto
  with move_check_contract [OF a(1,2), of "Finished w d now" "finish_target now" now]
  show "\<exists>j' out. set_finished_state now t j = Inr (j', out) \<and> job_wf j' \<and> same_config j j' \<and>
      task_table j' =
        hm_modify t (\<lambda>i. i\<lparr>info_state := finish_target now (info_state i)\<rparr>) (task_table j)"
    by (simp add: set_finished_move [OF a(2) s] prod_eq_iff)
next
  fix j :: "'a Job" and t i
  assume "map_of (task_table j) t = Some i" "\<not> is_running (info_state i)"
  then show "\<exists>p. set_finished_state now t j = Inl p"
    by (cases "info_state i") (simp_all add: get_task_state_table set_finished_state_def)
qed

interpretation failure: task_op "set_failed_state now err" is_running "fail_target now err"
  for now :: date and err :: string
proof
  fix j :: "'a Job" and t i
  assume a: "job_wf j" "map_of (task_table j) t = Some i" "is_running (info_state i)"
  then obtain w d where s: "info_state i = Running w d" by (cases "info_state i") auto
  with move_check_contract [OF a(1,2), of "Failed w d now err" "fail_target now err" now]
  show "\<exists>j' out. set_failed_state now err t j = Inr (j', out) \<and> job_wf j' \<and> same_config j j' \<and>
      task_table j' =
        hm_modify t (\<lambda>i. i\<lparr>info_state := fail_target now err (info_state i)\<rparr>) (task_table j)"
    by (simp add: set_failed_move [OF a(2) s] prod_eq_iff)
next
  fix j :: "'a Job" and t i
  assume "map_of (task_table j) t = Some i" "\<not> is_running (info_state i)"
  then show "\<exists>p. set_failed_state now err t j = Inl p"
    by (cases "info_state i") (simp_all add: get_task_state_table set_failed_state_def)
qed

interpretation waiting: task_op "\<lambda>t j. with_unit (set_waiting_state t j)" is_running "\<lambda>_. Waiting"
proof
  fix j :: "'a Job" and t i
  assume a: "job_wf j" "map_of (task_table j) t = Some i" "is_running (info_state i)"
  then obtain w d where s: "info_state i = Running w d" by (cases "info_state i") auto
  with move_open_wf [OF a(1,2), of Waiting] move_task_target [OF a(1,2), of Waiting "\<lambda>_. Waiting"]
  show "\<exists>j' out. with_unit (set_waiting_state t j) = Inr (j', out) \<and> job_wf j' \<and>
      same_config j j' \<and>
      task_table j' = hm_modify t (\<lambda>i. i\<lparr>info_state := Waiting\<rparr>) (task_table j)"
    by (auto simp: set_waiting_move [OF a(2) s] with_unit_def)
next
  fix j :: "'a Job" and t i
  assume "map_of (task_table j) t = Some i" "\<not> is_running (info_state i)"
  then show "\<exists>p. with_unit (set_waiting_state t j) = Inl p"
    by (cases "info_state i")
      (simp_all add: get_task_state_table set_waiting_state_def with_unit_def)
qed

interpretation running: task_op "\<lambda>t j. with_unit (set_running_state now w t j)" "\<lambda>_. True"
  "run_target now w"
  for now :: date and w :: WorkerId
proof
  fix j :: "'a Job" and t i
  assume a: "job_wf j" "map_of (task_table j) t = Some i"
  show "\<exists>j' out. with_unit (set_running_state now w t j) = Inr (j', out) \<and> job_wf j' \<and>
      same_config j j' \<and>
      task_table j' =
        hm_modify t (\<lambda>i. i\<lparr>info_state := run_target now w (info_state i)\<rparr>) (task_table j)"
  proof (cases "info_state i = Waiting")
    case True
    with move_open_wf [OF a, of "Running w now"]
      move_task_target [OF a, of "Running w now" "run_target now w"]
    show ?thesis
      by (auto simp: set_running_move [OF a(2) True] with_unit_def run_target_def)
  next
    case False
    then have "hm_modify t (\<lambda>i. i\<lparr>info_state := run_target now w (info_state i)\<rparr>) (task_table j) =
        task_table j"
      using a by (intro hm_modify_id [of _ _ i]) (simp_all add: run_target_def job_wf_def)
    with False a show ?thesis
      by (simp add: get_task_state_table set_running_state_def with_unit_def)
  qed
qed simp

interpretation cancel: task_op "\<lambda>t j. job_first (set_cancel_state now t j)" non_finished
  "\<lambda>_. Canceled"
  for now :: date
proof
  fix j :: "'a Job" and t i
  assume a: "job_wf j" "map_of (task_table j) t = Some i" "non_finished (info_state i)"
  with move_check_contract [OF a, of Canceled "\<lambda>_. Canceled" now]
  show "\<exists>j' out. job_first (set_cancel_state now t j) = Inr (j', out) \<and> job_wf j' \<and>
      same_config j j' \<and>
      task_table j' = hm_modify t (\<lambda>i. i\<lparr>info_state := Canceled\<rparr>) (task_table j)"
    by (simp add: set_cancel_move [OF a(2,3)] job_first_def case_prod_unfold)
next
  fix j :: "'a Job" and t i
  assume "map_of (task_table j) t = Some i" "\<not> non_finished (info_state i)"
  then show "\<exists>p. job_first (set_cancel_state now t j) = Inl p"
    by (cases "info_state i")
      (simp_all add: get_task_state_table set_cancel_state_def job_first_def)
qed

section \<open>New jobs\<close>

lemma collect_map_distinct:
  assumes "distinct (map fst xs)"
  shows "collect_map xs = xs"
proof -
  have "foldl (\<lambda>m (k, v). fst (hm_insert k v m)) m xs = m @ xs"
    if "distinct (map fst (m @ xs))" for m
    using that
  proof (induction xs arbitrary: m)
    case (Cons x xs)
    then have "AList.update (fst x) (snd x) m = m @ [x]"
      by (cases x) (auto simp: update_new)
    with Cons show ?case by (cases x) (simp add: hm_insert_def)
  qed simp
  from this [of "[]"] assms show ?thesis by (simp add: collect_map_def)
qed

text \<open>The identifiers the tasks of a new job get within the job.\<close>

definition new_task_ids :: "JobType \<Rightarrow> JobTaskId list outcome" where
  "new_task_ids jt =
     (case jt of
        Simple \<Rightarrow> Inr [0]
      | Array m \<Rightarrow> if id_count m = 1 then Inr [0] else IntArray_iter m)"

lemma unat_add_of_nat:
  assumes "unat (base :: u64) + n \<le> 2 ^ 64" "i < n"
  shows "unat (base + of_nat i) = unat base + i"
  using assms by (simp add: unat_word_ariths unat_of_nat take_bit_nat_eq_self)

lemma fst_initial_tasks:
  "map fst (initial_tasks base ids) = map (\<lambda>i. base + of_nat i) [0..<length ids]"
  by (rule nth_equalityI) (simp_all add: initial_tasks_def nth_enumerate_eq)

lemma length_initial_tasks [simp]: "length (initial_tasks base ids) = length ids"
  by (simp add: initial_tasks_def)

lemma unat_initial_tasks:
  assumes "unat base + length ids \<le> 2 ^ 64"
  shows "map unat (map fst (initial_tasks base ids)) = [unat base ..< unat base + length ids]"
proof (rule nth_equalityI)
  fix i assume "i < length (map unat (map fst (initial_tasks base ids)))"
  then show "map unat (map fst (initial_tasks base ids)) ! i =
      [unat base ..< unat base + length ids] ! i"
    using unat_add_of_nat [OF assms, of i] by (simp add: fst_initial_tasks)
qed simp

lemma initial_states:
  "map (\<lambda>x. info_state (snd x)) (initial_tasks base ids) = replicate (length ids) Waiting"
  by (rule nth_equalityI) (simp_all add: initial_tasks_def nth_enumerate_eq)

lemma counters_of_waiting: "counters_of (replicate n Waiting) = counters_default"
  by (simp add: counters_of_def counters_default_def count_if_def)

lemma Job_new_table:
  assumes "Job_new now jt jid base nm pd res pin mf entries prio tlim lg = Inr j"
    and "\<And>ids. new_task_ids jt = Inr ids \<Longrightarrow> unat base + length ids \<le> 2 ^ 64"
  obtains ids where "new_task_ids jt = Inr ids" "task_table j = initial_tasks base ids"
proof -
  from assms(1) obtain st where st: "new_job_state jt base = Inr st"
    and j: "job_state j = st" "base_task_id j = base"
    by (auto simp: Job_new_def elim: try_bind_InrE)
  have one: "task_table j = initial_tasks base [0]" if "st = SingleTask Waiting"
    using that j by (simp add: task_table_def initial_tasks_def)
  have many: "task_table j = initial_tasks base ids"
    if "st = ManyTasks (collect_map (initial_tasks base ids))" "new_task_ids jt = Inr ids" for ids
  proof -
    have "distinct (map unat (map fst (initial_tasks base ids)))"
      unfolding unat_initial_tasks [OF assms(2) [OF that(2)]] by simp
    then have "distinct (map fst (initial_tasks base ids))" unfolding distinct_map [of unat] by blast
    with that j show ?thesis by (simp add: task_table_def collect_map_distinct)
  qed
  show thesis
    using st one many that
    by (auto simp: new_job_state_def new_task_ids_def split: JobType.splits if_splits
        elim!: try_bind_InrE)
qed

lemma Job_new_wf:
  assumes "Job_new now jt jid base nm pd res pin mf entries prio tlim lg = Inr j"
    and "\<And>ids. new_task_ids jt = Inr ids \<Longrightarrow> unat base + length ids \<le> 2 ^ 64 \<and> length ids < 2 ^ 32"
  shows "job_wf j"
proof -
  obtain ids where ids: "new_task_ids jt = Inr ids" "task_table j = initial_tasks base ids"
    using Job_new_table [OF assms(1)] assms(2) by blast
  note b = assms(2) [OF ids(1)]
  have f: "job_counters j = counters_default" "base_task_id j = base" "job_completion_date j = None"
    using assms(1) by (auto simp: Job_new_def elim: try_bind_InrE)
  have st: "task_states j = replicate (length ids) Waiting"
    by (simp add: task_states_def ids initial_states)
  have u: "map unat (map fst (task_table j)) = [unat base ..< unat base + length ids]"
    using b ids unat_initial_tasks by simp
  then have "distinct (map unat (map fst (task_table j)))" by simp
  then have "distinct (map fst (task_table j))" unfolding distinct_map [of unat] by blast
  moreover have "unat ` fst ` set (task_table j) = {unat base ..< unat base + length ids}"
    using arg_cong [OF u, of set] by (simp add: image_image)
  ultimately show ?thesis
    using b ids(2) f st by (auto simp: job_wf_def counters_of_waiting)
qed

lemma only_one_left:
  assumes "distinct (map fst m)" "(t, i) \<in> set m" "P (info_state i)"
  shows "(\<forall>x \<in> set m. fst x \<noteq> t \<longrightarrow> \<not> P (info_state (snd x))) \<longleftrightarrow>
    map fst (filter (\<lambda>x. P (info_state (snd x))) m) = [t]"
  using assms
proof (induction m)
  case (Cons a m)
  show ?case
  proof (cases "a = (t, i)")
    case True
    then have "\<forall>x \<in> set m. fst x \<noteq> t" using Cons.prems(1) by force
    with True Cons.prems(3) show ?thesis by (auto simp: filter_empty_conv)
  next
    case False
    then have m: "(t, i) \<in> set m" using Cons.prems(2) by auto
    then have "t \<in> fst ` set m" by (rule image_eqI [rotated]) simp
    then have "fst a \<noteq> t" using Cons.prems(1) by auto
    moreover have "map fst (filter (\<lambda>x. P (info_state (snd x))) m) \<noteq> []"
      using m Cons.prems(3) by (force simp: filter_empty_conv)
    ultimately show ?thesis using Cons.IH m Cons.prems(1,3) by auto
  qed
qed simp

section \<open>The status of a job\<close>

definition status_of :: "JobTaskState list \<Rightarrow> Status" where
  "status_of ss =
     (if list_ex (\<lambda>s. task_status s = StRunning) ss then StRunning
      else if list_ex (\<lambda>s. task_status s = StWaiting) ss then StWaiting
      else if list_ex (\<lambda>s. task_status s = StCanceled) ss then StCanceled
      else if list_ex (\<lambda>s. task_status s = StFailed) ss then StFailed
      else StFinished)"

lemma job_status_states:
  assumes "job_wf j"
  shows "job_status (make_job_info j) = Inr (status_of (task_states j))"
proof -
  let ?ss = "task_states j"
  let ?n = "\<lambda>st. of_nat (count_if (\<lambda>s. task_status s = st) ?ss) :: u32"
  have l: "length ?ss < 2 ^ 32" using assms by (simp add: job_wf_def)
  have pos: "?n st > 0 \<longleftrightarrow> list_ex (\<lambda>s. task_status s = st) ?ss" for st
    using count_word_zero [OF l, of "\<lambda>s. task_status s = st"]
    by (auto simp: word_gt_0 list_ex_iff)
  have w: "n_waiting_tasks (job_counters j) (n_tasks j) = ?n StWaiting"
    using assms n_waiting_counters_of [of ?ss] by (simp add: job_wf_def n_tasks_table)
  have c: "job_counters j = counters_of ?ss" using assms by (simp add: job_wf_def)
  have fin: "?n StFinished = of_nat (length (task_table j))"
    if "\<not> ?n StRunning > 0" "\<not> ?n StWaiting > 0" "\<not> ?n StCanceled > 0" "\<not> ?n StFailed > 0"
  proof -
    have "?n StRunning = 0" "?n StWaiting = 0" "?n StCanceled = 0" "?n StFailed = 0"
      using that by (simp_all add: word_gt_0)
    then have "(of_nat (length ?ss) :: u32) = ?n StFinished"
      unfolding status_partition [of ?ss] by simp
    then show ?thesis by simp
  qed
  show ?thesis
    unfolding job_status_def make_job_info_def JobInfo.select_convs w Let_def
    unfolding c counters_of_def JobTaskCounters.select_convs n_tasks_table
    using fin unfolding pos status_of_def by simp
qed

section \<open>Properties\<close>


text \<open>Jobs for the examples: three tasks, the second of which runs.\<close>

definition example_program :: ProgramDefinition where
  "example_program = \<lparr>pd_args = [''sleep'', ''1''], pd_env = [], pd_stdout = Null,
     pd_stderr = Null, pd_cwd = None\<rparr>"

definition example_job :: "unit Job" where
  "example_job =
     \<lparr>job_id = 1, base_task_id = 10, job_max_fails = Some 0,
      job_counters = \<lparr>n_running_tasks = 1, n_finished_tasks = 0, n_failed_tasks = 0,
        n_canceled_tasks = 1\<rparr>,
      job_state = ManyTasks
        [(10, \<lparr>info_state = Waiting, info_task_id = 5\<rparr>),
         (11, \<lparr>info_state = Running 7 100, info_task_id = 6\<rparr>),
         (12, \<lparr>info_state = Canceled, info_task_id = 7\<rparr>)],
      job_log = Some ''log'', job_type = Array (from_range 5 3), job_name = ''test'',
      job_program_def = example_program, job_resources = (), job_pin = False,
      job_entries = None, job_priority = 0, job_time_limit = None,
      job_submission_date = 50, job_completion_date = None\<rparr>"

lemma example_job_wf: "job_wf example_job"
proof -
  have "{10 ..< 13} = {10, 11, 12 :: nat}" by auto
  then show ?thesis
    by (simp add: job_wf_def example_job_def task_table_def task_states_def counters_of_def)
qed


text \<open>
  Claim C25. The status shown for a job is that of its tasks: running if one runs, else waiting if one
  waits, else canceled, failed or finished in this order. The assertion in it never fails.
\<close>

theorem job_status_correct:
  assumes "job_wf j"
  shows "job_status (make_job_info j) = Inr (status_of (task_states j))"
  using assms by (rule job_status_states)

theorem job_status_correct_witness: "job_status (make_job_info example_job) = Inr StRunning"
  using job_status_correct [OF example_job_wf]
  by (simp add: status_of_def example_job_def task_states_def task_table_def)

text \<open>
  A new job has its waiting tasks under consecutive identifiers from its base and meets the
  invariant, when the identifiers and the number of tasks do not overflow.
\<close>

theorem Job_new_correct:
  assumes "new_task_ids jt = Inr ids" "unat base + length ids \<le> 2 ^ 64" "length ids < 2 ^ 32"
  shows "\<exists>j. Job_new now jt jid base nm pd res pin mf entries prio tlim lg = Inr j \<and> job_wf j \<and>
    task_table j = initial_tasks base ids \<and> is_terminated j = (ids = [])"
proof -
  obtain j where j: "Job_new now jt jid base nm pd res pin mf entries prio tlim lg = Inr j"
    using assms(1)
    by (auto simp: Job_new_def new_job_state_def new_task_ids_def
        split: JobType.splits if_splits)
  have wf: "job_wf j" and tab: "task_table j = initial_tasks base ids"
    using Job_new_wf [OF j] Job_new_table [OF j] assms by auto
  then have "task_states j = replicate (length ids) Waiting"
    by (simp add: task_states_def initial_states)
  then have "is_terminated j = (ids = [])" using job_wf_terminated [OF wf] by auto
  with j wf tab show ?thesis by blast
qed

theorem Job_new_correct_witness:
  "\<exists>j. Job_new 0 Simple 1 1 ''test'' example_program () False None None 0 None None = Inr j \<and>
    job_wf j \<and> task_table j = initial_tasks 1 [0] \<and> is_terminated j = False"
  using Job_new_correct [of Simple "[0]" 1] by (simp add: new_task_ids_def)

text \<open>
  Ending a running task: the task is recorded as finished on the same worker with its start date,
  no other task changes, the invariant is kept, and the job is completed, with the release of
  its log, exactly when no open task is left. A task that does not run makes the server panic.
\<close>

theorem set_finished_state_correct:
  assumes "job_wf j" "map_of (task_table j) t = Some i"
  shows "case info_state i of
      Running w d \<Rightarrow>
        (\<exists>j' ms. set_finished_state now t j = Inr (j', ms) \<and> job_wf j' \<and> same_config j j' \<and>
           map_of (task_table j') = (map_of (task_table j))(t \<mapsto> i\<lparr>info_state := Finished w d now\<rparr>) \<and>
           ms = (if non_finished_task_ids j' = [] \<and> job_log j \<noteq> None
                 then [UnregisterStream (job_id j)] else []) \<and>
           job_completion_date j' = (if non_finished_task_ids j' = [] then Some now else None))
    | _ \<Rightarrow> set_finished_state now t j = Inl Explicit_panic"
proof (cases "info_state i")
  case (Running w d)
  let ?k = "move_task t (info_state i) (Finished w d now) j"
  obtain j' ms where j': "set_finished_state now t j = Inr (j', ms)"
    and eq: "check_termination now ?k = (j', ms)"
    using set_finished_move [OF assms(2) Running] by force
  have own: "owns j t" using assms(2) owns_map_of by blast
  note r = finish.result [OF assms(1) own j']
  have trm: "is_terminated ?k = (non_finished_task_ids j' = [])"
  proof -
    have "is_terminated ?k = is_terminated j'"
      using is_terminated_check [of now ?k] eq by simp
    then show ?thesis
      unfolding job_wf_terminated [OF r(1)] non_finished_task_ids_table task_states_def
      by (auto simp: filter_empty_conv)
  qed
  have d: "job_completion_date j = None"
    using open_task_no_completion [OF assms] Running by simp
  have ms: "ms = (if non_finished_task_ids j' = [] \<and> job_log j \<noteq> None
      then [UnregisterStream (job_id j)] else [])"
    and cd: "job_completion_date j' = (if non_finished_task_ids j' = [] then Some now else None)"
    using eq trm d unfolding check_termination_def by (auto split: if_splits)
  show ?thesis
    using Running j' r(1,2) ms cd finish.one_task_changes [OF assms j'] by simp
qed (simp_all add: set_finished_state_def get_task_state_table [OF assms(2)])

theorem set_finished_state_correct_witness:
  "\<exists>j' ms. set_finished_state 200 11 example_job = Inr (j', ms) \<and> job_wf j' \<and> ms = []"
  using set_finished_state_correct [OF example_job_wf, of 11 "\<lparr>info_state = Running 7 100, info_task_id = 6\<rparr>" 200]
  by (simp add: example_job_def task_table_def set_finished_state_def get_task_state_def
      check_termination_def is_terminated_def n_waiting_tasks_def n_tasks_def put_task_state_def)

text \<open>
  Cancelling an open task marks it as canceled, returns its identifier within the job and keeps
  the invariant; the job is completed exactly when it was the last open task. A task that has
  ended makes the server panic.
\<close>

theorem set_cancel_state_correct:
  assumes "job_wf j" "map_of (task_table j) t = Some i"
  shows "if non_finished (info_state i)
    then \<exists>j' ms. set_cancel_state now t j = Inr (info_task_id i, j', ms) \<and> job_wf j' \<and>
      same_config j j' \<and>
      map_of (task_table j') = (map_of (task_table j))(t \<mapsto> i\<lparr>info_state := Canceled\<rparr>) \<and>
      (is_terminated j' \<longleftrightarrow> non_finished_task_ids j = [t])
    else set_cancel_state now t j = Inl Assert_failed"
proof (cases "non_finished (info_state i)")
  case True
  obtain j' ms where j': "set_cancel_state now t j = Inr (info_task_id i, j', ms)"
    using set_cancel_move [OF assms(2) True] by force
  then have op: "job_first (set_cancel_state now t j) = Inr (j', info_task_id i, ms)"
    by (simp add: job_first_def)
  have own: "owns j t" using assms(2) owns_map_of by blast
  note r = cancel.result [OF assms(1) own op]
  have dist: "distinct (map fst (task_table j))" using assms(1) by (simp add: job_wf_def)
  have tin: "(t, i) \<in> set (task_table j)" using assms(2) by (rule map_of_SomeD)
  have "is_terminated j' \<longleftrightarrow> (\<forall>x \<in> set (task_table j). fst x \<noteq> t \<longrightarrow> \<not> non_finished (info_state (snd x)))"
    unfolding job_wf_terminated [OF r(1)] task_states_def r(3) hm_modify_def
    by (auto split: if_splits)
  also have "\<dots> \<longleftrightarrow> non_finished_task_ids j = [t]"
    unfolding non_finished_task_ids_table by (rule only_one_left [OF dist tin, of non_finished, OF True])
  finally show ?thesis
    using True j' r(1,2) cancel.one_task_changes [OF assms op] by simp
next
  case False
  then show ?thesis
    by (cases "info_state i") (simp_all add: set_cancel_state_def get_task_state_table [OF assms(2)])
qed

theorem set_cancel_state_correct_witness:
  "\<exists>j' ms. set_cancel_state 200 10 example_job = Inr (5, j', ms) \<and> job_wf j' \<and> \<not> is_terminated j'"
  using set_cancel_state_correct [OF example_job_wf, of 10 "\<lparr>info_state = Waiting, info_task_id = 5\<rparr>" 200]
  by (auto simp: example_job_def task_table_def non_finished_task_ids_def iter_task_states_def)

end
