(* ===== verification/AutoAlloc.thy ===== *)
theory AutoAlloc
  imports Prelude "HOL-Library.Sublist"
begin

text \<open>
  Automatic allocation, \<^verbatim>\<open>src/src/server/autoalloc/\<close>: the queues, their allocations
  and events, and one tick of the background process. A queue is an implementation of the
  trait \<^verbatim>\<open>QueueDescriptor\<close>: a record of its four methods, which act on the state
  \<open>'q\<close> of the batch system. The clock reads that state too, so \<^verbatim>\<open>Instant::now()\<close>
  is \<open>clock q\<close> at the point of the call.
\<close>

section \<open>State\<close>

type_synonym DescriptorName = string
type_synonym AllocationId = string
type_synonym instant = int

datatype AutoAllocError = DescriptorAlreadyExists string | Custom string

type_synonym 'a AutoAllocResult = "AutoAllocError + 'a"

datatype AllocationStatus = AllocQueued instant | AllocRunning instant

record Allocation =
  alloc_id :: AllocationId
  worker_count :: u64
  alloc_status :: AllocationStatus

datatype AllocationEvent =
    QueueSuccess AllocationId
  | QueueFail AutoAllocError
  | StatusFail AutoAllocError
  | AllocFinished AllocationId

record AllocationEventHolder =
  event_date :: instant
  event :: AllocationEvent

record 'q QueueDescriptor =
  target_scale :: "'q \<Rightarrow> u64"
  max_workers_per_alloc :: "'q \<Rightarrow> u64"
  schedule_allocation :: "u64 \<Rightarrow> 'q \<Rightarrow> AllocationId AutoAllocResult \<times> 'q"
  get_allocation_status :: "AllocationId \<Rightarrow> 'q \<Rightarrow> AllocationStatus option AutoAllocResult \<times> 'q"

record 'q DescriptorState =
  descriptor :: "'q QueueDescriptor"
  allocations :: "Allocation list"
  events :: "AllocationEventHolder list"

record 'q AutoAllocState =
  refresh_interval :: nat
  descriptors :: "(DescriptorName, 'q DescriptorState) hmap"

definition MAX_EVENT_QUEUE_LENGTH :: nat where
  "MAX_EVENT_QUEUE_LENGTH = 20"

definition AutoAllocState_new :: "nat \<Rightarrow> 'q AutoAllocState" where
  "AutoAllocState_new interval = \<lparr>refresh_interval = interval, descriptors = []\<rparr>"

definition DescriptorState_from :: "'q QueueDescriptor \<Rightarrow> 'q DescriptorState" where
  "DescriptorState_from d = \<lparr>descriptor = d, allocations = [], events = []\<rparr>"

definition add_descriptor ::
  "DescriptorName \<Rightarrow> 'q QueueDescriptor \<Rightarrow> 'q AutoAllocState \<Rightarrow> 'q AutoAllocState AutoAllocResult" where
  "add_descriptor name d st =
     (if map_of (descriptors st) name \<noteq> None then Inl (DescriptorAlreadyExists name)
      else Inr (st\<lparr>descriptors := fst (hm_insert name (DescriptorState_from d) (descriptors st))\<rparr>))"

definition get_descriptor :: "'q AutoAllocState \<Rightarrow> DescriptorName \<Rightarrow> 'q DescriptorState option" where
  "get_descriptor st name = map_of (descriptors st) name"

definition modify_descriptor ::
  "DescriptorName \<Rightarrow> ('q DescriptorState \<Rightarrow> 'q DescriptorState) \<Rightarrow> 'q AutoAllocState \<Rightarrow> 'q AutoAllocState" where
  "modify_descriptor name f st = st\<lparr>descriptors := hm_modify name f (descriptors st)\<rparr>"

definition descriptor_names :: "'q AutoAllocState \<Rightarrow> DescriptorName list" where
  "descriptor_names st = map fst (descriptors st)"

definition add_event :: "instant \<Rightarrow> AllocationEvent \<Rightarrow> 'q DescriptorState \<Rightarrow> 'q DescriptorState" where
  "add_event now e d =
     (let es = events d @ [\<lparr>event_date = now, event = e\<rparr>]
      in d\<lparr>events := (if length es > MAX_EVENT_QUEUE_LENGTH then tl es else es)\<rparr>)"

definition push_allocation :: "Allocation \<Rightarrow> 'q DescriptorState \<Rightarrow> 'q DescriptorState" where
  "push_allocation a d = d\<lparr>allocations := allocations d @ [a]\<rparr>"

section \<open>One tick\<close>

text \<open>
  A result of a status query updates the queue: the allocation is kept with its new status,
  it has finished, or the query failed.
\<close>

fun apply_status ::
  "instant \<Rightarrow> Allocation \<Rightarrow> AllocationStatus option AutoAllocResult \<Rightarrow> 'q DescriptorState \<Rightarrow> 'q DescriptorState" where
  "apply_status now a (Inr (Some status)) d = push_allocation (a\<lparr>alloc_status := status\<rparr>) d"
| "apply_status now a (Inr None) d = add_event now (AllocFinished (alloc_id a)) d"
| "apply_status now a (Inl err) d = add_event now (StatusFail err) d"

fun refresh_loop ::
  "('q \<Rightarrow> instant) \<Rightarrow> DescriptorName \<Rightarrow> Allocation list \<Rightarrow> 'q AutoAllocState \<Rightarrow> 'q \<Rightarrow> 'q AutoAllocState \<times> 'q" where
  "refresh_loop clock name [] st q = (st, q)"
| "refresh_loop clock name (a # as) st q =
     (case get_descriptor st name of
        None \<Rightarrow> (st, q)
      | Some d \<Rightarrow>
          (case get_allocation_status (descriptor d) (alloc_id a) q of
             (result, q') \<Rightarrow>
               refresh_loop clock name as
                 (modify_descriptor name (apply_status (clock q') a result) st) q'))"

definition refresh_allocations ::
  "('q \<Rightarrow> instant) \<Rightarrow> DescriptorName \<Rightarrow> 'q AutoAllocState \<Rightarrow> 'q \<Rightarrow> 'q AutoAllocState \<times> 'q" where
  "refresh_allocations clock name st q =
     (case get_descriptor st name of
        None \<Rightarrow> (st, q)
      | Some d \<Rightarrow>
          refresh_loop clock name (allocations d)
            (modify_descriptor name (\<lambda>d. d\<lparr>allocations := []\<rparr>) st) q)"

fun apply_scheduled ::
  "instant \<Rightarrow> u64 \<Rightarrow> AllocationId AutoAllocResult \<Rightarrow> 'q DescriptorState \<Rightarrow> 'q DescriptorState" where
  "apply_scheduled now n (Inr i) d =
     push_allocation \<lparr>alloc_id = i, worker_count = n, alloc_status = AllocQueued now\<rparr>
       (add_event now (QueueSuccess i) d)"
| "apply_scheduled now n (Inl err) d = add_event now (QueueFail err) d"

text \<open>The loop of \<open>schedule_new_allocations\<close>; \<open>None\<close> means that it does not return.\<close>

partial_function (option) schedule_loop ::
  "('q \<Rightarrow> instant) \<Rightarrow> DescriptorName \<Rightarrow> u64 \<Rightarrow> u64 \<Rightarrow> 'q AutoAllocState \<Rightarrow> 'q \<Rightarrow>
   ('q AutoAllocState \<times> 'q) option" where
  "schedule_loop clock name remaining max_workers st q =
     (if remaining > 0 then
        (let to_schedule = min remaining max_workers
         in case get_descriptor st name of
              None \<Rightarrow> Some (st, q)
            | Some d \<Rightarrow>
                (case schedule_allocation (descriptor d) to_schedule q of
                   (result, q') \<Rightarrow>
                     schedule_loop clock name (remaining - to_schedule) max_workers
                       (modify_descriptor name (apply_scheduled (clock q') to_schedule result) st)
                       q'))
      else Some (st, q))"

definition saturating_sub :: "u64 \<Rightarrow> u64 \<Rightarrow> u64" where
  "saturating_sub a b = (if b \<le> a then a - b else 0)"

definition active_workers :: "'q DescriptorState \<Rightarrow> u64" where
  "active_workers d = sum_list (map worker_count (allocations d))"

definition schedule_new_allocations ::
  "('q \<Rightarrow> instant) \<Rightarrow> DescriptorName \<Rightarrow> 'q AutoAllocState \<Rightarrow> 'q \<Rightarrow> ('q AutoAllocState \<times> 'q) option" where
  "schedule_new_allocations clock name st q =
     (case get_descriptor st name of
        None \<Rightarrow> Some (st, q)
      | Some d \<Rightarrow>
          schedule_loop clock name
            (saturating_sub (target_scale (descriptor d) q) (active_workers d))
            (max_workers_per_alloc (descriptor d) q) st q)"

definition process_descriptor ::
  "('q \<Rightarrow> instant) \<Rightarrow> DescriptorName \<Rightarrow> 'q AutoAllocState \<Rightarrow> 'q \<Rightarrow> ('q AutoAllocState \<times> 'q) option" where
  "process_descriptor clock name st q =
     (case refresh_allocations clock name st q of
        (st', q') \<Rightarrow> schedule_new_allocations clock name st' q')"

fun process_descriptors ::
  "('q \<Rightarrow> instant) \<Rightarrow> DescriptorName list \<Rightarrow> 'q AutoAllocState \<Rightarrow> 'q \<Rightarrow> ('q AutoAllocState \<times> 'q) option" where
  "process_descriptors clock [] st q = Some (st, q)"
| "process_descriptors clock (n # ns) st q =
     (case process_descriptor clock n st q of
        None \<Rightarrow> None
      | Some (st', q') \<Rightarrow> process_descriptors clock ns st' q')"

definition autoalloc_tick ::
  "('q \<Rightarrow> instant) \<Rightarrow> 'q AutoAllocState \<Rightarrow> 'q \<Rightarrow> ('q AutoAllocState \<times> 'q) option" where
  "autoalloc_tick clock st q = process_descriptors clock (descriptor_names st) st q"

section \<open>Facts on single steps\<close>

lemma get_modify_descriptor [simp]:
  "get_descriptor (modify_descriptor n f st) n' =
     (if n' = n then map_option f (get_descriptor st n) else get_descriptor st n')"
  by (simp add: get_descriptor_def modify_descriptor_def map_of_hm_modify)

lemma descriptor_names_modify [simp]:
  "descriptor_names (modify_descriptor n f st) = descriptor_names st"
  by (simp add: descriptor_names_def modify_descriptor_def)

lemma add_event_fields [simp]:
  "descriptor (add_event now e d) = descriptor d"
  "allocations (add_event now e d) = allocations d"
  by (simp_all add: add_event_def Let_def)

lemma push_allocation_fields [simp]:
  "descriptor (push_allocation a d) = descriptor d"
  "allocations (push_allocation a d) = allocations d @ [a]"
  "events (push_allocation a d) = events d"
  by (simp_all add: push_allocation_def)

lemma descriptor_apply [simp]:
  "descriptor (apply_status now a r d) = descriptor d"
  "descriptor (apply_scheduled now n r' d) = descriptor d"
proof -
  show "descriptor (apply_status now a r d) = descriptor d"
    by (cases r; cases "projr r") auto
  show "descriptor (apply_scheduled now n r' d) = descriptor d"
    by (cases r') auto
qed

lemma events_bounded_add_event:
  assumes "length (events d) \<le> MAX_EVENT_QUEUE_LENGTH"
  shows "length (events (add_event now e d)) \<le> MAX_EVENT_QUEUE_LENGTH"
  using assms by (simp add: add_event_def Let_def)

section \<open>Workers of a queue\<close>

definition total_workers :: "Allocation list \<Rightarrow> nat" where
  "total_workers as = sum_list (map (\<lambda>a. unat (worker_count a)) as)"

lemma total_workers_simps [simp]:
  "total_workers [] = 0"
  "total_workers (a # as) = unat (worker_count a) + total_workers as"
  "total_workers (as @ bs) = total_workers as + total_workers bs"
  by (simp_all add: total_workers_def)

lemma unat_active_workers:
  assumes "total_workers (allocations d) < 2 ^ 64"
  shows "unat (active_workers d) = total_workers (allocations d)"
proof -
  have "unat (sum_list (map worker_count as)) = total_workers as"
    if "total_workers as < 2 ^ 64" for as
    using that by (induction as) (simp_all add: unat_word_ariths)
  with assms show ?thesis by (simp add: active_workers_def)
qed

lemma unat_saturating_sub: "unat (saturating_sub a b) = unat a - unat b"
  by (simp add: saturating_sub_def unat_sub word_le_nat_alt)

section \<open>The refresh\<close>

text \<open>
  Every result of the refresh is explained by a list of answers of the batch system, one per
  allocation in order: the queue keeps the allocations that were answered with a status.
\<close>

fun kept :: "Allocation \<Rightarrow> AllocationStatus option AutoAllocResult \<Rightarrow> Allocation list" where
  "kept a (Inr (Some s)) = [a\<lparr>alloc_status := s\<rparr>]"
| "kept a _ = []"

fun status_answers ::
  "'q QueueDescriptor \<Rightarrow> Allocation list \<Rightarrow> 'q \<Rightarrow> AllocationStatus option AutoAllocResult list \<times> 'q" where
  "status_answers d [] q = ([], q)"
| "status_answers d (a # as) q =
     (case get_allocation_status d (alloc_id a) q of
        (r, q') \<Rightarrow> (case status_answers d as q' of (rs, q'') \<Rightarrow> (r # rs, q'')))"

lemma allocations_apply_status:
  "allocations (apply_status now a r d) = allocations d @ kept a r"
  by (cases r; cases "projr r") auto

lemma refresh_loop_get:
  assumes "get_descriptor st name = Some d"
  shows "\<exists>d'. get_descriptor (fst (refresh_loop clock name as st q)) name = Some d' \<and>
     descriptor d' = descriptor d \<and>
     snd (refresh_loop clock name as st q) = snd (status_answers (descriptor d) as q) \<and>
     allocations d' = allocations d @
       concat (map2 kept as (fst (status_answers (descriptor d) as q)))"
  using assms
proof (induction as arbitrary: st q d)
  case (Cons a as)
  obtain r q' where r: "get_allocation_status (descriptor d) (alloc_id a) q = (r, q')" by force
  obtain rs q'' where rs: "status_answers (descriptor d) as q' = (rs, q'')" by force
  let ?st = "modify_descriptor name (apply_status (clock q') a r) st"
  have "get_descriptor ?st name = Some (apply_status (clock q') a r d)"
    using Cons.prems by simp
  from Cons.IH [OF this, of q'] show ?case
    using Cons.prems by (simp add: r rs allocations_apply_status)
qed simp

lemma kept_le: "total_workers (kept a r) \<le> unat (worker_count a)"
  by (cases "(a, r)" rule: kept.cases) auto

lemma total_kept_le: "total_workers (concat (map2 kept as rs)) \<le> total_workers as"
proof (induction as arbitrary: rs)
  case (Cons a as)
  show ?case
  proof (cases rs)
    case (Cons r rs')
    then show ?thesis using Cons.IH [of rs'] kept_le [of a r] by simp
  qed simp
qed simp

section \<open>The scheduling loop\<close>

text \<open>The sizes of the requests: full allocations and one for the rest.\<close>

definition request_sizes :: "u64 \<Rightarrow> u64 \<Rightarrow> u64 list" where
  "request_sizes r m =
     replicate (unat r div unat m) m @ (if r mod m = 0 then [] else [r mod m])"

fun queued :: "u64 \<Rightarrow> AllocationId AutoAllocResult \<Rightarrow> (AllocationId \<times> u64) list" where
  "queued n (Inr i) = [(i, n)]"
| "queued n (Inl _) = []"

fun schedule_answers ::
  "'q QueueDescriptor \<Rightarrow> u64 list \<Rightarrow> 'q \<Rightarrow> AllocationId AutoAllocResult list \<times> 'q" where
  "schedule_answers d [] q = ([], q)"
| "schedule_answers d (n # ns) q =
     (case schedule_allocation d n q of
        (r, q') \<Rightarrow> (case schedule_answers d ns q' of (rs, q'') \<Rightarrow> (r # rs, q'')))"

definition alloc_key :: "Allocation \<Rightarrow> AllocationId \<times> u64" where
  "alloc_key a = (alloc_id a, worker_count a)"

lemma request_sizes_step:
  assumes "0 < m" "0 < r"
  shows "request_sizes r m = min r m # request_sizes (r - min r m) m"
proof (cases "r < m")
  case True
  then have "unat r < unat m" by (simp add: word_less_nat_alt)
  moreover have "r mod m = r" using True by (rule mod_word_less)
  ultimately show ?thesis using True assms(2) by (simp add: request_sizes_def)
next
  case False
  have m: "0 < unat m" using assms(1) by (simp add: word_less_nat_alt)
  have le: "unat m \<le> unat r" using False by (simp add: word_less_nat_alt)
  have u: "unat (r - m) = unat r - unat m"
    using False by (simp add: unat_sub not_less)
  have "(r - m) mod m = r mod m"
  proof (rule word_unat_eq_iff [THEN iffD2])
    show "unat ((r - m) mod m) = unat (r mod m)"
      using le by (simp add: unat_mod u le_mod_geq)
  qed
  moreover have "unat r div unat m = Suc (unat (r - m) div unat m)"
    using m le by (simp add: u le_div_geq)
  ultimately show ?thesis using False by (simp add: request_sizes_def min_def)
qed

lemma request_sizes_zero [simp]: "request_sizes 0 m = []"
  by (simp add: request_sizes_def)

lemma allocations_apply_scheduled:
  "\<exists>new. allocations (apply_scheduled now n r d) = allocations d @ new \<and>
         map alloc_key new = queued n r"
  by (cases r) (auto simp: alloc_key_def)

lemma schedule_loop_get:
  assumes "0 < m" "get_descriptor st name = Some d"
  shows "\<exists>st' d' new. schedule_loop clock name r m st q =
       Some (st', snd (schedule_answers (descriptor d) (request_sizes r m) q)) \<and>
     get_descriptor st' name = Some d' \<and> descriptor d' = descriptor d \<and>
     allocations d' = allocations d @ new \<and>
     map alloc_key new = concat (map2 queued (request_sizes r m)
       (fst (schedule_answers (descriptor d) (request_sizes r m) q)))"
  using assms(2)
proof (induction "unat r" arbitrary: r st q d rule: less_induct)
  case less
  show ?case
  proof (cases "0 < r")
    case False
    then have "r = 0" by (simp add: word_gt_0)
    then show ?thesis using less.prems by (simp add: schedule_loop.simps)
  next
    case True
    let ?n = "min r m"
    have n: "0 < ?n" "?n \<le> r" using True assms(1) by simp_all
    then have "unat (r - ?n) < unat r"
      by (simp add: unat_sub word_less_nat_alt word_le_nat_alt)
    note IH = less.hyps [OF this]
    obtain a q' where a: "schedule_allocation (descriptor d) ?n q = (a, q')" by force
    let ?d = "apply_scheduled (clock q') ?n a d"
    let ?st = "modify_descriptor name (apply_scheduled (clock q') ?n a) st"
    have "get_descriptor ?st name = Some ?d" using less.prems by simp
    from IH [OF this, of q'] obtain st' d' new where new:
      "schedule_loop clock name (r - ?n) m ?st q' =
         Some (st', snd (schedule_answers (descriptor d) (request_sizes (r - ?n) m) q'))"
      "get_descriptor st' name = Some d'" "descriptor d' = descriptor d"
      "allocations d' = allocations ?d @ new"
      "map alloc_key new = concat (map2 queued (request_sizes (r - ?n) m)
         (fst (schedule_answers (descriptor d) (request_sizes (r - ?n) m) q')))"
      by auto
    obtain new0 where new0: "allocations ?d = allocations d @ new0" "map alloc_key new0 = queued ?n a"
      using allocations_apply_scheduled by blast
    have "schedule_loop clock name r m st q =
        Some (st', snd (schedule_answers (descriptor d) (request_sizes (r - ?n) m) q'))"
      using True less.prems new(1) by (simp add: schedule_loop.simps [of _ _ r] a Let_def)
    then show ?thesis
      using new(2-5) new0 request_sizes_step [OF assms(1) True]
      by (auto simp: a case_prod_unfold intro!: exI [of _ "new0 @ new"])
  qed
qed

text \<open>Without workers per allocation the loop makes the same request for ever.\<close>

lemma schedule_loop_returns:
  assumes "schedule_loop clock name r m st q = Some y"
  shows "m = 0 \<longrightarrow> 0 < r \<longrightarrow> get_descriptor st name = None"
proof (rule schedule_loop.raw_induct [OF _ assms])
  fix f and clock :: "'a \<Rightarrow> instant" and name r m and st :: "'a AutoAllocState" and q y
  assume IH: "\<And>clock name r m st q y. f clock name r m st q = Some y \<Longrightarrow>
      m = 0 \<longrightarrow> 0 < r \<longrightarrow> get_descriptor st name = None"
    and eq: "(if 0 < r
       then let to_schedule = min r m in
         case get_descriptor st name of None \<Rightarrow> Some (st, q)
         | Some d \<Rightarrow> (case schedule_allocation (descriptor d) to_schedule q of
             (result, q') \<Rightarrow> f clock name (r - to_schedule) m
               (modify_descriptor name (apply_scheduled (clock q') to_schedule result) st) q')
       else Some (st, q)) = Some y"
  show "m = 0 \<longrightarrow> 0 < r \<longrightarrow> get_descriptor st name = None"
  proof (intro impI, rule ccontr)
    assume z: "m = 0" "0 < r" "get_descriptor st name \<noteq> None"
    then obtain d where d: "get_descriptor st name = Some d" by blast
    obtain result q' where a: "schedule_allocation (descriptor d) 0 q = (result, q')" by force
    have "f clock name r 0 (modify_descriptor name (apply_scheduled (clock q') 0 result) st) q' = Some y"
      using eq z(1,2) by (simp add: d a Let_def)
    from IH [OF this] z(2) d show False by simp
  qed
qed

lemma schedule_loop_diverges:
  assumes "0 < r" "get_descriptor st name \<noteq> None"
  shows "schedule_loop clock name r 0 st q = None"
  using schedule_loop_returns [of clock name r 0 st q] assms by (metis not_None_eq)

lemma sum_request_sizes:
  assumes "0 < m"
  shows "sum_list (map unat (request_sizes r m)) = unat r"
proof -
  have "sum_list (map unat (request_sizes r m)) = unat r div unat m * unat m + unat (r mod m)"
    by (simp add: request_sizes_def sum_list_replicate)
  then show ?thesis by (simp add: unat_mod)
qed

lemma request_sizes_bound:
  assumes "0 < m" "x \<in> set (request_sizes r m)"
  shows "0 < x \<and> x \<le> m"
proof -
  have "r mod m < m" using assms(1) by (rule word_mod_less_divisor)
  with assms show ?thesis by (auto simp: request_sizes_def word_gt_0 split: if_splits)
qed

lemma total_workers_keys: "total_workers as = sum_list (map (\<lambda>k. unat (snd k)) (map alloc_key as))"
  by (simp add: total_workers_def alloc_key_def comp_def)

lemma length_schedule_answers: "length (fst (schedule_answers d ns q)) = length ns"
  by (induction ns arbitrary: q) (auto split: prod.splits, metis fst_conv)

lemma queued_total_le:
  "sum_list (map (\<lambda>k. unat (snd k)) (concat (map2 queued ns rs))) \<le> sum_list (map unat ns)"
proof (induction ns arbitrary: rs)
  case (Cons n ns)
  show ?case
  proof (cases rs)
    case (Cons r rs')
    then show ?thesis using Cons.IH [of rs'] by (cases r) (simp_all add: add.commute le_SucI trans_le_add1)
  qed simp
qed simp

lemma queued_mem:
  assumes "(i, n) \<in> set (concat (map2 queued ns rs))"
  shows "n \<in> set ns"
proof -
  obtain n' r where r: "(n', r) \<in> set (zip ns rs)" "(i, n) \<in> set (queued n' r)"
    using assms by auto
  then have "n = n'" by (cases r) auto
  with r(1) show ?thesis by (auto dest: set_zip_leftD)
qed

lemma queued_all:
  assumes "\<And>r. r \<in> set rs \<Longrightarrow> \<exists>i. r = Inr i" "length rs = length ns"
  shows "map snd (concat (map2 queued ns rs)) = ns"
  using assms
proof (induction ns arbitrary: rs)
  case (Cons n ns)
  then obtain r rs' where rs: "rs = r # rs'" by (cases rs) auto
  with Cons.prems obtain i where "r = Inr i" by force
  with Cons rs show ?case by auto
qed simp

lemma schedule_answers_ok:
  assumes "\<forall>n q. \<exists>i q'. schedule_allocation D n q = (Inr i, q')"
    and "r \<in> set (fst (schedule_answers D ns q))"
  shows "\<exists>i. r = Inr i"
  using assms(2)
proof (induction ns arbitrary: q)
  case (Cons n ns)
  obtain i q' where "schedule_allocation D n q = (Inr i, q')" using assms(1) by blast
  with Cons show ?case by (auto simp: case_prod_unfold)
qed simp

lemma kept_all:
  assumes "\<And>i q. \<exists>s q'. get_allocation_status D i q = (Inr (Some s), q')"
  shows "map alloc_key (concat (map2 kept as (fst (status_answers D as q)))) = map alloc_key as"
proof (induction as arbitrary: q)
  case (Cons a as)
  obtain s q' where "get_allocation_status D (alloc_id a) q = (Inr (Some s), q')"
    using assms by blast
  with Cons [of q'] show ?case by (simp add: case_prod_unfold alloc_key_def)
qed simp

lemma kept_none:
  assumes "\<forall>i q. \<exists>e q'. get_allocation_status D i q = (Inl e, q')"
  shows "concat (map2 kept as (fst (status_answers D as q))) = []"
proof (induction as arbitrary: q)
  case (Cons a as)
  obtain e q' where "get_allocation_status D (alloc_id a) q = (Inl e, q')"
    using assms by blast
  with Cons [of q'] show ?case by (simp add: case_prod_unfold)
qed simp

lemma total_workers_cong: "map alloc_key as = map alloc_key bs \<Longrightarrow> total_workers as = total_workers bs"
  by (simp add: total_workers_keys)

section \<open>The processing of one queue\<close>

text \<open>
  The whole of \<open>process_descriptor\<close> in one statement: the answers to the status queries decide
  what is kept, the missing workers are requested in the sizes above, the requests that succeed
  are added.
\<close>

lemma process_descriptor_get:
  assumes "get_descriptor st name = Some d"
    and "kp = concat (map2 kept (allocations d) (fst (status_answers (descriptor d) (allocations d) q)))"
    and "q1 = snd (status_answers (descriptor d) (allocations d) q)"
    and "0 < max_workers_per_alloc (descriptor d) q1"
    and "total_workers (allocations d) < 2 ^ 64"
  shows "\<exists>st' d' r new. process_descriptor clock name st q =
       Some (st', snd (schedule_answers (descriptor d)
                   (request_sizes r (max_workers_per_alloc (descriptor d) q1)) q1)) \<and>
     unat r = unat (target_scale (descriptor d) q1) - total_workers kp \<and>
     get_descriptor st' name = Some d' \<and> descriptor d' = descriptor d \<and>
     allocations d' = kp @ new \<and>
     map alloc_key new =
       concat (map2 queued (request_sizes r (max_workers_per_alloc (descriptor d) q1))
         (fst (schedule_answers (descriptor d)
            (request_sizes r (max_workers_per_alloc (descriptor d) q1)) q1)))"
proof -
  let ?st0 = "modify_descriptor name (\<lambda>d. d\<lparr>allocations := []\<rparr>) st"
  have "get_descriptor ?st0 name = Some (d\<lparr>allocations := []\<rparr>)" using assms(1) by simp
  from refresh_loop_get [OF this, of clock "allocations d" q] obtain st1 d1 where
    st1: "refresh_allocations clock name st q = (st1, q1)"
      "get_descriptor st1 name = Some d1" "descriptor d1 = descriptor d" "allocations d1 = kp"
    using assms(1-3) by (auto simp: refresh_allocations_def prod_eq_iff)
  define r where "r = saturating_sub (target_scale (descriptor d) q1) (active_workers d1)"
  have "total_workers kp < 2 ^ 64"
    using total_kept_le assms(2,5) le_less_trans by blast
  then have r: "unat r = unat (target_scale (descriptor d) q1) - total_workers kp"
    by (simp add: r_def unat_saturating_sub unat_active_workers st1(4))
  from schedule_loop_get [OF assms(4) st1(2), of clock r q1] st1 r
  show ?thesis
    by (auto simp: process_descriptor_def schedule_new_allocations_def r_def)
qed

section \<open>Invariants of queues over a tick\<close>

text \<open>
  A predicate on queues that the three updates of a tick keep holds of all queues after the
  tick.
\<close>

locale queue_invariant =
  fixes I :: "'q DescriptorState \<Rightarrow> bool"
  assumes I_status: "I d \<Longrightarrow> I (apply_status now a r d)"
    and I_scheduled: "I d \<Longrightarrow> I (apply_scheduled now n r' d)"
    and I_taken: "I d \<Longrightarrow> I (d\<lparr>allocations := []\<rparr>)"
begin

definition all_queues :: "'q AutoAllocState \<Rightarrow> bool" where
  "all_queues st \<longleftrightarrow> (\<forall>n d. get_descriptor st n = Some d \<longrightarrow> I d)"

lemma all_queues_modify:
  assumes "all_queues st" "\<And>d. I d \<Longrightarrow> I (f d)"
  shows "all_queues (modify_descriptor n f st)"
  using assms by (auto simp: all_queues_def split: if_splits)

lemma refresh_loop_inv:
  assumes "all_queues st"
  shows "all_queues (fst (refresh_loop clock name as st q))"
  using assms
  by (induction as arbitrary: st q)
    (auto simp: all_queues_modify I_status split: option.splits prod.splits)

lemma refresh_inv:
  assumes "all_queues st"
  shows "all_queues (fst (refresh_allocations clock name st q))"
  using assms
  by (auto simp: refresh_allocations_def all_queues_modify I_taken refresh_loop_inv
      split: option.splits)

lemma schedule_loop_inv:
  assumes "schedule_loop clock name r m st q = Some y"
  shows "all_queues st \<longrightarrow> all_queues (fst y)"
proof (rule schedule_loop.raw_induct [OF _ assms])
  fix f and clock :: "'q \<Rightarrow> instant" and name r m and st :: "'q AutoAllocState" and q y
  assume IH: "\<And>clock name r m st q y. f clock name r m st q = Some y \<Longrightarrow>
      all_queues st \<longrightarrow> all_queues (fst y)"
    and eq: "(if 0 < r
       then let to_schedule = min r m in
         case get_descriptor st name of None \<Rightarrow> Some (st, q)
         | Some d \<Rightarrow> (case schedule_allocation (descriptor d) to_schedule q of
             (result, q') \<Rightarrow> f clock name (r - to_schedule) m
               (modify_descriptor name (apply_scheduled (clock q') to_schedule result) st) q')
       else Some (st, q)) = Some y"
  show "all_queues st \<longrightarrow> all_queues (fst y)"
  proof
    assume a: "all_queues st"
    have m: "all_queues (modify_descriptor name (apply_scheduled now n res) st)" for now n res
      using a all_queues_modify I_scheduled by blast
    show "all_queues (fst y)"
      using eq a IH m by (auto simp: Let_def split: if_splits option.splits prod.splits)
  qed
qed

lemma process_descriptors_inv:
  assumes "all_queues st" "process_descriptors clock ns st q = Some (st', q')"
  shows "all_queues st'"
  using assms
proof (induction ns arbitrary: st q)
  case (Cons n ns)
  obtain st1 q1 where r: "refresh_allocations clock n st q = (st1, q1)" by force
  from Cons.prems(2) obtain st2 q2 where
    s: "schedule_new_allocations clock n st1 q1 = Some (st2, q2)"
      "process_descriptors clock ns st2 q2 = Some (st', q')"
    by (auto simp: process_descriptor_def r split: option.splits)
  have "all_queues st1" using refresh_inv [OF Cons.prems(1), of clock n q] r by simp
  with s(1) have "all_queues st2"
    by (auto simp: schedule_new_allocations_def dest: schedule_loop_inv split: option.splits)
  from Cons.IH [OF this s(2)] show ?case .
qed simp

lemma tick_inv:
  assumes "all_queues st" "autoalloc_tick clock st q = Some (st', q')"
  shows "all_queues st'"
  using assms process_descriptors_inv by (simp add: autoalloc_tick_def)

end

definition events_bounded :: "'q DescriptorState \<Rightarrow> bool" where
  "events_bounded d \<longleftrightarrow> length (events d) \<le> MAX_EVENT_QUEUE_LENGTH"

definition can_allocate :: "'q DescriptorState \<Rightarrow> bool" where
  "can_allocate d \<longleftrightarrow> (\<forall>q. 0 < max_workers_per_alloc (descriptor d) q)"

interpretation event_queue: queue_invariant events_bounded
proof
  fix d :: "'a DescriptorState" and now a r n r'
  assume d: "events_bounded d"
  then have e: "\<And>x. length (events (add_event now x d)) \<le> MAX_EVENT_QUEUE_LENGTH"
    by (simp add: events_bounded_def events_bounded_add_event)
  show "events_bounded (apply_status now a r d)"
    using d e by (cases "(now, a, r, d)" rule: apply_status.cases) (auto simp: events_bounded_def)
  show "events_bounded (apply_scheduled now n r' d)"
    using e by (cases r') (auto simp: events_bounded_def)
  show "events_bounded (d\<lparr>allocations := []\<rparr>)" using d by (simp add: events_bounded_def)
qed

interpretation capacity: queue_invariant can_allocate
  by unfold_locales (simp_all add: can_allocate_def)

section \<open>Properties\<close>

lemma process_descriptors_returns:
  assumes "capacity.all_queues st"
  shows "process_descriptors clock ns st q \<noteq> None"
  using assms
proof (induction ns arbitrary: st q)
  case (Cons n ns)
  obtain st1 q1 where r: "refresh_allocations clock n st q = (st1, q1)" by force
  have st1: "capacity.all_queues st1"
    using capacity.refresh_inv [OF Cons.prems, of clock n q] r by simp
  have "\<exists>y. schedule_new_allocations clock n st1 q1 = Some y"
  proof (cases "get_descriptor st1 n")
    case (Some d)
    with st1 have "0 < max_workers_per_alloc (descriptor d) q1"
      by (auto simp: capacity.all_queues_def can_allocate_def)
    from schedule_loop_get [OF this Some] Some show ?thesis
      by (simp add: schedule_new_allocations_def) blast
  qed (simp add: schedule_new_allocations_def)
  then obtain st2 q2 where s: "schedule_new_allocations clock n st1 q1 = Some (st2, q2)" by force
  have "process_descriptors clock [n] st q = Some (st2, q2)"
    by (simp add: process_descriptor_def r s)
  from Cons.IH [OF capacity.process_descriptors_inv [OF Cons.prems this]] show ?case
    by (simp add: process_descriptor_def r s)
qed simp

text \<open>
  A queue for the examples: it wants ten workers, three at most per allocation. The state of
  the batch system counts the allocations made.
\<close>

definition example_queue :: "nat QueueDescriptor" where
  "example_queue =
     \<lparr>target_scale = (\<lambda>_. 10), max_workers_per_alloc = (\<lambda>_. 3),
      schedule_allocation = (\<lambda>n q. (Inr (show_nat q), q + 1)),
      get_allocation_status = (\<lambda>i q. (Inr (Some (AllocQueued 0)), q))\<rparr>"

definition example_state :: "nat AutoAllocState" where
  "example_state =
     \<lparr>refresh_interval = 1, descriptors = [(''foo'', DescriptorState_from example_queue)]\<rparr>"

lemma example_get: "get_descriptor example_state ''foo'' = Some (DescriptorState_from example_queue)"
  by (simp add: get_descriptor_def example_state_def)

text \<open>
  Claim C30. A tick of the automatic allocation always returns when every queue allows at least one
  worker per allocation, whatever the batch system answers.
\<close>

theorem autoalloc_tick_returns:
  assumes "\<forall>n d q. get_descriptor st n = Some d \<longrightarrow> 0 < max_workers_per_alloc (descriptor d) q"
  shows "\<exists>st' q'. autoalloc_tick clock st q = Some (st', q')"
proof -
  have "capacity.all_queues st"
    using assms by (auto simp: capacity.all_queues_def can_allocate_def)
  from process_descriptors_returns [OF this, of clock "descriptor_names st" q]
  show ?thesis by (auto simp: autoalloc_tick_def)
qed

theorem autoalloc_tick_returns_witness:
  "\<exists>st' q'. autoalloc_tick (\<lambda>_. 0) example_state 0 = Some (st', q')"
  by (rule autoalloc_tick_returns)
    (simp add: get_descriptor_def example_state_def example_queue_def DescriptorState_from_def)

text \<open>
  Claim C31. Processing a queue never raises the number of its workers above the larger of the target scale
  and what it had, each request is for between one and \<open>max_workers_per_alloc\<close> workers, and
  when every request succeeds the target is reached, and reached exactly if it was missed.
\<close>

theorem process_descriptor_scale:
  assumes "get_descriptor st name = Some d"
    and "0 < m \<and> (\<forall>q. max_workers_per_alloc (descriptor d) q = m)"
    and "\<forall>q. target_scale (descriptor d) q = target"
    and "total_workers (allocations d) < 2 ^ 64"
  shows "\<exists>st' q' d' kp new. process_descriptor clock name st q = Some (st', q') \<and>
    get_descriptor st' name = Some d' \<and> allocations d' = kp @ new \<and>
    total_workers kp \<le> total_workers (allocations d) \<and>
    total_workers (allocations d') \<le> max (unat target) (total_workers (allocations d)) \<and>
    (\<forall>a \<in> set new. 0 < worker_count a \<and> worker_count a \<le> m) \<and>
    ((\<forall>n q. \<exists>i q'. schedule_allocation (descriptor d) n q = (Inr i, q')) \<longrightarrow>
       total_workers (allocations d') = max (unat target) (total_workers kp))"
proof -
  let ?D = "descriptor d"
  define kp where
    "kp = concat (map2 kept (allocations d) (fst (status_answers ?D (allocations d) q)))"
  define q1 where "q1 = snd (status_answers ?D (allocations d) q)"
  have m: "0 < m" "\<And>q. max_workers_per_alloc ?D q = m" using assms(2) by auto
  obtain st' d' r new where step:
    "process_descriptor clock name st q = Some (st', snd (schedule_answers ?D (request_sizes r m) q1))"
    "unat r = unat target - total_workers kp" "get_descriptor st' name = Some d'"
    "allocations d' = kp @ new"
    "map alloc_key new =
       concat (map2 queued (request_sizes r m) (fst (schedule_answers ?D (request_sizes r m) q1)))"
    using process_descriptor_get [where clock = clock, OF assms(1) kp_def q1_def _ assms(4)] m assms(3) by auto
  let ?ans = "fst (schedule_answers ?D (request_sizes r m) q1)"
  have kp: "total_workers kp \<le> total_workers (allocations d)"
    unfolding kp_def by (rule total_kept_le)
  have new: "total_workers new \<le> unat r"
    using queued_total_le [of "request_sizes r m" ?ans]
    by (simp add: total_workers_keys step(5) sum_request_sizes [OF m(1)])
  have "\<forall>a \<in> set new. 0 < worker_count a \<and> worker_count a \<le> m"
  proof
    fix a assume "a \<in> set new"
    then have "alloc_key a \<in> set (map alloc_key new)" by simp
    then have "worker_count a \<in> set (request_sizes r m)"
      unfolding step(5) alloc_key_def by (rule queued_mem)
    then show "0 < worker_count a \<and> worker_count a \<le> m" using request_sizes_bound m(1) by blast
  qed
  moreover have "total_workers new = unat r"
    if "\<forall>n q. \<exists>i q'. schedule_allocation ?D n q = (Inr i, q')"
  proof -
    have "\<And>x. x \<in> set ?ans \<Longrightarrow> \<exists>i. x = Inr i" by (rule schedule_answers_ok [OF that])
    then have "map snd (map alloc_key new) = request_sizes r m"
      unfolding step(5) by (intro queued_all) (simp_all add: length_schedule_answers)
    then have "map unat (map snd (map alloc_key new)) = map unat (request_sizes r m)" by simp
    then show ?thesis
      using sum_request_sizes [OF m(1), of r] by (simp add: total_workers_keys comp_def)
  qed
  moreover have tot: "total_workers (allocations d') = total_workers kp + total_workers new"
    by (simp add: step(4))
  moreover have "total_workers (allocations d') \<le> max (unat target) (total_workers (allocations d))"
    using tot kp new step(2) by linarith
  ultimately show ?thesis
    using step(1,3,4) kp step(2)
    by (intro exI [of _ st'] exI [of _ d'] exI [of _ kp] exI [of _ new] exI conjI impI) simp_all
qed

theorem process_descriptor_scale_witness:
  "\<exists>st' q' d'. process_descriptor (\<lambda>_. 0) ''foo'' example_state 0 = Some (st', q') \<and>
    get_descriptor st' ''foo'' = Some d' \<and> total_workers (allocations d') = 10"
proof -
  have ok: "\<forall>n q. \<exists>i q'. schedule_allocation (descriptor (DescriptorState_from example_queue)) n q = (Inr i, q')"
    by (simp add: DescriptorState_from_def example_queue_def)
  have hyps: "0 < (3::u64) \<and>
      (\<forall>q. max_workers_per_alloc (descriptor (DescriptorState_from example_queue)) q = 3)"
    "\<forall>q. target_scale (descriptor (DescriptorState_from example_queue)) q = 10"
    "total_workers (allocations (DescriptorState_from example_queue)) < 2 ^ 64"
    "total_workers (allocations (DescriptorState_from example_queue)) = 0"
    by (simp_all add: DescriptorState_from_def example_queue_def)
  from process_descriptor_scale [OF example_get hyps(1-3), of "\<lambda>_. 0" 0] ok
  obtain st' q' d' kp where
    "process_descriptor (\<lambda>_. 0) ''foo'' example_state 0 = Some (st', q')"
    "get_descriptor st' ''foo'' = Some d'"
    "total_workers kp \<le> total_workers (allocations (DescriptorState_from example_queue))"
    "total_workers (allocations d') = max (unat (10::u64)) (total_workers kp)"
    by metis
  then show ?thesis by (simp add: hyps(4))
qed

text \<open>
  A queue that has its target number of workers, and whose allocations the batch system still
  reports, makes no request: the tick only asks for the statuses and keeps the allocations.
\<close>

theorem process_descriptor_steady:
  assumes "get_descriptor st name = Some d"
    and "\<forall>i q. \<exists>s q'. get_allocation_status (descriptor d) i q = (Inr (Some s), q')"
    and "\<forall>q. unat (target_scale (descriptor d) q) \<le> total_workers (allocations d)"
    and "\<forall>q. 0 < max_workers_per_alloc (descriptor d) q"
    and "total_workers (allocations d) < 2 ^ 64"
  shows "\<exists>st' d'. process_descriptor clock name st q =
      Some (st', snd (status_answers (descriptor d) (allocations d) q)) \<and>
    get_descriptor st' name = Some d' \<and>
    map alloc_key (allocations d') = map alloc_key (allocations d)"
proof -
  let ?D = "descriptor d"
  define kp where
    "kp = concat (map2 kept (allocations d) (fst (status_answers ?D (allocations d) q)))"
  define q1 where "q1 = snd (status_answers ?D (allocations d) q)"
  have kp: "map alloc_key kp = map alloc_key (allocations d)"
    unfolding kp_def using assms(2) by (intro kept_all) blast
  have "0 < max_workers_per_alloc ?D q1" using assms(4) by simp
  from process_descriptor_get [where clock = clock, OF assms(1) kp_def q1_def this assms(5)]
  obtain st' d' r new where step:
    "process_descriptor clock name st q =
       Some (st', snd (schedule_answers ?D (request_sizes r (max_workers_per_alloc ?D q1)) q1))"
    "unat r = unat (target_scale ?D q1) - total_workers kp" "get_descriptor st' name = Some d'"
    "allocations d' = kp @ new"
    "map alloc_key new = concat (map2 queued (request_sizes r (max_workers_per_alloc ?D q1))
       (fst (schedule_answers ?D (request_sizes r (max_workers_per_alloc ?D q1)) q1)))" by blast
  have "r = 0"
    using step(2) assms(3) total_workers_cong [OF kp] by (simp add: unat_eq_zero)
  with step kp show ?thesis by (simp add: q1_def)
qed

definition steady_example :: "nat DescriptorState" where
  "steady_example = \<lparr>descriptor = example_queue,
     allocations = [\<lparr>alloc_id = ''a'', worker_count = 10, alloc_status = AllocQueued 0\<rparr>],
     events = []\<rparr>"

theorem process_descriptor_steady_witness:
  "\<exists>st' d'. process_descriptor (\<lambda>_. 0) ''foo''
      \<lparr>refresh_interval = 1, descriptors = [(''foo'', steady_example)]\<rparr> (7::nat) = Some (st', 7) \<and>
    get_descriptor st' ''foo'' = Some d' \<and> map alloc_key (allocations d') = [(''a'', 10)]"
  using process_descriptor_steady [of "\<lparr>refresh_interval = 1, descriptors = [(''foo'', steady_example)]\<rparr>"
      "''foo''" steady_example "\<lambda>_. 0" 7]
  by (simp add: get_descriptor_def steady_example_def example_queue_def alloc_key_def)

text \<open>
  The event log of every queue stays within its bound over a tick.
\<close>

theorem autoalloc_tick_events_bounded:
  assumes "autoalloc_tick clock st q = Some (st', q')"
    and "\<forall>n d. get_descriptor st n = Some d \<longrightarrow> length (events d) \<le> MAX_EVENT_QUEUE_LENGTH"
    and "get_descriptor st' n = Some d'"
  shows "length (events d') \<le> MAX_EVENT_QUEUE_LENGTH"
  using event_queue.tick_inv [OF _ assms(1)] assms(2,3)
  by (simp add: event_queue.all_queues_def events_bounded_def)

definition steady_state :: "nat AutoAllocState" where
  "steady_state = \<lparr>refresh_interval = 1, descriptors = [(''foo'', steady_example)]\<rparr>"

lemma steady_tick: "autoalloc_tick (\<lambda>_. 0) steady_state (7::nat) = Some (steady_state, 7)"
  by (simp add: autoalloc_tick_def steady_state_def descriptor_names_def process_descriptor_def
      refresh_allocations_def get_descriptor_def modify_descriptor_def steady_example_def
      example_queue_def push_allocation_def schedule_new_allocations_def active_workers_def
      saturating_sub_def schedule_loop.simps [of _ _ 0])

theorem autoalloc_tick_events_bounded_witness:
  "length (events steady_example) \<le> MAX_EVENT_QUEUE_LENGTH"
  by (rule autoalloc_tick_events_bounded [OF steady_tick, of "''foo''"])
    (simp_all add: steady_state_def get_descriptor_def steady_example_def)

text \<open>
  Claim C33. A queue that allows no worker per allocation and misses its target never returns from the
  scheduling loop: the background process repeats an empty request for ever.
\<close>

theorem schedule_without_capacity_diverges:
  assumes "get_descriptor st name = Some d"
    and "max_workers_per_alloc (descriptor d) q = 0"
    and "active_workers d < target_scale (descriptor d) q"
  shows "schedule_new_allocations clock name st q = None"
proof -
  have "0 < saturating_sub (target_scale (descriptor d) q) (active_workers d)"
    using assms(3) by (auto simp: saturating_sub_def word_gt_0)
  then have "schedule_loop clock name
      (saturating_sub (target_scale (descriptor d) q) (active_workers d)) 0 st q = None"
    using assms(1) by (intro schedule_loop_diverges) simp_all
  then show ?thesis using assms(1,2) by (simp add: schedule_new_allocations_def)
qed

theorem schedule_without_capacity_diverges_witness:
  "schedule_new_allocations (\<lambda>_. 0) ''foo''
     \<lparr>refresh_interval = 1, descriptors =
        [(''foo'', DescriptorState_from (example_queue\<lparr>max_workers_per_alloc := \<lambda>_. 0\<rparr>))]\<rparr> (0::nat)
   = None"
  by (rule schedule_without_capacity_diverges
        [of _ _ "DescriptorState_from (example_queue\<lparr>max_workers_per_alloc := \<lambda>_. 0\<rparr>)"])
    (simp_all add: get_descriptor_def DescriptorState_from_def example_queue_def active_workers_def)



end
