(* ===== verification/Server_State.thy ===== *)
theory Server_State
  imports Job AutoAlloc
begin

text \<open>
  The state of the server: workers of \<^verbatim>\<open>src/src/server/worker.rs\<close> and the state of
  \<^verbatim>\<open>src/src/server/state.rs\<close> with the handlers of the events that the task backend
  reports. A mutable borrow of a job is its key and its value; writing through it replaces the
  value under the key. Callbacks that the code spawns are part of the result.
\<close>

section \<open>Workers\<close>

datatype WorkerState = Online | Offline WorkerExitInfo

record Worker =
  worker_id :: WorkerId
  worker_state :: WorkerState
  worker_configuration :: WorkerConfiguration

definition Worker_new :: "WorkerId \<Rightarrow> WorkerConfiguration \<Rightarrow> Worker" where
  "Worker_new wid conf =
     \<lparr>worker_id = wid, worker_state = Online, worker_configuration = conf\<rparr>"

definition set_offline_state :: "date \<Rightarrow> LostWorkerReasonInfo \<Rightarrow> Worker \<Rightarrow> Worker" where
  "set_offline_state now r w = w\<lparr>worker_state := Offline \<lparr>ended_at = now, reason = r\<rparr>\<rparr>"

definition make_info :: "Worker \<Rightarrow> WorkerInfo" where
  "make_info w =
     \<lparr>wi_id = worker_id w, wi_configuration = worker_configuration w,
      wi_ended = (case worker_state w of Online \<Rightarrow> None | Offline d \<Rightarrow> Some d)\<rparr>"

section \<open>The state\<close>

record ('rr, 'q) State =
  jobs :: "(JobId, 'rr Job) hmap"
  workers :: "(WorkerId, Worker) hmap"
  base_task_id_to_job_id :: "(TakoTaskId, JobId) btmap"
  job_id_counter :: JobId
  task_id_counter :: TakoTaskId
  autoalloc_state :: "'q AutoAllocState"

definition StateRef_new :: "nat \<Rightarrow> ('rr, 'q) State" where
  "StateRef_new autoalloc_interval =
     \<lparr>jobs = [], workers = [], base_task_id_to_job_id = [], job_id_counter = 1,
      task_id_counter = 1, autoalloc_state = AutoAllocState_new autoalloc_interval\<rparr>"

definition get_job :: "('rr, 'q) State \<Rightarrow> JobId \<Rightarrow> 'rr Job option" where
  "get_job st jid = map_of (jobs st) jid"

definition jobs_values :: "('rr, 'q) State \<Rightarrow> 'rr Job list" where
  "jobs_values st = map snd (jobs st)"

definition put_job :: "JobId \<Rightarrow> 'rr Job \<Rightarrow> ('rr, 'q) State \<Rightarrow> ('rr, 'q) State" where
  "put_job jid j st = st\<lparr>jobs := hm_modify jid (\<lambda>_. j) (jobs st)\<rparr>"

definition add_worker :: "Worker \<Rightarrow> ('rr, 'q) State \<Rightarrow> ('rr, 'q) State outcome" where
  "add_worker w st =
     (case hm_insert (worker_id w) w (workers st) of
        (ws, None) \<Rightarrow> Inr (st\<lparr>workers := ws\<rparr>)
      | (_, Some _) \<Rightarrow> Inl Assert_failed)"

definition add_job :: "'rr Job \<Rightarrow> ('rr, 'q) State \<Rightarrow> ('rr, 'q) State outcome" where
  "add_job j st =
     (if map_of (base_task_id_to_job_id st) (base_task_id j) \<noteq> None then Inl Assert_failed
      else
        (let st1 = st\<lparr>base_task_id_to_job_id :=
                        bt_insert (base_task_id j) (job_id j) (base_task_id_to_job_id st)\<rparr>
         in case hm_insert (job_id j) j (jobs st1) of
              (js, None) \<Rightarrow> Inr (st1\<lparr>jobs := js\<rparr>)
            | (_, Some _) \<Rightarrow> Inl Assert_failed))"

definition get_job_mut_by_tako_task_id ::
  "('rr, 'q) State \<Rightarrow> TakoTaskId \<Rightarrow> (JobId \<times> 'rr Job) option" where
  "get_job_mut_by_tako_task_id st t =
     (case bt_floor (base_task_id_to_job_id st) t of
        None \<Rightarrow> None
      | Some (_, jid) \<Rightarrow>
          (case map_of (jobs st) jid of
             None \<Rightarrow> None
           | Some job \<Rightarrow>
               if t < base_task_id job + ucast (n_tasks job) then Some (jid, job) else None))"

definition new_job_id :: "('rr, 'q) State \<Rightarrow> JobId \<times> ('rr, 'q) State" where
  "new_job_id st = (job_id_counter st, st\<lparr>job_id_counter := job_id_counter st + 1\<rparr>)"

definition u32_range :: "u32 \<Rightarrow> u32 \<Rightarrow> u32 list" where
  "u32_range a b = map of_nat [unat a ..< unat b]"

definition last_n_ids :: "('rr, 'q) State \<Rightarrow> JobId \<Rightarrow> JobId list" where
  "last_n_ids st n =
     (let n' = min n (job_id_counter st - 1)
      in u32_range (job_id_counter st - n') (job_id_counter st))"

definition new_task_id :: "JobTaskCount \<Rightarrow> ('rr, 'q) State \<Rightarrow> TakoTaskId \<times> ('rr, 'q) State" where
  "new_task_id task_count st =
     (task_id_counter st, st\<lparr>task_id_counter := task_id_counter st + ucast task_count\<rparr>)"

definition get_worker :: "('rr, 'q) State \<Rightarrow> WorkerId \<Rightarrow> Worker option" where
  "get_worker st w = map_of (workers st) w"

section \<open>Events of the task backend\<close>

text \<open>The body shared by the handlers: find the job of a task, apply an operation to it.\<close>

definition on_task_job ::
  "TakoTaskId \<Rightarrow> ('rr Job \<Rightarrow> ('rr Job \<times> 'o) outcome) \<Rightarrow> ('rr, 'q) State \<Rightarrow>
   (('rr, 'q) State \<times> 'rr Job \<times> 'o) outcome" where
  "on_task_job t f st =
     try_bind (unwrap (get_job_mut_by_tako_task_id st t)) (\<lambda>(jid, job).
       try_bind (f job) (\<lambda>(job', out). Inr (put_job jid job' st, job', out)))"

type_synonym callback = "JobId \<times> TakoTaskId list"

definition cancel_tasks_from_callback :: "JobId \<Rightarrow> TakoTaskId list \<Rightarrow> callback list" where
  "cancel_tasks_from_callback jid tasks = (if tasks = [] then [] else [(jid, tasks)])"

fun cancel_tasks ::
  "date \<Rightarrow> TakoTaskId list \<Rightarrow> 'rr Job \<Rightarrow>
   (JobTaskId list \<times> 'rr Job \<times> StreamServerControlMessage list) outcome" where
  "cancel_tasks now [] j = Inr ([], j, [])"
| "cancel_tasks now (t # ts) j =
     try_bind (set_cancel_state now t j) (\<lambda>(i, j1, ms1).
       try_bind (cancel_tasks now ts j1) (\<lambda>(is, j2, ms2). Inr (i # is, j2, ms1 @ ms2)))"

text \<open>The spawned block, once the backend has answered the request it sends.\<close>

definition cancel_callback_response ::
  "date \<Rightarrow> JobId \<Rightarrow> ToGatewayMessage \<Rightarrow> ('rr, 'q) State \<Rightarrow>
   (('rr, 'q) State \<times> StreamServerControlMessage list) outcome" where
  "cancel_callback_response now jid response st =
     (case response of
        CancelTasksResponse cancelled_tasks \<Rightarrow>
          try_bind (unwrap (get_job st jid)) (\<lambda>job.
            try_bind (cancel_tasks now cancelled_tasks job) (\<lambda>(_, job', ms).
              Inr (put_job jid job' st, ms)))
      | GatewayError _ \<Rightarrow> Inr (st, [])
      | _ \<Rightarrow> Inl Explicit_panic)"

definition process_task_failed ::
  "date \<Rightarrow> TakoTaskId \<Rightarrow> string \<Rightarrow> ('rr, 'q) State \<Rightarrow>
   (('rr, 'q) State \<times> StreamServerControlMessage list \<times> callback list) outcome" where
  "process_task_failed now t message st =
     try_bind (on_task_job t (set_failed_state now message t) st) (\<lambda>(st', job, ms).
       Inr (st', ms,
         (case job_max_fails job of
            Some max_fails \<Rightarrow>
              if n_failed_tasks (job_counters job) > max_fails
              then cancel_tasks_from_callback (job_id job) (non_finished_task_ids job)
              else []
          | None \<Rightarrow> [])))"

definition process_task_update ::
  "date \<Rightarrow> TakoTaskId \<Rightarrow> TaskState \<Rightarrow> ('rr, 'q) State \<Rightarrow>
   (('rr, 'q) State \<times> StreamServerControlMessage list) outcome" where
  "process_task_update now t s st =
     (case s of
        TsRunning w \<Rightarrow>
          try_bind (on_task_job t (\<lambda>j. with_unit (set_running_state now w t j)) st)
            (\<lambda>(st', _, _). Inr (st', []))
      | TsFinished \<Rightarrow>
          try_bind (on_task_job t (set_finished_state now t) st)
            (\<lambda>(st', _, ms). Inr (st', ms))
      | TsWaiting \<Rightarrow>
          try_bind (on_task_job t (\<lambda>j. with_unit (set_waiting_state t j)) st)
            (\<lambda>(st', _, _). Inr (st', []))
      | TsInvalid \<Rightarrow> Inl Unreachable)"

definition process_worker_new ::
  "WorkerId \<Rightarrow> WorkerConfiguration \<Rightarrow> ('rr, 'q) State \<Rightarrow> ('rr, 'q) State outcome" where
  "process_worker_new w conf st = add_worker (Worker_new w conf) st"

fun lost_reason :: "LostWorkerReason \<Rightarrow> LostWorkerReasonInfo" where
  "lost_reason LwStopped = InfoStopped"
| "lost_reason LwConnectionLost = InfoConnectionLost"
| "lost_reason LwHeartbeatLost = InfoHeartbeatLost"
| "lost_reason LwIdleTimeout = InfoIdleTimeout"

fun requeue_tasks :: "TakoTaskId list \<Rightarrow> ('rr, 'q) State \<Rightarrow> ('rr, 'q) State outcome" where
  "requeue_tasks [] st = Inr st"
| "requeue_tasks (t # ts) st =
     try_bind (on_task_job t (\<lambda>j. with_unit (set_waiting_state t j)) st)
       (\<lambda>(st', _, _). requeue_tasks ts st')"

definition process_worker_lost ::
  "date \<Rightarrow> WorkerId \<Rightarrow> TakoTaskId list \<Rightarrow> LostWorkerReason \<Rightarrow> ('rr, 'q) State \<Rightarrow>
   ('rr, 'q) State outcome" where
  "process_worker_lost now w running_tasks r st =
     try_bind (unwrap (get_worker st w)) (\<lambda>_.
       requeue_tasks running_tasks
         (st\<lparr>workers := hm_modify w (set_offline_state now (lost_reason r)) (workers st)\<rparr>))"

section \<open>The invariant\<close>

text \<open>
  The intervals of task identifiers that the jobs own are disjoint and below the counter, and
  the sparse index has the first identifier of each job.
\<close>

abbreviation first_task :: "'rr Job \<Rightarrow> nat" where
  "first_task j \<equiv> unat (base_task_id j)"

abbreviation end_task :: "'rr Job \<Rightarrow> nat" where
  "end_task j \<equiv> unat (base_task_id j) + length (task_table j)"

definition state_wf :: "('rr, 'q) State \<Rightarrow> bool" where
  "state_wf st \<longleftrightarrow>
     distinct (map fst (jobs st)) \<and>
     (\<forall>jid j. map_of (jobs st) jid = Some j \<longrightarrow>
        job_id j = jid \<and> job_wf j \<and> task_table j \<noteq> [] \<and>
        unat jid < unat (job_id_counter st) \<and> end_task j \<le> unat (task_id_counter st)) \<and>
     (\<forall>jid j jid' j'. map_of (jobs st) jid = Some j \<longrightarrow> map_of (jobs st) jid' = Some j' \<longrightarrow>
        jid \<noteq> jid' \<longrightarrow> end_task j \<le> first_task j' \<or> end_task j' \<le> first_task j) \<and>
     bt_sorted (base_task_id_to_job_id st) \<and>
     (\<forall>b jid. map_of (base_task_id_to_job_id st) b = Some jid \<longleftrightarrow>
        (\<exists>j. map_of (jobs st) jid = Some j \<and> base_task_id j = b)) \<and>
     distinct (map fst (workers st)) \<and>
     (\<forall>w x. map_of (workers st) w = Some x \<longrightarrow> worker_id x = w)"

lemma state_wf_jobD:
  assumes "state_wf st" "map_of (jobs st) jid = Some j"
  shows "job_id j = jid" "job_wf j" "task_table j \<noteq> []" "unat jid < unat (job_id_counter st)"
    "end_task j \<le> unat (task_id_counter st)"
    "map_of (base_task_id_to_job_id st) (base_task_id j) = Some jid"
  using assms by (simp_all add: state_wf_def)

lemma state_wf_disjoint:
  assumes "state_wf st" "map_of (jobs st) jid = Some j" "map_of (jobs st) jid' = Some j'"
    and "jid \<noteq> jid'"
  shows "end_task j \<le> first_task j' \<or> end_task j' \<le> first_task j"
proof -
  have "\<forall>jid j jid' j'. map_of (jobs st) jid = Some j \<longrightarrow> map_of (jobs st) jid' = Some j' \<longrightarrow>
      jid \<noteq> jid' \<longrightarrow> end_task j \<le> first_task j' \<or> end_task j' \<le> first_task j"
    using assms(1) unfolding state_wf_def by (elim conjE)
  with assms(2-4) show ?thesis by blast
qed

lemma state_wf_index:
  assumes "state_wf st"
  shows "map_of (base_task_id_to_job_id st) b = Some jid \<longleftrightarrow>
    (\<exists>j. map_of (jobs st) jid = Some j \<and> base_task_id j = b)"
  using assms by (simp add: state_wf_def)

lemma owns_interval:
  assumes "job_wf j"
  shows "owns j t \<longleftrightarrow> first_task j \<le> unat t \<and> unat t < end_task j"
proof -
  have "owns j t \<longleftrightarrow> unat t \<in> unat ` fst ` set (task_table j)"
    unfolding owns_def by (rule unat_mem_image [symmetric])
  also have "\<dots> \<longleftrightarrow> unat t \<in> {first_task j ..< end_task j}"
    using assms by (simp add: job_wf_def)
  finally show ?thesis by simp
qed

lemma unat_end:
  assumes "job_wf j" "end_task j < 2 ^ 64"
  shows "unat (base_task_id j + ucast (n_tasks j) :: u64) = end_task j"
proof -
  have l: "length (task_table j) < 2 ^ 32" using assms(1) by (simp add: job_wf_def)
  then have "unat (n_tasks j) = length (task_table j)"
    by (simp add: n_tasks_table unat_of_nat take_bit_nat_eq_self)
  then have "unat (ucast (n_tasks j) :: u64) = length (task_table j)"
    by (simp add: unat_ucast_u64)
  then show ?thesis using assms(2) by (simp add: unat_word_ariths)
qed

text \<open>The floor query in the sparse index finds the owner of a task.\<close>

lemma find_owner:
  assumes "state_wf st" "map_of (jobs st) jid = Some j" "owns j t"
  shows "get_job_mut_by_tako_task_id st t = Some (jid, j)"
proof -
  note w = state_wf_jobD [OF assms(1,2)]
  have e64: "end_task j < 2 ^ 64"
    using w(5) unsigned_less [where 'a = nat, of "task_id_counter st"] by simp
  note ue = unat_end [OF w(2) e64]
  have t: "first_task j \<le> unat t" "unat t < end_task j"
    using assms(3) owns_interval [OF w(2)] by auto
  have "bt_floor (base_task_id_to_job_id st) t = Some (base_task_id j, jid)"
  proof (rule bt.floor_owner [where e = "base_task_id j + ucast (n_tasks j)"])
    show "bt_sorted (base_task_id_to_job_id st)" using assms(1) by (simp add: state_wf_def)
    show "base_task_id j \<le> t" using t(1) by (simp add: word_le_nat_alt)
    show "t < base_task_id j + ucast (n_tasks j)" using t(2) ue by (simp add: word_less_nat_alt)
    show "map_of (base_task_id_to_job_id st) (base_task_id j) = Some jid" by (rule w(6))
  next
    fix x jid' assume x: "map_of (base_task_id_to_job_id st) x = Some jid'" "base_task_id j < x"
    then obtain j' where j': "map_of (jobs st) jid' = Some j'" "base_task_id j' = x"
      using state_wf_index [OF assms(1)] by blast
    have "jid' \<noteq> jid" using j' x(2) assms(2) by auto
    with state_wf_disjoint [OF assms(1,2) j'(1)] have
      "end_task j \<le> first_task j' \<or> end_task j' \<le> first_task j" by simp
    then have "end_task j \<le> unat x" using j'(2) x(2) by (auto simp: word_less_nat_alt)
    then show "base_task_id j + ucast (n_tasks j) \<le> x" using ue by (simp add: word_le_nat_alt)
  qed
  with assms(2) t(2) ue show ?thesis
    by (simp add: get_job_mut_by_tako_task_id_def word_less_nat_alt)
qed

lemma found_owner:
  assumes "state_wf st" "get_job_mut_by_tako_task_id st t = Some (jid, j)"
  shows "map_of (jobs st) jid = Some j" "owns j t"
proof -
  obtain b where f: "bt_floor (base_task_id_to_job_id st) t = Some (b, jid)"
    and j: "map_of (jobs st) jid = Some j" and lt: "t < base_task_id j + ucast (n_tasks j)"
    using assms(2)
    by (auto simp: get_job_mut_by_tako_task_id_def split: option.splits prod.splits if_splits)
  note w = state_wf_jobD [OF assms(1) j]
  have "bt_sorted (base_task_id_to_job_id st)" using assms(1) by (simp add: state_wf_def)
  from bt.floor_Some [OF this f] have b: "map_of (base_task_id_to_job_id st) b = Some jid" "b \<le> t"
    by auto
  then have "b = base_task_id j" using state_wf_index [OF assms(1)] j by auto
  moreover have "end_task j < 2 ^ 64"
    using w(5) unsigned_less [where 'a = nat, of "task_id_counter st"] by simp
  ultimately show "owns j t"
    using owns_interval [OF w(2)] unat_end [OF w(2)] b(2) lt
    by (simp add: word_le_nat_alt word_less_nat_alt)
  show "map_of (jobs st) jid = Some j" by (rule j)
qed

section \<open>The tasks of all jobs\<close>

text \<open>
  The abstract state: which task every identifier of the backend stands for. It is a partial
  function because at most one job owns an identifier.
\<close>

definition task_view :: "('rr, 'q) State \<Rightarrow> TakoTaskId \<Rightarrow> JobTaskInfo option" where
  "task_view st t =
     (case get_job_mut_by_tako_task_id st t of
        None \<Rightarrow> None
      | Some (_, j) \<Rightarrow> map_of (task_table j) t)"

lemma task_view_iff:
  assumes "state_wf st"
  shows "task_view st t = Some i \<longleftrightarrow>
    (\<exists>jid j. map_of (jobs st) jid = Some j \<and> map_of (task_table j) t = Some i)"
proof
  assume "task_view st t = Some i"
  then obtain jid j where "get_job_mut_by_tako_task_id st t = Some (jid, j)"
    "map_of (task_table j) t = Some i"
    by (auto simp: task_view_def split: option.splits)
  then show "\<exists>jid j. map_of (jobs st) jid = Some j \<and> map_of (task_table j) t = Some i"
    using found_owner [OF assms] by blast
next
  assume "\<exists>jid j. map_of (jobs st) jid = Some j \<and> map_of (task_table j) t = Some i"
  then show "task_view st t = Some i"
    using find_owner [OF assms] by (fastforce simp: task_view_def owns_map_of)
qed

lemma map_of_put_job:
  assumes "map_of (jobs st) jid = Some j"
  shows "map_of (jobs (put_job jid j' st)) = (map_of (jobs st))(jid \<mapsto> j')"
  using assms by (simp add: put_job_def map_of_hm_modify fun_eq_iff)

lemma put_job_fields [simp]:
  "map fst (jobs (put_job jid j st)) = map fst (jobs st)"
  "workers (put_job jid j st) = workers st"
  "base_task_id_to_job_id (put_job jid j st) = base_task_id_to_job_id st"
  "job_id_counter (put_job jid j st) = job_id_counter st"
  "task_id_counter (put_job jid j st) = task_id_counter st"
  by (simp_all add: put_job_def)

lemma put_job_wf:
  assumes "state_wf st" "map_of (jobs st) jid = Some j"
    and "job_wf j'" "same_config j j'" "length (task_table j') = length (task_table j)"
  shows "state_wf (put_job jid j' st)"
proof -
  note sc = same_config_fields [OF assms(4)]
  note w = state_wf_jobD [OF assms(1,2)]
  have "task_table j' \<noteq> []" using w(3) assms(5) by auto
  then have old: "\<And>x y. map_of (jobs (put_job jid j' st)) x = Some y \<Longrightarrow>
      \<exists>k. map_of (jobs st) x = Some k \<and> base_task_id k = base_task_id y \<and>
        length (task_table k) = length (task_table y) \<and> job_id y = job_id k \<and> job_wf y \<and>
        task_table y \<noteq> []"
    using assms sc state_wf_jobD [OF assms(1)] by (auto simp: map_of_put_job split: if_splits)
  have idx: "(\<exists>k. map_of (jobs (put_job jid j' st)) x = Some k \<and> base_task_id k = b) \<longleftrightarrow>
      (\<exists>k. map_of (jobs st) x = Some k \<and> base_task_id k = b)" for x b
    using assms(2) sc(2) by (auto simp: map_of_put_job)
  show ?thesis
    unfolding state_wf_def put_job_fields idx
  proof (intro conjI allI impI)
    fix x y assume "map_of (jobs (put_job jid j' st)) x = Some y"
    from old [OF this] obtain k where k: "map_of (jobs st) x = Some k"
      "base_task_id k = base_task_id y" "length (task_table k) = length (task_table y)"
      "job_id y = job_id k" "job_wf y" "task_table y \<noteq> []" by blast
    from state_wf_jobD [OF assms(1) k(1)] k
    show "job_id y = x" "job_wf y" "task_table y \<noteq> []" "unat x < unat (job_id_counter st)"
      "end_task y \<le> unat (task_id_counter st)" by simp_all
  next
    fix x y x' y'
    assume "map_of (jobs (put_job jid j' st)) x = Some y"
      "map_of (jobs (put_job jid j' st)) x' = Some y'" "x \<noteq> x'"
    from old [OF this(1)] old [OF this(2)] obtain k k' where
      k: "map_of (jobs st) x = Some k" "first_task k = first_task y" "end_task k = end_task y"
      and k': "map_of (jobs st) x' = Some k'" "first_task k' = first_task y'"
        "end_task k' = end_task y'" by auto
    from state_wf_disjoint [OF assms(1) k(1) k'(1) \<open>x \<noteq> x'\<close>] k k'
    show "end_task y \<le> first_task y' \<or> end_task y' \<le> first_task y" by simp
  qed (use assms(1) in \<open>simp_all add: state_wf_def\<close>)
qed

text \<open>One owner per identifier: a change of one job is a change of its part of the view.\<close>

lemma task_view_put_job:
  assumes "state_wf st" "map_of (jobs st) jid = Some j"
    and "job_wf j'" "same_config j j'" "length (task_table j') = length (task_table j)"
  shows "task_view (put_job jid j' st) t =
         (if owns j t then map_of (task_table j') t else task_view st t)"
proof -
  note wf' = put_job_wf [OF assms]
  note w = state_wf_jobD [OF assms(1,2)]
  have own: "owns j' t \<longleftrightarrow> owns j t"
    using owns_interval [OF assms(3)] owns_interval [OF w(2)] same_config_fields [OF assms(4)]
      assms(5) by simp
  show ?thesis
  proof (cases "owns j t")
    case True
    have "get_job_mut_by_tako_task_id (put_job jid j' st) t = Some (jid, j')"
      using True own assms(2) by (intro find_owner [OF wf']) (simp_all add: map_of_put_job)
    with True show ?thesis by (simp add: task_view_def)
  next
    case False
    have "task_view (put_job jid j' st) t = Some i \<longleftrightarrow> task_view st t = Some i" for i
      unfolding task_view_iff [OF assms(1)] task_view_iff [OF wf'] map_of_put_job [OF assms(2)]
      using False own assms(2) owns_map_of by (metis fun_upd_apply option.inject)
    with False show ?thesis by (metis option.exhaust)
  qed
qed

definition only_jobs :: "('rr, 'q) State \<Rightarrow> ('rr, 'q) State \<Rightarrow> bool" where
  "only_jobs st st' \<longleftrightarrow> st' = st\<lparr>jobs := jobs st'\<rparr> \<and> map fst (jobs st') = map fst (jobs st)"

lemma only_jobs_put [simp]: "only_jobs st (put_job jid j st)"
  by (simp add: only_jobs_def put_job_def)

lemma only_jobs_refl [simp]: "only_jobs st st"
  by (simp add: only_jobs_def)

lemma only_jobs_trans: "only_jobs a b \<Longrightarrow> only_jobs b c \<Longrightarrow> only_jobs a c"
  unfolding only_jobs_def by (cases a; cases b; cases c) simp

lemma only_jobs_workers: "only_jobs st st' \<Longrightarrow> workers st' = workers st"
  unfolding only_jobs_def by (cases st; cases st') simp

context task_op
begin

lemma on_task_ok:
  assumes "state_wf st" "task_view st t = Some i" "accepts (info_state i)"
  shows "\<exists>st' j' out. on_task_job t (oper t) st = Inr (st', j', out) \<and> state_wf st' \<and>
    only_jobs st st' \<and> map_of (jobs st') (job_id j') = Some j' \<and>
    task_view st' = (task_view st)(t \<mapsto> i\<lparr>info_state := target (info_state i)\<rparr>)"
proof -
  obtain jid j where j: "map_of (jobs st) jid = Some j" "map_of (task_table j) t = Some i"
    using assms(2) task_view_iff [OF assms(1)] by blast
  note w = state_wf_jobD [OF assms(1) j(1)]
  have own: "owns j t" using j(2) owns_map_of by blast
  from oper_ok [OF w(2) j(2) assms(3)] obtain j' out where
    j': "oper t j = Inr (j', out)" "job_wf j'" "same_config j j'" by blast
  note len = keeps_owned(2) [OF w(2) own j'(1)]
  note one = one_task_changes [OF w(2) j(2) j'(1)]
  have find: "get_job_mut_by_tako_task_id st t = Some (jid, j)"
    using find_owner [OF assms(1) j(1) own] .
  have "task_view (put_job jid j' st) x =
      ((task_view st)(t \<mapsto> i\<lparr>info_state := target (info_state i)\<rparr>)) x" for x
  proof (cases "owns j x")
    case True
    then have "task_view st x = map_of (task_table j) x"
      using find_owner [OF assms(1) j(1)] by (simp add: task_view_def)
    with True show ?thesis
      by (simp add: task_view_put_job [OF assms(1) j(1) j'(2,3) len] one)
  next
    case False
    with own have "x \<noteq> t" by blast
    with False show ?thesis
      by (simp add: task_view_put_job [OF assms(1) j(1) j'(2,3) len])
  qed
  moreover have "map_of (jobs (put_job jid j' st)) (job_id j') = Some j'"
    using w(1) same_config_fields [OF j'(3)] j(1) by (simp add: map_of_put_job)
  ultimately show ?thesis
    using put_job_wf [OF assms(1) j(1) j'(2,3) len]
    by (simp add: on_task_job_def find j'(1) fun_eq_iff)
qed

end

section \<open>The events\<close>

text \<open>
  What the server relies on from the task backend: it only reports tasks it was given, a task
  ends or is taken back from a worker only while it runs, a worker is announced once and lost
  only after that.
\<close>

definition task_is_running :: "('rr, 'q) State \<Rightarrow> TakoTaskId \<Rightarrow> bool" where
  "task_is_running st t =
     (case task_view st t of None \<Rightarrow> False | Some i \<Rightarrow> is_running (info_state i))"

fun tako_allows :: "('rr, 'q) State \<Rightarrow> ToGatewayMessage \<Rightarrow> bool" where
  "tako_allows st (TaskUpdate t (TsRunning w)) = (task_view st t \<noteq> None)"
| "tako_allows st (TaskUpdate t TsFinished) = task_is_running st t"
| "tako_allows st (TaskUpdate t TsWaiting) = task_is_running st t"
| "tako_allows st (TaskUpdate t TsInvalid) = False"
| "tako_allows st (TaskFailed t e) = task_is_running st t"
| "tako_allows st (NewWorker w c) = (get_worker st w = None)"
| "tako_allows st (LostWorker w ts r) =
     (get_worker st w \<noteq> None \<and> distinct ts \<and> list_all (task_is_running st) ts)"
| "tako_allows st _ = True"

lemma task_is_running_iff:
  "task_is_running st t \<longleftrightarrow> (\<exists>i. task_view st t = Some i \<and> is_running (info_state i))"
  by (simp add: task_is_running_def split: option.splits)

text \<open>The specification of the events on the abstract state.\<close>

definition set_task :: "(JobTaskState \<Rightarrow> JobTaskState) \<Rightarrow> TakoTaskId \<Rightarrow>
    (TakoTaskId \<Rightarrow> JobTaskInfo option) \<Rightarrow> TakoTaskId \<Rightarrow> JobTaskInfo option" where
  "set_task f t v = v(t := map_option (\<lambda>i. i\<lparr>info_state := f (info_state i)\<rparr>) (v t))"

fun update_target :: "date \<Rightarrow> TaskState \<Rightarrow> JobTaskState \<Rightarrow> JobTaskState" where
  "update_target now (TsRunning w) s = run_target now w s"
| "update_target now TsFinished s = finish_target now s"
| "update_target now TsWaiting s = Waiting"
| "update_target now TsInvalid s = s"

lemma process_task_update_ok:
  assumes "state_wf st" "tako_allows st (TaskUpdate t s)"
  shows "\<exists>st' ms. process_task_update now t s st = Inr (st', ms) \<and> state_wf st' \<and>
    only_jobs st st' \<and> task_view st' = set_task (update_target now s) t (task_view st)"
proof (cases s)
  case (TsRunning w)
  with assms(2) obtain i where i: "task_view st t = Some i" by auto
  from running.on_task_ok [OF assms(1) i, of now w] TsRunning i
  show ?thesis by (auto simp: process_task_update_def set_task_def)
next
  case TsFinished
  with assms(2) obtain i where i: "task_view st t = Some i" "is_running (info_state i)"
    by (auto simp: task_is_running_iff)
  from finish.on_task_ok [OF assms(1) i, of now] TsFinished i
  show ?thesis by (auto simp: process_task_update_def set_task_def)
next
  case TsWaiting
  with assms(2) obtain i where i: "task_view st t = Some i" "is_running (info_state i)"
    by (auto simp: task_is_running_iff)
  from waiting.on_task_ok [OF assms(1) i] TsWaiting i
  show ?thesis by (auto simp: process_task_update_def set_task_def)
next
  case TsInvalid
  with assms(2) show ?thesis by simp
qed

lemma process_task_failed_ok:
  assumes "state_wf st" "task_is_running st t"
  shows "\<exists>st' j ms. process_task_failed now t e st = Inr (st', ms,
      (case job_max_fails j of
         Some m \<Rightarrow> if n_failed_tasks (job_counters j) > m
                   then cancel_tasks_from_callback (job_id j) (non_finished_task_ids j) else []
       | None \<Rightarrow> [])) \<and>
    state_wf st' \<and> only_jobs st st' \<and> map_of (jobs st') (job_id j) = Some j \<and>
    task_view st' = set_task (fail_target now e) t (task_view st)"
proof -
  obtain i where i: "task_view st t = Some i" "is_running (info_state i)"
    using assms(2) by (auto simp: task_is_running_iff)
  from failure.on_task_ok [OF assms(1) i, of now e] i obtain st' j ms where
    "on_task_job t (set_failed_state now e t) st = Inr (st', j, ms)" "state_wf st'"
    "only_jobs st st'" "map_of (jobs st') (job_id j) = Some j"
    "task_view st' = set_task (fail_target now e) t (task_view st)"
    by (auto simp: set_task_def)
  then show ?thesis by (auto simp: process_task_failed_def)
qed

lemma requeue_tasks_ok:
  assumes "state_wf st" "distinct ts" "list_all (task_is_running st) ts"
  shows "\<exists>st'. requeue_tasks ts st = Inr st' \<and> state_wf st' \<and> only_jobs st st' \<and>
    task_view st' = fold (set_task (\<lambda>_. Waiting)) ts (task_view st)"
  using assms
proof (induction ts arbitrary: st)
  case (Cons t ts)
  obtain i where i: "task_view st t = Some i" "is_running (info_state i)"
    using Cons.prems(3) by (auto simp: task_is_running_iff)
  from waiting.on_task_ok [OF Cons.prems(1) i] i obtain st1 j o1 where
    st1: "on_task_job t (\<lambda>j. with_unit (set_waiting_state t j)) st = Inr (st1, j, o1)"
      "state_wf st1" "only_jobs st st1" "task_view st1 = set_task (\<lambda>_. Waiting) t (task_view st)"
    by (auto simp: set_task_def)
  have "list_all (task_is_running st1) ts"
    using Cons.prems(2,3) st1(4) by (auto simp: list_all_iff task_is_running_def set_task_def)
  with Cons.IH [OF st1(2)] Cons.prems(2) obtain st2 where
    st2: "requeue_tasks ts st1 = Inr st2" "state_wf st2" "only_jobs st1 st2"
    "task_view st2 = fold (set_task (\<lambda>_. Waiting)) ts (task_view st1)" by auto
  have "only_jobs st st2" by (rule only_jobs_trans [OF st1(3) st2(3)])
  with st1(1,4) st2 show ?case by simp
qed simp

lemma workers_update_wf:
  assumes "state_wf st" "distinct (map fst ws)" "\<And>w x. map_of ws w = Some x \<Longrightarrow> worker_id x = w"
  shows "state_wf (st\<lparr>workers := ws\<rparr>)"
  using assms by (simp add: state_wf_def)

lemma task_view_workers [simp]: "task_view (st\<lparr>workers := ws\<rparr>) = task_view st"
  by (simp add: fun_eq_iff task_view_def get_job_mut_by_tako_task_id_def
      cong: option.case_cong prod.case_cong)

lemma process_worker_new_ok:
  assumes "state_wf st" "get_worker st w = None"
  shows "\<exists>st'. process_worker_new w conf st = Inr st' \<and> state_wf st' \<and>
    task_view st' = task_view st \<and> jobs st' = jobs st \<and>
    get_worker st' = (get_worker st)(w \<mapsto> Worker_new w conf)"
proof -
  let ?ws = "AList.update w (Worker_new w conf) (workers st)"
  have "distinct (map fst ?ws)"
    using assms(1) by (intro distinct_update) (simp add: state_wf_def)
  moreover have "\<And>v x. map_of ?ws v = Some x \<Longrightarrow> worker_id x = v"
    using assms(1)
    by (auto simp: update_conv' state_wf_def Worker_new_def split: if_splits)
  ultimately have "state_wf (st\<lparr>workers := ?ws\<rparr>)"
    by (rule workers_update_wf [OF assms(1)])
  with assms(2) show ?thesis
    by (simp add: process_worker_new_def add_worker_def hm_insert_def get_worker_def update_conv'
        Worker_new_def fun_eq_iff)
qed

lemma process_worker_lost_ok:
  assumes "state_wf st" "get_worker st w = Some x" "distinct ts"
    and "list_all (task_is_running st) ts"
  shows "\<exists>st'. process_worker_lost now w ts r st = Inr st' \<and> state_wf st' \<and>
    task_view st' = fold (set_task (\<lambda>_. Waiting)) ts (task_view st) \<and>
    get_worker st' = (get_worker st)(w \<mapsto> set_offline_state now (lost_reason r) x)"
proof -
  let ?ws = "hm_modify w (set_offline_state now (lost_reason r)) (workers st)"
  have "distinct (map fst ?ws)" using assms(1) by (simp add: state_wf_def)
  moreover have "\<And>v x. map_of ?ws v = Some x \<Longrightarrow> worker_id x = v"
    using assms(1)
    by (auto simp: map_of_hm_modify state_wf_def set_offline_state_def split: if_splits)
  ultimately have wf: "state_wf (st\<lparr>workers := ?ws\<rparr>)"
    by (rule workers_update_wf [OF assms(1)])
  have "list_all (task_is_running (st\<lparr>workers := ?ws\<rparr>)) ts"
    using assms(4) by (simp add: task_is_running_def list_all_iff)
  from requeue_tasks_ok [OF wf assms(3) this] obtain st' where
    "requeue_tasks ts (st\<lparr>workers := ?ws\<rparr>) = Inr st'" "state_wf st'"
    "workers st' = ?ws" "task_view st' = fold (set_task (\<lambda>_. Waiting)) ts (task_view st)"
    using only_jobs_workers by fastforce
  with assms(2) show ?thesis
    by (simp add: process_worker_lost_def get_worker_def map_of_hm_modify fun_eq_iff)
qed

section \<open>New jobs\<close>

lemma add_job_ok:
  assumes "state_wf st" "job_wf j" "task_table j \<noteq> []"
    and "unat (job_id j) < unat (job_id_counter st)" "end_task j \<le> unat (task_id_counter st)"
    and "map_of (jobs st) (job_id j) = None"
    and "\<And>jid k. map_of (jobs st) jid = Some k \<Longrightarrow> end_task k \<le> first_task j"
  shows "\<exists>st'. add_job j st = Inr st' \<and> state_wf st' \<and>
    map_of (jobs st') = (map_of (jobs st))(job_id j \<mapsto> j) \<and> workers st' = workers st \<and>
    job_id_counter st' = job_id_counter st \<and> task_id_counter st' = task_id_counter st"
proof -
  have fresh: "map_of (base_task_id_to_job_id st) (base_task_id j) = None"
  proof (rule ccontr)
    assume "map_of (base_task_id_to_job_id st) (base_task_id j) \<noteq> None"
    then obtain jid k where k: "map_of (jobs st) jid = Some k" "base_task_id k = base_task_id j"
      using state_wf_index [OF assms(1)] by auto
    with assms(7) [OF k(1)] state_wf_jobD(3) [OF assms(1) k(1)] show False by simp
  qed
  define st' where "st' = st\<lparr>base_task_id_to_job_id :=
      bt_insert (base_task_id j) (job_id j) (base_task_id_to_job_id st),
      jobs := AList.update (job_id j) j (jobs st)\<rparr>"
  have j': "map_of (jobs st') = (map_of (jobs st))(job_id j \<mapsto> j)"
    by (simp add: st'_def update_conv')
  have counters: "job_id_counter st' = job_id_counter st" "task_id_counter st' = task_id_counter st"
    by (simp_all add: st'_def)
  have sorted: "bt_sorted (base_task_id_to_job_id st)" using assms(1) by (simp add: state_wf_def)
  have idx: "map_of (base_task_id_to_job_id st') =
      (map_of (base_task_id_to_job_id st))(base_task_id j \<mapsto> job_id j)"
    using bt.look_ins [OF sorted] by (simp add: st'_def)
  have old: "(map_of (base_task_id_to_job_id st) b = Some jid) \<longleftrightarrow>
      (\<exists>k. map_of (jobs st) jid = Some k \<and> base_task_id k = b)" for b jid
    by (rule state_wf_index [OF assms(1)])
  have base: "base_task_id k \<noteq> base_task_id j" if "map_of (jobs st) x = Some k" for x k
    using that old [of "base_task_id j" x] fresh by auto
  have "state_wf st'"
    unfolding state_wf_def
  proof (intro conjI allI impI)
    show "distinct (map fst (jobs st'))"
      using assms(1) by (simp add: st'_def state_wf_def distinct_update)
    show "bt_sorted (base_task_id_to_job_id st')"
      using bt.wf_ins [OF sorted] by (simp add: st'_def)
    show "distinct (map fst (workers st'))" using assms(1) by (simp add: st'_def state_wf_def)
  next
    fix jid k assume "map_of (jobs st') jid = Some k"
    then show "job_id k = jid" "job_wf k" "task_table k \<noteq> []"
      "unat jid < unat (job_id_counter st')" "end_task k \<le> unat (task_id_counter st')"
      using assms(2-5) state_wf_jobD [OF assms(1), of jid k]
      by (auto simp: j' counters split: if_splits)
  next
    fix jid k jid' k'
    assume "map_of (jobs st') jid = Some k" "map_of (jobs st') jid' = Some k'" "jid \<noteq> jid'"
    then show "end_task k \<le> first_task k' \<or> end_task k' \<le> first_task k"
      using assms(7) state_wf_disjoint [OF assms(1)] by (auto simp: j' split: if_splits)
  next
    fix b jid
    show "(map_of (base_task_id_to_job_id st') b = Some jid) \<longleftrightarrow>
        (\<exists>k. map_of (jobs st') jid = Some k \<and> base_task_id k = b)"
      unfolding idx j' using old [of b jid] assms(6) base by (cases "jid = job_id j") auto
  next
    fix w x assume "map_of (workers st') w = Some x"
    then show "worker_id x = w" using assms(1) by (simp add: st'_def state_wf_def)
  qed
  moreover have "add_job j st = Inr st'"
    using fresh assms(6) by (simp add: add_job_def hm_insert_def st'_def Let_def)
  ultimately show ?thesis using j' by (simp add: st'_def)
qed

section \<open>Cancellation\<close>

abbreviation open_task :: "'rr Job \<Rightarrow> TakoTaskId \<Rightarrow> bool" where
  "open_task j t \<equiv> \<exists>i. map_of (task_table j) t = Some i \<and> non_finished (info_state i)"

definition task_id_of :: "'rr Job \<Rightarrow> TakoTaskId \<Rightarrow> JobTaskId" where
  "task_id_of j t = (case map_of (task_table j) t of None \<Rightarrow> 0 | Some i \<Rightarrow> info_task_id i)"

definition end_messages :: "'rr Job \<Rightarrow> StreamServerControlMessage list" where
  "end_messages j =
     (if is_terminated j \<and> job_log j \<noteq> None then [UnregisterStream (job_id j)] else [])"

lemma check_termination_messages:
  "snd (check_termination now j) = end_messages (fst (check_termination now j))"
  by (auto simp: check_termination_def end_messages_def is_terminated_def n_tasks_table)

lemma open_task_not_terminated:
  assumes "job_wf j" "open_task j t"
  shows "\<not> is_terminated j" "end_messages j = []"
proof -
  obtain i where "map_of (task_table j) t = Some i" "non_finished (info_state i)"
    using assms(2) by blast
  then show "\<not> is_terminated j"
    unfolding job_wf_terminated [OF assms(1)] task_states_def
    by (force dest: map_of_SomeD)
  then show "end_messages j = []" by (simp add: end_messages_def)
qed

lemma cancel_tasks_result:
  assumes "job_wf j" "distinct ts" "\<forall>t \<in> set ts. open_task j t"
  shows "\<exists>j' ms. cancel_tasks now ts j = Inr (map (task_id_of j) ts, j', ms) \<and>
    (ts \<noteq> [] \<longrightarrow> ms = end_messages j')"
  using assms
proof (induction ts arbitrary: j)
  case (Cons t ts)
  obtain i where i: "map_of (task_table j) t = Some i" "non_finished (info_state i)"
    using Cons.prems(3) by auto
  define j1 where "j1 = fst (check_termination now (move_task t (info_state i) Canceled j))"
  have op: "set_cancel_state now t j = Inr (info_task_id i, j1, end_messages j1)"
    unfolding set_cancel_move [OF i] j1_def
    by (simp add: check_termination_messages [symmetric])
  have wf1: "job_wf j1" unfolding j1_def using move_check_wf [OF Cons.prems(1) i] .
  have view: "map_of (task_table j1) x =
      (if x = t then Some (i\<lparr>info_state := Canceled\<rparr>) else map_of (task_table j) x)" for x
    using i by (simp add: j1_def move_task_table map_of_hm_modify)
  have open1: "\<forall>t \<in> set ts. open_task j1 t" using Cons.prems(2,3) view by auto
  have ids: "map (task_id_of j1) ts = map (task_id_of j) ts" "task_id_of j t = info_task_id i"
    using Cons.prems(2) view i(1) by (auto simp: task_id_of_def)
  from Cons.IH [OF wf1 _ open1] Cons.prems(2) obtain j2 ms where
    j2: "cancel_tasks now ts j1 = Inr (map (task_id_of j) ts, j2, ms)"
      "ts \<noteq> [] \<longrightarrow> ms = end_messages j2"
    using ids by auto
  show ?case
  proof (cases ts)
    case Nil
    then show ?thesis using j2 op ids by auto
  next
    case (Cons u us)
    then have "open_task j1 u" using open1 by simp
    with open_task_not_terminated [OF wf1] have "end_messages j1 = []" by blast
    with Cons j2 op ids show ?thesis by auto
  qed
qed simp

lemma cancel_tasks_ok:
  assumes "job_wf j" "distinct ts" "\<forall>t \<in> set ts. open_task j t"
  shows "\<exists>j' ms. cancel_tasks now ts j = Inr (map (task_id_of j) ts, j', ms) \<and>
    (ts \<noteq> [] \<longrightarrow> ms = end_messages j') \<and> job_wf j' \<and> same_config j j' \<and> owns j' = owns j \<and>
    map_of (task_table j') = (\<lambda>t. if t \<in> set ts
      then map_option (\<lambda>i. i\<lparr>info_state := Canceled\<rparr>) (map_of (task_table j) t)
      else map_of (task_table j) t)"
proof -
  let ?loop = "\<lambda>ts j. try_bind (cancel_tasks now ts j) (\<lambda>(_, j', _). Inr j')"
  have "?loop (t # ts) j = try_bind (job_first (set_cancel_state now t j)) (\<lambda>(j', out). ?loop ts j')"
    for t ts and j :: "'a Job"
    by (cases "set_cancel_state now t j"; cases "cancel_tasks now ts (fst (snd (projr (set_cancel_state now t j))))")
      (auto simp: job_first_def)
  from cancel.loop_ok [OF assms, of ?loop now, OF this] obtain j' where
    "?loop ts j = Inr j'" "job_wf j'" "same_config j j'" "owns j' = owns j"
    "map_of (task_table j') = (\<lambda>t. if t \<in> set ts
      then map_option (\<lambda>i. i\<lparr>info_state := Canceled\<rparr>) (map_of (task_table j) t)
      else map_of (task_table j) t)" by auto
  with cancel_tasks_result [OF assms, of now] show ?thesis by auto
qed

lemma owns_length:
  fixes j j' :: "'rr Job"
  assumes "job_wf j" "job_wf j'" "owns j' = owns j"
  shows "length (task_table j') = length (task_table j)"
proof -
  have "length (task_table k) = card (Collect (owns k))" if "job_wf k" for k :: "'rr Job"
  proof -
    have "Collect (owns k) = set (map fst (task_table k))" by (simp add: set_eq_iff owns_def)
    with that show ?thesis
      using distinct_card [of "map fst (task_table k)"] by (simp add: job_wf_def)
  qed
  from this [OF assms(1)] this [OF assms(2)] assms(3) show ?thesis by simp
qed

section \<open>Properties\<close>

text \<open>A server for the examples: one job with a waiting, a running and a canceled task.\<close>

definition example_conf :: WorkerConfiguration where
  "example_conf = \<lparr>wc_resources = \<lparr>cpus = [[0, 1]]\<rparr>, wc_listen_address = ''node:1'',
     wc_hostname = ''node'', wc_work_dir = ''/tmp'', wc_log_dir = ''/tmp'',
     wc_heartbeat_interval = 8, wc_idle_timeout = None, wc_extra = [],
     wc_hw_state_poll_interval = None\<rparr>"

definition example_server :: "(unit, unit) State" where
  "example_server =
     \<lparr>jobs = [(1, example_job)], workers = [(7, Worker_new 7 example_conf)],
      base_task_id_to_job_id = [(10, 1)], job_id_counter = 2, task_id_counter = 13,
      autoalloc_state = AutoAllocState_new 1\<rparr>"

lemma example_server_wf: "state_wf example_server"
  using example_job_wf
  by (auto simp: state_wf_def example_server_def example_job_def task_table_def Worker_new_def
      split: if_splits)

lemma example_view:
  "task_view example_server 10 = Some \<lparr>info_state = Waiting, info_task_id = 5\<rparr>"
  "task_view example_server 11 = Some \<lparr>info_state = Running 7 100, info_task_id = 6\<rparr>"
  "task_view example_server 12 = Some \<lparr>info_state = Canceled, info_task_id = 7\<rparr>"
  by (simp_all add: task_view_def get_job_mut_by_tako_task_id_def example_server_def
      example_job_def n_tasks_def task_table_def)

text \<open>
  Claim C4. The sparse index is a correct lookup: a query by an identifier of the backend returns a job
  exactly if that job owns the identifier, although the index holds only one entry per job.
\<close>

theorem lookup_by_task_id_correct:
  assumes "state_wf st"
  shows "get_job_mut_by_tako_task_id st t = Some (jid, j) \<longleftrightarrow>
    get_job st jid = Some j \<and>
    unat (base_task_id j) \<le> unat t \<and> unat t < unat (base_task_id j) + unat (n_tasks j)"
proof -
  have n: "unat (n_tasks j) = length (task_table j)" if "map_of (jobs st) jid = Some j"
    using state_wf_jobD(2) [OF assms that]
    by (simp add: job_wf_def n_tasks_table unat_of_nat take_bit_nat_eq_self)
  show ?thesis
    using found_owner [OF assms, of t jid j] find_owner [OF assms, of jid j t]
      owns_interval [of j t] state_wf_jobD(2) [OF assms, of jid j] n
    by (auto simp: get_job_def)
qed

theorem lookup_by_task_id_correct_witness:
  "get_job_mut_by_tako_task_id example_server 12 = Some (1, example_job)"
  using lookup_by_task_id_correct [OF example_server_wf, of 12 1 example_job]
  by (simp add: example_server_def example_job_def get_job_def n_tasks_def)

text \<open>
  Claim C8. The events of the backend refine the specification on the table of all tasks: an update that the
  backend may send changes the state of exactly the reported task as specified, succeeds and
  keeps the invariant.
\<close>

theorem process_task_update_refines:
  assumes "state_wf st" "tako_allows st (TaskUpdate t s)"
  shows "\<exists>st' ms. process_task_update now t s st = Inr (st', ms) \<and> state_wf st' \<and>
    task_view st' = set_task (update_target now s) t (task_view st) \<and> workers st' = workers st"
  using process_task_update_ok [OF assms, of now] only_jobs_workers by blast

theorem process_task_update_refines_witness:
  "\<exists>st' ms. process_task_update 200 11 TsFinished example_server = Inr (st', ms) \<and>
    task_view st' 11 = Some \<lparr>info_state = Finished 7 100 200, info_task_id = 6\<rparr>"
  using process_task_update_refines [OF example_server_wf, of 11 TsFinished 200]
  by (auto simp: task_is_running_def example_view set_task_def)



end
