(* ===== verification/Client.thy ===== *)
theory Client
  imports Server_State
begin

text \<open>
  The requests of clients: \<^verbatim>\<open>src/src/server/client.rs\<close>. A handler takes the state of
  the server to a new state, an answer and the control messages for the stream server. What is
  outside the program comes in the record \<open>Env\<close>: the validation of resource requests, the
  serialization of task bodies, the answers of the task backend and of the stream server. While
  a handler waits for an answer other tasks of the server run, so an answer comes with the state
  the server has by then.
\<close>

section \<open>The environment\<close>

record ('rr, 'q) Env =
  env_validate :: "'rr \<Rightarrow> bool"
  env_serialize :: "TaskBody \<Rightarrow> bstring option"
  env_tako :: "'rr FromGatewayMessage \<Rightarrow> ('rr, 'q) State \<Rightarrow> ('rr, 'q) State \<times> ToGatewayMessage"
  env_register :: "JobId \<Rightarrow> path \<Rightarrow> ('rr, 'q) State \<Rightarrow> ('rr, 'q) State \<times> bool"
  env_stats :: "('rr, 'q) State \<Rightarrow> ('rr, 'q) State \<times> StreamStats option"
  env_current_dir :: "path option"

type_synonym ('rr, 'q) reply =
  "(('rr, 'q) State \<times> 'rr ToClientMessage \<times> StreamServerControlMessage list) outcome"

section \<open>Constants and paths\<close>

definition HQ_JOB_ID :: string where "HQ_JOB_ID = ''HQ_JOB_ID''"
definition HQ_TASK_ID :: string where "HQ_TASK_ID = ''HQ_TASK_ID''"
definition HQ_SUBMIT_DIR :: string where "HQ_SUBMIT_DIR = ''HQ_SUBMIT_DIR''"
definition HQ_ENTRY :: string where "HQ_ENTRY = ''HQ_ENTRY''"

text \<open>\<^verbatim>\<open>Path::join\<close>: an absolute path replaces the base.\<close>

definition path_join :: "path \<Rightarrow> path \<Rightarrow> path" where
  "path_join base p =
     (if take 1 p = ''/'' then p
      else if base = [] \<or> last base = CHR ''/'' then base @ p
      else base @ ''/'' @ p)"

section \<open>Workers\<close>

text \<open>
  The loop over the workers to stop. The branch for a failed transport is absent:
  \<open>send_tako_message\<close> has no error result.
\<close>

fun stop_workers ::
  "('rr, 'q) Env \<Rightarrow> WorkerId list \<Rightarrow> ('rr, 'q) State \<Rightarrow>
   (('rr, 'q) State \<times> (WorkerId \<times> StopWorkerResponse) list) outcome" where
  "stop_workers env [] st = Inr (st, [])"
| "stop_workers env (w # ws) st =
     (case get_worker st w of
        None \<Rightarrow>
          try_bind (stop_workers env ws st) (\<lambda>(st', rs). Inr (st', (w, SwInvalidWorker) # rs))
      | Some worker \<Rightarrow>
          if wi_ended (make_info worker) \<noteq> None then
            try_bind (stop_workers env ws st) (\<lambda>(st', rs). Inr (st', (w, SwAlreadyStopped) # rs))
          else
            (case env_tako env (StopWorker w) st of
               (st1, WorkerStopped) \<Rightarrow>
                 try_bind (stop_workers env ws st1) (\<lambda>(st', rs). Inr (st', (w, SwStopped) # rs))
             | (st1, GatewayError message) \<Rightarrow>
                 try_bind (stop_workers env ws st1) (\<lambda>(st', rs). Inr (st', (w, SwFailed message) # rs))
             | _ \<Rightarrow> Inl Explicit_panic))"

definition online_workers :: "('rr, 'q) State \<Rightarrow> WorkerId list" where
  "online_workers st =
     map worker_id (filter (\<lambda>w. wi_ended (make_info w) = None) (map snd (workers st)))"

definition handle_worker_stop ::
  "('rr, 'q) Env \<Rightarrow> Selector \<Rightarrow> ('rr, 'q) State \<Rightarrow> ('rr, 'q) reply" where
  "handle_worker_stop env selector st =
     (case selector of
        Specific array \<Rightarrow>
          try_bind (IntArray_iter array) (\<lambda>ids.
            try_bind (stop_workers env ids st) (\<lambda>(st', rs). Inr (st', StopWorkerResponses rs, [])))
      | All \<Rightarrow>
          try_bind (stop_workers env (online_workers st) st)
            (\<lambda>(st', rs). Inr (st', StopWorkerResponses rs, []))
      | LastN _ \<Rightarrow> Inr (st, ErrorResponse ''Invalid command was provided'', []))"

definition handle_worker_list :: "('rr, 'q) State \<Rightarrow> 'rr ToClientMessage" where
  "handle_worker_list st = WorkerListResponse (map (\<lambda>w. make_info (snd w)) (workers st))"

definition handle_worker_info :: "WorkerId \<Rightarrow> ('rr, 'q) State \<Rightarrow> 'rr ToClientMessage" where
  "handle_worker_info w st = WorkerInfoResponse (map_option make_info (get_worker st w))"

section \<open>Queries\<close>

definition detail_job_ids :: "Selector \<Rightarrow> ('rr, 'q) State \<Rightarrow> JobId list outcome" where
  "detail_job_ids selector st =
     (case selector of
        All \<Rightarrow> Inr (map job_id (jobs_values st))
      | LastN n \<Rightarrow> Inr (last_n_ids st n)
      | Specific array \<Rightarrow> IntArray_iter array)"

definition compute_job_detail ::
  "date \<Rightarrow> Selector \<Rightarrow> bool \<Rightarrow> ('rr, 'q) State \<Rightarrow> 'rr ToClientMessage outcome" where
  "compute_job_detail now selector include_tasks st =
     try_bind (detail_job_ids selector st) (\<lambda>ids.
       Inr (JobDetailResponse
         (map (\<lambda>i. (i, map_option (\<lambda>j. make_job_detail now j include_tasks) (get_job st i))) ids)))"

definition compose_server_stats :: "('rr, 'q) Env \<Rightarrow> ('rr, 'q) State \<Rightarrow> ('rr, 'q) reply" where
  "compose_server_stats env st =
     (case env_stats env st of
        (st', stats) \<Rightarrow>
          try_bind (unwrap stats) (\<lambda>s. Inr (st', StatsResponse s, [StreamStatsRequest])))"

definition compute_job_info :: "Selector \<Rightarrow> ('rr, 'q) State \<Rightarrow> 'rr ToClientMessage outcome" where
  "compute_job_info selector st =
     (case selector of
        All \<Rightarrow> Inr (JobInfoResponse (map make_job_info (jobs_values st)))
      | LastN n \<Rightarrow>
          Inr (JobInfoResponse (map make_job_info (List.map_filter (get_job st) (last_n_ids st n))))
      | Specific array \<Rightarrow>
          try_bind (IntArray_iter array) (\<lambda>ids.
            Inr (JobInfoResponse (map make_job_info (List.map_filter (get_job st) ids)))))"

section \<open>Cancellation\<close>

fun active_job_ids :: "'rr Job list \<Rightarrow> JobId list outcome" where
  "active_job_ids [] = Inr []"
| "active_job_ids (j # js) =
     try_bind (job_status (make_job_info j)) (\<lambda>s.
       try_bind (active_job_ids js) (\<lambda>ids.
         Inr (if s = StWaiting \<or> s = StRunning then ji_id (make_job_info j) # ids else ids)))"

text \<open>One pass of the loop of \<open>handle_job_cancel\<close>.\<close>

definition cancel_job ::
  "('rr, 'q) Env \<Rightarrow> date \<Rightarrow> JobId \<Rightarrow> ('rr, 'q) State \<Rightarrow>
   (('rr, 'q) State \<times> CancelJobResponse \<times> StreamServerControlMessage list) outcome" where
  "cancel_job env now jid st =
     (case get_job st jid of
        None \<Rightarrow> Inr (st, CjInvalidJob, [])
      | Some job \<Rightarrow>
          (let tako_task_ids = non_finished_task_ids job
           in if tako_task_ids = [] then Inr (st, CjCanceled [] (n_tasks job), [])
              else
                (case env_tako env (CancelTasks tako_task_ids) st of
                   (st1, CancelTasksResponse canceled_tasks) \<Rightarrow>
                     try_bind (unwrap (get_job st1 jid)) (\<lambda>job1.
                       try_bind (cancel_tasks now canceled_tasks job1) (\<lambda>(canceled_ids, job2, ms).
                         Inr (put_job jid job2 st1,
                              CjCanceled canceled_ids
                                (n_tasks job2 - of_nat (length canceled_ids)), ms)))
                 | (st1, GatewayError message) \<Rightarrow> Inr (st1, CjFailed message, [])
                 | _ \<Rightarrow> Inl Explicit_panic)))"

fun cancel_jobs ::
  "('rr, 'q) Env \<Rightarrow> date \<Rightarrow> JobId list \<Rightarrow> ('rr, 'q) State \<Rightarrow>
   (('rr, 'q) State \<times> (JobId \<times> CancelJobResponse) list \<times> StreamServerControlMessage list) outcome" where
  "cancel_jobs env now [] st = Inr (st, [], [])"
| "cancel_jobs env now (jid # jids) st =
     try_bind (cancel_job env now jid st) (\<lambda>(st1, r, ms1).
       try_bind (cancel_jobs env now jids st1) (\<lambda>(st2, rs, ms2).
         Inr (st2, (jid, r) # rs, ms1 @ ms2)))"

definition cancel_job_ids :: "Selector \<Rightarrow> ('rr, 'q) State \<Rightarrow> JobId list outcome" where
  "cancel_job_ids selector st =
     (case selector of
        All \<Rightarrow> active_job_ids (jobs_values st)
      | LastN n \<Rightarrow> Inr (last_n_ids st n)
      | Specific array \<Rightarrow> IntArray_iter array)"

definition handle_job_cancel ::
  "('rr, 'q) Env \<Rightarrow> date \<Rightarrow> Selector \<Rightarrow> ('rr, 'q) State \<Rightarrow> ('rr, 'q) reply" where
  "handle_job_cancel env now selector st =
     try_bind (cancel_job_ids selector st) (\<lambda>ids.
       try_bind (cancel_jobs env now ids st) (\<lambda>(st', rs, ms). Inr (st', CancelJobResponses rs, ms)))"

section \<open>Submission\<close>

definition make_program_def_for_task ::
  "ProgramDefinition \<Rightarrow> JobId \<Rightarrow> JobTaskId \<Rightarrow> path \<Rightarrow> ProgramDefinition" where
  "make_program_def_for_task program_def jid task_id submit_dir =
     (let e1 = fst (hm_insert HQ_JOB_ID (show_u32 jid) (pd_env program_def));
          e2 = fst (hm_insert HQ_TASK_ID (show_u32 task_id) e1);
          e3 = fst (hm_insert HQ_SUBMIT_DIR submit_dir e2)
      in program_def\<lparr>pd_env := e3\<rparr>)"

definition task_body ::
  "'rr SubmitRequest \<Rightarrow> JobId \<Rightarrow> JobTaskId \<Rightarrow> bstring option \<Rightarrow> TaskBody" where
  "task_body msg jid task_id entry =
     (let program = make_program_def_for_task (sr_spec msg) jid task_id (sr_submit_dir msg);
          program1 =
            (case entry of
               None \<Rightarrow> program
             | Some e \<Rightarrow> program\<lparr>pd_env := fst (hm_insert HQ_ENTRY e (pd_env program))\<rparr>)
      in \<lparr>tb_program = program1, tb_pin = sr_pin msg, tb_job_id = jid, tb_task_id = task_id\<rparr>)"

definition make_task ::
  "('rr, 'q) Env \<Rightarrow> 'rr SubmitRequest \<Rightarrow> JobId \<Rightarrow> JobTaskId \<Rightarrow> TakoTaskId \<Rightarrow> bstring option \<Rightarrow>
   'rr TaskDef outcome" where
  "make_task env msg jid task_id tako_id entry =
     try_bind (unwrap (env_serialize env (task_body msg jid task_id entry))) (\<lambda>body.
       Inr \<lparr>td_id = tako_id, td_resources = sr_resources msg, td_n_outputs = 0,
            td_time_limit = sr_time_limit msg, td_type_id = 0, td_body = body,
            td_keep = False, td_observe = True, td_priority = sr_priority msg\<rparr>)"

fun collect_tasks :: "'rr TaskDef outcome list \<Rightarrow> 'rr TaskDef list outcome" where
  "collect_tasks [] = Inr []"
| "collect_tasks (t # ts) =
     try_bind t (\<lambda>x. try_bind (collect_tasks ts) (\<lambda>xs. Inr (x # xs)))"

definition from_base :: "TakoTaskId \<Rightarrow> JobTaskId list \<Rightarrow> (JobTaskId \<times> TakoTaskId) list" where
  "from_base base ids = map (\<lambda>(i, task_id). (task_id, base + of_nat i)) (enumerate 0 ids)"

definition make_task_defs ::
  "('rr, 'q) Env \<Rightarrow> 'rr SubmitRequest \<Rightarrow> JobId \<Rightarrow> TakoTaskId \<Rightarrow> 'rr TaskDef list outcome" where
  "make_task_defs env msg jid base =
     (case (sr_job_type msg, sr_entries msg) of
        (Simple, _) \<Rightarrow> collect_tasks [make_task env msg jid 0 base None]
      | (Array a, None) \<Rightarrow>
          try_bind (IntArray_iter a) (\<lambda>ids.
            collect_tasks (map (\<lambda>(task_id, tako_id). make_task env msg jid task_id tako_id None)
              (from_base base ids)))
      | (Array a, Some entries) \<Rightarrow>
          try_bind (IntArray_iter a) (\<lambda>ids.
            collect_tasks
              (map (\<lambda>((task_id, tako_id), entry). make_task env msg jid task_id tako_id (Some entry))
                (zip (from_base base ids) entries))))"

definition submit_task_count :: "JobType \<Rightarrow> JobTaskCount" where
  "submit_task_count jt = (case jt of Simple \<Rightarrow> 1 | Array a \<Rightarrow> id_count a)"

text \<open>The part of \<open>handle_submit\<close> that holds the state: identifiers, tasks and the new job.\<close>

definition register_job ::
  "('rr, 'q) Env \<Rightarrow> date \<Rightarrow> 'rr SubmitRequest \<Rightarrow> ('rr, 'q) State \<Rightarrow>
   (('rr, 'q) State \<times> 'rr TaskDef list \<times> 'rr JobDetail \<times> JobId) outcome" where
  "register_job env now msg st =
     (case new_job_id st of
        (jid, st1) \<Rightarrow>
          (case new_task_id (submit_task_count (sr_job_type msg)) st1 of
             (base, st2) \<Rightarrow>
               try_bind (make_task_defs env msg jid base) (\<lambda>task_defs.
                 try_bind (Job_new now (sr_job_type msg) jid base (sr_name msg) (sr_spec msg)
                     (sr_resources msg) (sr_pin msg) (sr_max_fails msg) (sr_entries msg)
                     (sr_priority msg) (sr_time_limit msg) (sr_log msg)) (\<lambda>job.
                   try_bind (add_job job st2) (\<lambda>st3.
                     Inr (st3, task_defs, make_job_detail now job False, jid))))))"

definition register_log ::
  "('rr, 'q) Env \<Rightarrow> JobId \<Rightarrow> path \<Rightarrow> path option \<Rightarrow> ('rr, 'q) State \<Rightarrow>
   (('rr, 'q) State \<times> StreamServerControlMessage list) outcome" where
  "register_log env jid submit_dir log_path st =
     (case log_path of
        None \<Rightarrow> Inr (st, [])
      | Some l \<Rightarrow>
          (case env_register env jid (path_join submit_dir l) st of
             (st', ok) \<Rightarrow>
               if ok then Inr (st', [RegisterStream jid (path_join submit_dir l)])
               else Inl Assert_failed))"

definition handle_submit ::
  "('rr, 'q) Env \<Rightarrow> date \<Rightarrow> 'rr SubmitRequest \<Rightarrow> ('rr, 'q) State \<Rightarrow> ('rr, 'q) reply" where
  "handle_submit env now msg st =
     (if \<not> env_validate env (sr_resources msg)
      then Inr (st, ErrorResponse ''Invalid resource request'', [])
      else
        try_bind (register_job env now msg st) (\<lambda>(st1, task_defs, detail, jid).
          try_bind (register_log env jid (sr_submit_dir msg) (sr_log msg) st1) (\<lambda>(st2, ms).
            case env_tako env (NewTasks task_defs) st2 of
              (st3, NewTasksResponse) \<Rightarrow> Inr (st3, SubmitResponse detail, ms)
            | _ \<Rightarrow> Inl Explicit_panic)))"

definition resubmit_job_type :: "Status list option \<Rightarrow> JobState \<Rightarrow> JobType option" where
  "resubmit_job_type status s =
     (case s of
        SingleTask t \<Rightarrow>
          (case status of
             Some flt \<Rightarrow> if task_status t \<in> set flt then Some Simple else None
           | None \<Rightarrow> Some Simple)
      | ManyTasks m \<Rightarrow>
          (let ids =
             (case status of
                Some flt \<Rightarrow>
                  List.map_filter
                    (\<lambda>v. if task_status (info_state v) \<in> set flt then Some (info_task_id v) else None)
                    (map snd m)
              | None \<Rightarrow> map info_task_id (map snd m))
           in if ids = [] then None else Some (Array (from_ids (sort ids)))))"

definition resubmit_request :: "path \<Rightarrow> JobType \<Rightarrow> 'rr Job \<Rightarrow> 'rr SubmitRequest" where
  "resubmit_request dir jt job =
     \<lparr>sr_job_type = jt, sr_name = job_name job, sr_max_fails = job_max_fails job,
      sr_spec = job_program_def job, sr_resources = job_resources job, sr_pin = job_pin job,
      sr_entries = job_entries job, sr_submit_dir = dir, sr_priority = job_priority job,
      sr_time_limit = job_time_limit job, sr_log = None\<rparr>"

definition handle_resubmit ::
  "('rr, 'q) Env \<Rightarrow> date \<Rightarrow> ResubmitRequest \<Rightarrow> ('rr, 'q) State \<Rightarrow> ('rr, 'q) reply" where
  "handle_resubmit env now msg st =
     (case get_job st (rr_job_id msg) of
        None \<Rightarrow> Inr (st, ErrorResponse ''Invalid job_id'', [])
      | Some job \<Rightarrow>
          (case resubmit_job_type (rr_status msg) (job_state job) of
             None \<Rightarrow> Inr (st, ErrorResponse ''Nothing was resubmitted'', [])
           | Some jt \<Rightarrow>
               try_bind (unwrap (env_current_dir env)) (\<lambda>dir.
                 handle_submit env now (resubmit_request dir jt job) st)))"

section \<open>The loop over the messages of a client\<close>

text \<open>\<open>None\<close> is the message \<^verbatim>\<open>Stop\<close>, which ends the loop without an answer.\<close>

definition handle_message ::
  "('rr, 'q) Env \<Rightarrow> date \<Rightarrow> 'rr FromClientMessage \<Rightarrow> ('rr, 'q) State \<Rightarrow> ('rr, 'q) reply option" where
  "handle_message env now msg st =
     (case msg of
        Submit m \<Rightarrow> Some (handle_submit env now m st)
      | JobInfoReq sel \<Rightarrow> Some (try_bind (compute_job_info sel st) (\<lambda>r. Inr (st, r, [])))
      | Resubmit m \<Rightarrow> Some (handle_resubmit env now m st)
      | Stop \<Rightarrow> None
      | WorkerList \<Rightarrow> Some (Inr (st, handle_worker_list st, []))
      | WorkerInfoReq w \<Rightarrow> Some (Inr (st, handle_worker_info w st, []))
      | StopWorkerReq sel \<Rightarrow> Some (handle_worker_stop env sel st)
      | Cancel sel \<Rightarrow> Some (handle_job_cancel env now sel st)
      | JobDetailReq sel include_tasks \<Rightarrow>
          Some (try_bind (compute_job_detail now sel include_tasks st) (\<lambda>r. Inr (st, r, [])))
      | Stats \<Rightarrow> Some (compose_server_stats env st))"

text \<open>
  A connection: the messages in order, an unreadable one as its error. The result has the
  answers sent and whether the server was told to stop. The channel to the client accepts every
  answer; between two messages the state changes by \<open>between\<close>.
\<close>

fun client_rpc_loop ::
  "('rr, 'q) Env \<Rightarrow> (('rr, 'q) State \<Rightarrow> ('rr, 'q) State) \<Rightarrow> date \<Rightarrow> (string + 'rr FromClientMessage) list \<Rightarrow>
   ('rr, 'q) State \<Rightarrow>
   (('rr, 'q) State \<times> 'rr ToClientMessage list \<times> StreamServerControlMessage list \<times> bool) outcome" where
  "client_rpc_loop env between now [] st = Inr (st, [], [], False)"
| "client_rpc_loop env between now (Inl e # _) st =
     Inr (st, [ErrorResponse (''Cannot parse message: '' @ e)], [], False)"
| "client_rpc_loop env between now (Inr msg # msgs) st =
     (case handle_message env now msg (between st) of
        None \<Rightarrow> Inr (between st, [], [], True)
      | Some r \<Rightarrow>
          try_bind r (\<lambda>(st1, response, ms1).
            try_bind (client_rpc_loop env between now msgs st1) (\<lambda>(st2, rs, ms2, stop).
              Inr (st2, response # rs, ms1 @ ms2, stop))))"

section \<open>Facts on submission\<close>

definition task_def ::
  "('rr, 'q) Env \<Rightarrow> 'rr SubmitRequest \<Rightarrow> JobId \<Rightarrow> JobTaskId \<Rightarrow> TakoTaskId \<Rightarrow> bstring option \<Rightarrow> 'rr TaskDef" where
  "task_def env msg jid task_id tako_id entry =
     \<lparr>td_id = tako_id, td_resources = sr_resources msg, td_n_outputs = 0,
      td_time_limit = sr_time_limit msg, td_type_id = 0,
      td_body = the (env_serialize env (task_body msg jid task_id entry)),
      td_keep = False, td_observe = True, td_priority = sr_priority msg\<rparr>"

lemma collect_tasks_Inr: "collect_tasks (map (\<lambda>x. Inr (g x)) xs) = Inr (map g xs)"
  by (induction xs) simp_all

text \<open>The pairs that the submission makes tasks of: a task of the job and its entry.\<close>

definition submitted :: "'rr SubmitRequest \<Rightarrow> JobTaskId list \<Rightarrow> (JobTaskId \<times> bstring option) list" where
  "submitted msg ids =
     (case (sr_job_type msg, sr_entries msg) of
        (Array _, Some entries) \<Rightarrow> zip ids (map Some entries)
      | _ \<Rightarrow> map (\<lambda>i. (i, None)) ids)"

definition submitted_ids :: "JobType \<Rightarrow> JobTaskId list outcome" where
  "submitted_ids jt = (case jt of Simple \<Rightarrow> Inr [0] | Array a \<Rightarrow> IntArray_iter a)"

lemma make_task_defs_ok:
  assumes "\<forall>b. env_serialize env b \<noteq> None" "submitted_ids (sr_job_type msg) = Inr ids"
  shows "make_task_defs env msg jid base =
    Inr (map (\<lambda>(i, task_id, entry). task_def env msg jid task_id (base + of_nat i) entry)
      (enumerate 0 (submitted msg ids)))"
proof -
  have mt: "make_task env msg jid task_id tako_id entry =
      Inr (task_def env msg jid task_id tako_id entry)" for task_id tako_id entry
    using assms(1) [rule_format, of "task_body msg jid task_id entry"]
    by (auto simp: make_task_def task_def_def)
  show ?thesis
  proof (cases "sr_job_type msg")
    case Simple
    with assms(2) show ?thesis
      by (auto simp: make_task_defs_def submitted_def submitted_ids_def mt)
  next
    case (Array a)
    with assms(2) have ids: "IntArray_iter a = Inr ids" by (simp add: submitted_ids_def)
    show ?thesis
    proof (cases "sr_entries msg")
      case None
      have "map (\<lambda>(task_id, tako_id). make_task env msg jid task_id tako_id None) (from_base base ids) =
        map (\<lambda>x. Inr ((\<lambda>(i, task_id, entry). task_def env msg jid task_id (base + of_nat i) entry) x))
          (enumerate 0 (map (\<lambda>i. (i, None)) ids))"
        by (rule nth_equalityI) (simp_all add: from_base_def nth_enumerate_eq mt)
      with None Array ids show ?thesis
        by (simp only: make_task_defs_def submitted_def collect_tasks_Inr prod.case
            JobType.case option.case try_bind_simps)
    next
      case (Some entries)
      have "map (\<lambda>((task_id, tako_id), entry). make_task env msg jid task_id tako_id (Some entry))
          (zip (from_base base ids) entries) =
        map (\<lambda>x. Inr ((\<lambda>(i, task_id, entry). task_def env msg jid task_id (base + of_nat i) entry) x))
          (enumerate 0 (zip ids (map Some entries)))"
        by (rule nth_equalityI) (simp_all add: from_base_def nth_enumerate_eq mt)
      with Some Array ids show ?thesis
        by (simp only: make_task_defs_def submitted_def collect_tasks_Inr prod.case
            JobType.case option.case try_bind_simps)
    qed
  qed
qed

definition job_type_ok :: "JobType \<Rightarrow> bool" where
  "job_type_ok jt = (case jt of Simple \<Rightarrow> True | Array a \<Rightarrow> array_ok a)"

definition job_type_fits :: "JobType \<Rightarrow> ('rr, 'q) State \<Rightarrow> bool" where
  "job_type_fits jt st \<longleftrightarrow> job_type_ok jt \<and> unat (job_id_counter st) + 1 < 2 ^ 32 \<and>
     unat (task_id_counter st) + unat (submit_task_count jt) < 2 ^ 64"

lemma job_type_ids:
  assumes "job_type_ok jt"
  obtains ids where "new_task_ids jt = Inr ids" "ids \<noteq> []"
    "length ids \<le> unat (submit_task_count jt)"
proof (cases jt)
  case Simple
  then show thesis using that [of "[0]"] by (simp add: new_task_ids_def submit_task_count_def)
next
  case (Array a)
  then have ok: "array_ok a" using assms by (simp add: job_type_ok_def)
  show thesis
  proof (cases "id_count a = 1")
    case True
    with Array show thesis
      using that [of "[0]"] by (simp add: new_task_ids_def submit_task_count_def)
  next
    case False
    with Array iter_array_ok [OF ok] array_ids_count [OF ok] show thesis
      using that by (simp add: new_task_ids_def submit_task_count_def)
  qed
qed

lemma submitted_ids_ok:
  assumes "job_type_ok jt"
  shows "\<exists>ids. submitted_ids jt = Inr ids"
  using assms iter_array_ok by (auto simp: job_type_ok_def submitted_ids_def split: JobType.splits)

lemma counters_update_wf:
  assumes "state_wf st" "unat (job_id_counter st) \<le> unat jc" "unat (task_id_counter st) \<le> unat tc"
  shows "state_wf (st\<lparr>job_id_counter := jc, task_id_counter := tc\<rparr>)"
proof -
  let ?s = "st\<lparr>job_id_counter := jc, task_id_counter := tc\<rparr>"
  have "job_id j = jid \<and> job_wf j \<and> task_table j \<noteq> [] \<and>
      unat jid < unat (job_id_counter ?s) \<and> end_task j \<le> unat (task_id_counter ?s)"
    if "map_of (jobs ?s) jid = Some j" for jid j
    using state_wf_jobD [OF assms(1), of jid j] that assms(2,3) by simp
  with assms(1) show ?thesis by (simp add: state_wf_def)
qed

lemma job_id_fresh:
  assumes "state_wf st"
  shows "map_of (jobs st) (job_id_counter st) = None"
  using state_wf_jobD(4) [OF assms, of "job_id_counter st"]
  by (cases "map_of (jobs st) (job_id_counter st)") auto

lemma register_job_ok:
  assumes "state_wf st" "\<forall>b. env_serialize env b \<noteq> None" "job_type_fits (sr_job_type msg) st"
    and "submitted_ids (sr_job_type msg) = Inr sids" "new_task_ids (sr_job_type msg) = Inr ids"
  shows "\<exists>st' j. register_job env now msg st = Inr (st',
      map (\<lambda>(i, task_id, entry). task_def env msg (job_id_counter st) task_id
            (task_id_counter st + of_nat i) entry) (enumerate 0 (submitted msg sids)),
      make_job_detail now j False, job_id_counter st) \<and>
    state_wf st' \<and> map_of (jobs st') = (map_of (jobs st))(job_id_counter st \<mapsto> j) \<and>
    workers st' = workers st \<and> job_log j = sr_log msg \<and>
    task_table j = initial_tasks (task_id_counter st) ids"
proof -
  let ?jt = "sr_job_type msg" and ?jid = "job_id_counter st" and ?base = "task_id_counter st"
  let ?tc = "?base + ucast (submit_task_count ?jt)"
  define st2 where "st2 = st\<lparr>job_id_counter := ?jid + 1, task_id_counter := ?tc\<rparr>"
  have ok: "job_type_ok ?jt" "unat ?jid + 1 < 2 ^ 32"
    "unat ?base + unat (submit_task_count ?jt) < 2 ^ 64"
    using assms(3) by (simp_all add: job_type_fits_def)
  obtain "ids \<noteq> []" and len: "length ids \<le> unat (submit_task_count ?jt)"
    using job_type_ids [OF ok(1)] assms(5) by auto
  have jc: "unat (?jid + 1) = unat ?jid + 1" using ok(2) by (simp add: unat_word_ariths)
  have tc: "unat ?tc = unat ?base + unat (submit_task_count ?jt)"
    using ok(3) by (simp add: unat_word_ariths unat_ucast_u64)
  have b64: "unat ?base + length ids \<le> 2 ^ 64" using ok(3) len by linarith
  have b32: "length ids < 2 ^ 32"
    using len unsigned_less [where 'a = nat, of "submit_task_count ?jt"] by simp
  have wf2: "state_wf st2"
    unfolding st2_def using jc tc by (intro counters_update_wf [OF assms(1)]) simp_all
  let ?new = "Job_new now ?jt ?jid ?base (sr_name msg) (sr_spec msg) (sr_resources msg)
    (sr_pin msg) (sr_max_fails msg) (sr_entries msg) (sr_priority msg) (sr_time_limit msg)
    (sr_log msg)"
  obtain j where j: "?new = Inr j"
    using assms(5)
    by (cases "IntArray_iter (case ?jt of Array a \<Rightarrow> a | Simple \<Rightarrow> \<lparr>ranges = []\<rparr>)")
      (auto simp: Job_new_def new_job_state_def new_task_ids_def split: JobType.splits if_splits)
  have tab: "task_table j = initial_tasks ?base ids"
    using Job_new_table [OF j] assms(5) b64 by auto
  have wfj: "job_wf j" using Job_new_wf [OF j] assms(5) b64 b32 by auto
  have f: "job_id j = ?jid" "base_task_id j = ?base" "job_log j = sr_log msg"
    using j by (auto simp: Job_new_def elim: try_bind_InrE)
  have "\<exists>st'. add_job j st2 = Inr st' \<and> state_wf st' \<and>
      map_of (jobs st') = (map_of (jobs st2))(job_id j \<mapsto> j) \<and> workers st' = workers st2 \<and>
      job_id_counter st' = job_id_counter st2 \<and> task_id_counter st' = task_id_counter st2"
  proof (rule add_job_ok [OF wf2 wfj])
    show "task_table j \<noteq> []" using tab \<open>ids \<noteq> []\<close> by (metis length_0_conv length_initial_tasks)
    show "unat (job_id j) < unat (job_id_counter st2)" by (simp add: f st2_def jc)
    show "end_task j \<le> unat (task_id_counter st2)"
      using len tc by (simp add: f tab st2_def)
    show "map_of (jobs st2) (job_id j) = None"
      using job_id_fresh [OF assms(1)] by (simp add: f st2_def)
    show "end_task k \<le> first_task j" if "map_of (jobs st2) x = Some k" for x k
      using state_wf_jobD(5) [OF assms(1), of x k] that by (simp add: st2_def f)
  qed
  then obtain st' where st': "add_job j st2 = Inr st'" "state_wf st'"
    "map_of (jobs st') = (map_of (jobs st))(?jid \<mapsto> j)" "workers st' = workers st"
    by (auto simp: f st2_def)
  with j tab f(3) show ?thesis
    by (intro exI [of _ st'] exI [of _ j])
      (simp add: register_job_def new_job_id_def new_task_id_def st2_def
        make_task_defs_ok [OF assms(2,4)])
qed

section \<open>What the handlers rely on\<close>

text \<open>
  The answers of the task backend and of the stream server: whatever runs while a handler waits
  keeps the invariant, jobs are never removed, new tasks are accepted, the tasks reported as
  cancelled are tasks of the job that are not finished, each once.
\<close>

definition cancel_answer_ok ::
  "JobId \<Rightarrow> ('rr, 'q) State \<times> ToGatewayMessage \<Rightarrow> bool" where
  "cancel_answer_ok jid a \<longleftrightarrow> state_wf (fst a) \<and>
     (case snd a of
        GatewayError _ \<Rightarrow> True
      | CancelTasksResponse cs \<Rightarrow>
          (case get_job (fst a) jid of
             None \<Rightarrow> False
           | Some j \<Rightarrow> distinct cs \<and> set cs \<subseteq> set (non_finished_task_ids j))
      | _ \<Rightarrow> False)"

definition env_ok :: "('rr, 'q) Env \<Rightarrow> bool" where
  "env_ok env \<longleftrightarrow>
     (\<forall>b. env_serialize env b \<noteq> None) \<and>
     (\<forall>ts st. state_wf st \<longrightarrow> state_wf (fst (env_tako env (NewTasks ts) st)) \<and>
        snd (env_tako env (NewTasks ts) st) = NewTasksResponse) \<and>
     (\<forall>w st. state_wf st \<longrightarrow> state_wf (fst (env_tako env (StopWorker w) st)) \<and>
        (snd (env_tako env (StopWorker w) st) = WorkerStopped \<or>
         (\<exists>e. snd (env_tako env (StopWorker w) st) = GatewayError e))) \<and>
     (\<forall>st jid j. state_wf st \<longrightarrow> get_job st jid = Some j \<longrightarrow>
        cancel_answer_ok jid (env_tako env (CancelTasks (non_finished_task_ids j)) st)) \<and>
     (\<forall>jid p st. state_wf st \<longrightarrow> state_wf (fst (env_register env jid p st)) \<and>
        snd (env_register env jid p st)) \<and>
     (\<forall>st. state_wf st \<longrightarrow> state_wf (fst (env_stats env st)) \<and> snd (env_stats env st) \<noteq> None) \<and>
     env_current_dir env \<noteq> None"

lemma non_finished_open:
  assumes "job_wf j"
  shows "t \<in> set (non_finished_task_ids j) \<longleftrightarrow> open_task j t"
proof -
  have "distinct (map fst (task_table j))" using assms by (simp add: job_wf_def)
  then show ?thesis
    by (auto simp: non_finished_task_ids_table intro!: image_eqI dest: map_of_SomeD)
qed

section \<open>The handlers are safe\<close>

lemma env_okD:
  assumes "env_ok env"
  shows "\<forall>b. env_serialize env b \<noteq> None" "env_current_dir env \<noteq> None"
    "state_wf st \<Longrightarrow> state_wf (fst (env_tako env (NewTasks ts) st))"
    "state_wf st \<Longrightarrow> snd (env_tako env (NewTasks ts) st) = NewTasksResponse"
    "state_wf st \<Longrightarrow> state_wf (fst (env_tako env (StopWorker w) st))"
    "state_wf st \<Longrightarrow> snd (env_tako env (StopWorker w) st) = WorkerStopped \<or>
       (\<exists>e. snd (env_tako env (StopWorker w) st) = GatewayError e)"
    "state_wf st \<Longrightarrow> get_job st jid = Some j \<Longrightarrow>
       cancel_answer_ok jid (env_tako env (CancelTasks (non_finished_task_ids j)) st)"
    "state_wf st \<Longrightarrow> state_wf (fst (env_register env jid p st))"
    "state_wf st \<Longrightarrow> snd (env_register env jid p st)"
    "state_wf st \<Longrightarrow> state_wf (fst (env_stats env st))"
    "state_wf st \<Longrightarrow> snd (env_stats env st) \<noteq> None"
  using assms unfolding env_ok_def by simp_all

lemma register_log_ok:
  assumes "env_ok env" "state_wf st"
  shows "\<exists>st' ms. register_log env jid dir lg st = Inr (st', ms) \<and> state_wf st' \<and>
    ms = (case lg of None \<Rightarrow> [] | Some l \<Rightarrow> [RegisterStream jid (path_join dir l)])"
  using assms env_okD(8,9) [OF assms]
  by (cases lg) (simp_all add: register_log_def case_prod_unfold)

lemma handle_submit_ok:
  assumes "env_ok env" "state_wf st" "job_type_fits (sr_job_type msg) st"
  shows "\<exists>st' r ms. handle_submit env now msg st = Inr (st', r, ms) \<and> state_wf st'"
proof (cases "env_validate env (sr_resources msg)")
  case True
  have ok: "job_type_ok (sr_job_type msg)" using assms(3) by (simp add: job_type_fits_def)
  obtain sids ids where "submitted_ids (sr_job_type msg) = Inr sids"
    "new_task_ids (sr_job_type msg) = Inr ids"
    using submitted_ids_ok [OF ok] job_type_ids [OF ok] by metis
  from register_job_ok [OF assms(2) env_okD(1) [OF assms(1)] assms(3) this, of now]
  obtain st1 defs detail where r: "register_job env now msg st = Inr (st1, defs, detail, job_id_counter st)"
    "state_wf st1" by blast
  obtain st2 ms where l: "register_log env (job_id_counter st) (sr_submit_dir msg) (sr_log msg) st1 = Inr (st2, ms)"
    "state_wf st2"
    using register_log_ok [OF assms(1) r(2)] by blast
  obtain st3 where t: "env_tako env (NewTasks defs) st2 = (st3, NewTasksResponse)" "state_wf st3"
    using env_okD(3,4) [OF assms(1) l(2), of defs] by (metis prod.collapse)
  show ?thesis using True r l t by (simp add: handle_submit_def)
qed (use assms(2) in \<open>simp add: handle_submit_def\<close>)

lemma cancel_job_ok:
  assumes "env_ok env" "state_wf st"
  shows "\<exists>st' r ms. cancel_job env now jid st = Inr (st', r, ms) \<and> state_wf st'"
proof (cases "get_job st jid")
  case None
  then show ?thesis using assms(2) by (simp add: cancel_job_def)
next
  case (Some j)
  obtain st1 r where a: "env_tako env (CancelTasks (non_finished_task_ids j)) st = (st1, r)" by force
  have ok: "cancel_answer_ok jid (st1, r)" using env_okD(7) [OF assms Some] a by simp
  then have wf1: "state_wf st1" by (simp add: cancel_answer_ok_def)
  consider e where "r = GatewayError e" | cs j1 where "r = CancelTasksResponse cs"
      "get_job st1 jid = Some j1" "distinct cs" "set cs \<subseteq> set (non_finished_task_ids j1)"
    using ok by (auto simp: cancel_answer_ok_def split: ToGatewayMessage.splits option.splits)
  then show ?thesis
  proof cases
    case 1
    then show ?thesis using Some a wf1 assms(2) by (simp add: cancel_job_def Let_def)
  next
    case 2
    have j1: "map_of (jobs st1) jid = Some j1" using 2(2) by (simp add: get_job_def)
    note w = state_wf_jobD [OF wf1 j1]
    have "\<forall>t \<in> set cs. open_task j1 t" using 2(4) non_finished_open [OF w(2)] by blast
    from cancel_tasks_ok [OF w(2) 2(3) this, of now] obtain j2 ms where
      j2: "cancel_tasks now cs j1 = Inr (map (task_id_of j1) cs, j2, ms)" "job_wf j2"
        "same_config j1 j2" "owns j2 = owns j1" by blast
    have "state_wf (put_job jid j2 st1)"
      by (rule put_job_wf [OF wf1 j1 j2(2,3) owns_length [OF w(2) j2(2,4)]])
    then show ?thesis using Some a 2(1,2) j2(1) assms(2) by (simp add: cancel_job_def Let_def)
  qed
qed

lemma cancel_jobs_ok:
  assumes "env_ok env" "state_wf st"
  shows "\<exists>st' rs ms. cancel_jobs env now ids st = Inr (st', rs, ms) \<and> state_wf st' \<and>
    map fst rs = ids"
  using assms(2)
proof (induction ids arbitrary: st)
  case (Cons jid ids)
  obtain st1 r ms1 where 1: "cancel_job env now jid st = Inr (st1, r, ms1)" "state_wf st1"
    using cancel_job_ok [OF assms(1) Cons.prems] by blast
  from Cons.IH [OF 1(2)] 1(1) show ?case by force
qed simp

lemma stop_workers_ok:
  assumes "env_ok env" "state_wf st"
  shows "\<exists>st' rs. stop_workers env ws st = Inr (st', rs) \<and> state_wf st' \<and> map fst rs = ws"
  using assms(2)
proof (induction ws arbitrary: st)
  case (Cons w ws)
  obtain st1 r where a: "env_tako env (StopWorker w) st = (st1, r)" by force
  have wf1: "state_wf st1" and r: "r = WorkerStopped \<or> (\<exists>e. r = GatewayError e)"
    using env_okD(5,6) [OF assms(1) Cons.prems, of w] a by auto
  from Cons.IH [OF Cons.prems] obtain st2 rs where 2: "stop_workers env ws st = Inr (st2, rs)"
    "state_wf st2" "map fst rs = ws" by blast
  from Cons.IH [OF wf1] obtain st3 rs' where 3: "stop_workers env ws st1 = Inr (st3, rs')"
    "state_wf st3" "map fst rs' = ws" by blast
  show ?case
  proof (cases "get_worker st w")
    case None
    then show ?thesis using 2 by simp
  next
    case (Some x)
    then show ?thesis using 2 3 r a by (cases "wi_ended (make_info x)") auto
  qed
qed simp

lemma active_job_ids_ok:
  assumes "\<forall>j \<in> set js. job_wf j"
  shows "active_job_ids js = Inr (map job_id
    (filter (\<lambda>j. status_of (task_states j) = StWaiting \<or> status_of (task_states j) = StRunning) js))"
  using assms by (induction js) (auto simp: job_status_states, auto simp: make_job_info_def)

lemma jobs_values_wf:
  assumes "state_wf st" "j \<in> set (jobs_values st)"
  shows "job_wf j" "map_of (jobs st) (job_id j) = Some j"
proof -
  obtain jid where "(jid, j) \<in> set (jobs st)" using assms(2) by (auto simp: jobs_values_def)
  moreover have "distinct (map fst (jobs st))" using assms(1) by (simp add: state_wf_def)
  ultimately have j: "map_of (jobs st) jid = Some j" by simp
  show "job_wf j" "map_of (jobs st) (job_id j) = Some j"
    using state_wf_jobD(1,2) [OF assms(1) j] j by simp_all
qed

fun selector_ok :: "Selector \<Rightarrow> bool" where
  "selector_ok (Specific a) = (case IntArray_iter a of Inl _ \<Rightarrow> False | Inr _ \<Rightarrow> True)"
| "selector_ok _ = True"

text \<open>
  A request the server can take: its selector iterates, and the identifiers that a submission
  needs are not exhausted.
\<close>

definition message_ok :: "'rr FromClientMessage \<Rightarrow> ('rr, 'q) State \<Rightarrow> bool" where
  "message_ok msg st =
     (case msg of
        Submit m \<Rightarrow> job_type_fits (sr_job_type m) st
      | Resubmit m \<Rightarrow>
          (case get_job st (rr_job_id m) of
             None \<Rightarrow> True
           | Some j \<Rightarrow>
               (case resubmit_job_type (rr_status m) (job_state j) of
                  None \<Rightarrow> True
                | Some jt \<Rightarrow> job_type_fits jt st))
      | Cancel sel \<Rightarrow> selector_ok sel
      | JobDetailReq sel _ \<Rightarrow> selector_ok sel
      | JobInfoReq sel \<Rightarrow> selector_ok sel
      | StopWorkerReq sel \<Rightarrow> selector_ok sel
      | _ \<Rightarrow> True)"

lemma handle_message_ok:
  assumes "env_ok env" "state_wf st" "message_ok msg st" "handle_message env now msg st = Some r"
  shows "\<exists>st' resp ms. r = Inr (st', resp, ms) \<and> state_wf st'"
proof (cases msg)
  case (Submit m)
  with assms handle_submit_ok [OF assms(1,2), of m now] show ?thesis
    by (auto simp: handle_message_def message_ok_def)
next
  case (Resubmit m)
  show ?thesis
  proof (cases "get_job st (rr_job_id m)")
    case None
    with Resubmit assms show ?thesis by (auto simp: handle_message_def handle_resubmit_def)
  next
    case (Some j)
    show ?thesis
    proof (cases "resubmit_job_type (rr_status m) (job_state j)")
      case None
      with Some Resubmit assms show ?thesis by (auto simp: handle_message_def handle_resubmit_def)
    next
      case (Some jt)
      obtain dir where dir: "env_current_dir env = Some dir" using env_okD(2) [OF assms(1)] by blast
      have "job_type_fits (sr_job_type (resubmit_request dir jt j)) st"
        using assms(3) Resubmit Some \<open>get_job st (rr_job_id m) = Some j\<close>
        by (simp add: message_ok_def resubmit_request_def)
      from handle_submit_ok [OF assms(1,2) this, of now] show ?thesis
        using assms(4) Resubmit Some dir \<open>get_job st (rr_job_id m) = Some j\<close>
        by (auto simp: handle_message_def handle_resubmit_def)
    qed
  qed
next
  case (Cancel sel)
  have "\<exists>ids. cancel_job_ids sel st = Inr ids"
    using assms(3) Cancel active_job_ids_ok [of "jobs_values st"] jobs_values_wf(1) [OF assms(2)]
    by (auto simp: cancel_job_ids_def message_ok_def split: Selector.splits sum.splits)
  then obtain ids where ids: "cancel_job_ids sel st = Inr ids" by blast
  from cancel_jobs_ok [OF assms(1,2), of now ids] ids Cancel assms(4) show ?thesis
    by (auto simp: handle_message_def handle_job_cancel_def)
next
  case (JobDetailReq sel b)
  then have "\<exists>ids. detail_job_ids sel st = Inr ids"
    using assms(3) by (auto simp: detail_job_ids_def message_ok_def split: Selector.splits sum.splits)
  with JobDetailReq assms show ?thesis
    by (auto simp: handle_message_def compute_job_detail_def)
next
  case (JobInfoReq sel)
  with assms show ?thesis
    by (auto simp: handle_message_def compute_job_info_def message_ok_def
        split: Selector.splits sum.splits)
next
  case (StopWorkerReq sel)
  show ?thesis
  proof (cases sel)
    case All
    from stop_workers_ok [OF assms(1,2), of "online_workers st"] show ?thesis
      using All StopWorkerReq assms(4) by (auto simp: handle_message_def handle_worker_stop_def)
  next
    case (LastN n)
    with StopWorkerReq assms show ?thesis
      by (auto simp: handle_message_def handle_worker_stop_def)
  next
    case (Specific a)
    then obtain ids where "IntArray_iter a = Inr ids"
      using assms(3) StopWorkerReq by (auto simp: message_ok_def split: sum.splits)
    with stop_workers_ok [OF assms(1,2), of ids] show ?thesis
      using Specific StopWorkerReq assms(4) by (auto simp: handle_message_def handle_worker_stop_def)
  qed
next
  case Stats
  obtain st1 x where "env_stats env st = (st1, Some x)" "state_wf st1"
    using env_okD(10,11) [OF assms(1,2)] by (metis not_None_eq prod.collapse)
  with Stats assms(4) show ?thesis by (auto simp: handle_message_def compose_server_stats_def)
qed (use assms in \<open>auto simp: handle_message_def\<close>)

section \<open>Properties\<close>

text \<open>An environment for the examples: everything is accepted, nothing runs meanwhile.\<close>

fun example_tako ::
  "unit FromGatewayMessage \<Rightarrow> (unit, unit) State \<Rightarrow> (unit, unit) State \<times> ToGatewayMessage" where
  "example_tako (NewTasks _) st = (st, NewTasksResponse)"
| "example_tako (CancelTasks ts) st = (st, CancelTasksResponse ts)"
| "example_tako (StopWorker _) st = (st, WorkerStopped)"

definition example_env :: "(unit, unit) Env" where
  "example_env =
     \<lparr>env_validate = (\<lambda>_. True), env_serialize = (\<lambda>b. Some (show_u32 (tb_task_id b))),
      env_tako = example_tako, env_register = (\<lambda>_ _ st. (st, True)),
      env_stats = (\<lambda>st. (st, Some \<lparr>ss_connections = [], ss_registrations = [], ss_files = []\<rparr>)),
      env_current_dir = Some ''/home''\<rparr>"

lemma distinct_non_finished: "job_wf j \<Longrightarrow> distinct (non_finished_task_ids j)"
  unfolding non_finished_task_ids_table by (simp add: job_wf_def distinct_map_filter)

lemma example_env_ok: "env_ok example_env"
proof -
  have "cancel_answer_ok jid (st, CancelTasksResponse (non_finished_task_ids j))"
    if "state_wf st" "get_job st jid = Some j" for jid j and st :: "(unit, unit) State"
    using that state_wf_jobD(2) [of st jid j]
    by (simp add: cancel_answer_ok_def distinct_non_finished get_job_def)
  then show ?thesis by (simp add: env_ok_def example_env_def)
qed



text \<open>
  Claim C23. A submission registers exactly one job under the next identifier, whose tasks are all waiting
  under fresh consecutive identifiers of the backend, answers with its detail, and registers the
  log of the job, if it has one, under the path relative to the directory of the submission.
\<close>

theorem handle_submit_registers:
  assumes "env_ok env" "state_wf st" "job_type_fits (sr_job_type msg) st"
    and "env_validate env (sr_resources msg)"
    and "new_task_ids (sr_job_type msg) = Inr ids"
  shows "\<exists>st' j st1 defs ms. register_job env now msg st = Inr (st1, defs, make_job_detail now j False, job_id_counter st) \<and>
    handle_submit env now msg st = Inr (st', SubmitResponse (make_job_detail now j False), ms) \<and>
    state_wf st' \<and> get_job st1 = (get_job st)(job_id_counter st \<mapsto> j) \<and> job_wf j \<and>
    task_table j = initial_tasks (task_id_counter st) ids \<and>
    ms = (case sr_log msg of None \<Rightarrow> [] |
            Some l \<Rightarrow> [RegisterStream (job_id_counter st) (path_join (sr_submit_dir msg) l)])"
proof -
  have ok: "job_type_ok (sr_job_type msg)" using assms(3) by (simp add: job_type_fits_def)
  obtain sids where "submitted_ids (sr_job_type msg) = Inr sids"
    using submitted_ids_ok [OF ok] by blast
  from register_job_ok [OF assms(2) env_okD(1) [OF assms(1)] assms(3) this assms(5), of now]
  obtain st1 defs j where r:
    "register_job env now msg st = Inr (st1, defs, make_job_detail now j False, job_id_counter st)"
    "state_wf st1" "map_of (jobs st1) = (map_of (jobs st))(job_id_counter st \<mapsto> j)"
    "task_table j = initial_tasks (task_id_counter st) ids" by blast
  have wfj: "job_wf j" using state_wf_jobD(2) [OF r(2), of "job_id_counter st" j] r(3) by simp
  obtain st2 ms where l: "register_log env (job_id_counter st) (sr_submit_dir msg) (sr_log msg) st1 = Inr (st2, ms)"
    "state_wf st2" "ms = (case sr_log msg of None \<Rightarrow> [] |
        Some l \<Rightarrow> [RegisterStream (job_id_counter st) (path_join (sr_submit_dir msg) l)])"
    using register_log_ok [OF assms(1) r(2)] by blast
  obtain st3 where t: "env_tako env (NewTasks defs) st2 = (st3, NewTasksResponse)" "state_wf st3"
    using env_okD(3,4) [OF assms(1) l(2), of defs] by (metis prod.collapse)
  have "handle_submit env now msg st = Inr (st3, SubmitResponse (make_job_detail now j False), ms)"
    using assms(4) r(1) l(1) t(1) by (simp add: handle_submit_def)
  moreover have "get_job st1 = (get_job st)(job_id_counter st \<mapsto> j)"
    using r(3) by (simp add: get_job_def fun_eq_iff)
  ultimately show ?thesis
    using r(1,4) wfj l(3) t(2) by blast
qed

definition example_request :: "unit SubmitRequest" where
  "example_request = \<lparr>sr_job_type = Array (from_range 3 2), sr_name = ''job'', sr_max_fails = None,
     sr_spec = example_program, sr_resources = (), sr_pin = False,
     sr_entries = Some [''x'', ''y''], sr_submit_dir = ''/home'', sr_priority = 0,
     sr_time_limit = None, sr_log = Some ''out''\<rparr>"

lemma example_request_fits: "job_type_fits (sr_job_type example_request) example_server"
  by (simp add: job_type_fits_def job_type_ok_def array_ok_def range_ok_def example_request_def
      from_range_def example_server_def submit_task_count_def id_count_def)

lemma example_request_ids: "new_task_ids (sr_job_type example_request) = Inr [3, 4]"
  by (simp add: new_task_ids_def example_request_def from_range_def id_count_def IntArray_iter_def
      IntRange_iter_def step_list.simps)

theorem handle_submit_registers_witness:
  "\<exists>st' j ms. handle_submit example_env 9 example_request example_server =
      Inr (st', SubmitResponse (make_job_detail 9 j False), ms) \<and>
    task_table j = initial_tasks 13 [3, 4] \<and> ms = [RegisterStream 2 ''/home/out'']"
  using handle_submit_registers [OF example_env_ok example_server_wf example_request_fits _
      example_request_ids, of 9]
  by (auto simp: example_env_def example_server_def example_request_def path_join_def)

text \<open>
  Claim C10. Cancelling a job that has open tasks: exactly the tasks that the backend reports are marked as
  canceled and listed by their identifiers within the job, the other number in the answer counts
  the rest of the job without wrapping around, and the log is released exactly when no open task
  is left.
\<close>

theorem cancel_job_correct:
  assumes "env_ok env" "state_wf st" "get_job st jid = Some j" "non_finished_task_ids j \<noteq> []"
    and "env_tako env (CancelTasks (non_finished_task_ids j)) st = (st1, CancelTasksResponse cs)"
  shows "\<exists>st' rest ms j1 j2. get_job st1 jid = Some j1 \<and>
    cancel_job env now jid st = Inr (st', CjCanceled (map (task_id_of j1) cs) rest, ms) \<and>
    get_job st' = (get_job st1)(jid \<mapsto> j2) \<and> state_wf st' \<and>
    unat rest + length cs = length (task_table j2) \<and>
    map_of (task_table j2) = (\<lambda>t. if t \<in> set cs
      then map_option (\<lambda>i. i\<lparr>info_state := Canceled\<rparr>) (map_of (task_table j1) t)
      else map_of (task_table j1) t) \<and>
    (cs \<noteq> [] \<longrightarrow> ms = (if (\<forall>s \<in> set (task_states j2). \<not> non_finished s) \<and> job_log j1 \<noteq> None
                     then [UnregisterStream jid] else []))"
proof -
  have ok: "cancel_answer_ok jid (st1, CancelTasksResponse cs)"
    using env_okD(7) [OF assms(1-3)] assms(5) by simp
  then obtain j1 where wf1: "state_wf st1" and g1: "get_job st1 jid = Some j1"
    and cs: "distinct cs" "set cs \<subseteq> set (non_finished_task_ids j1)"
    by (auto simp: cancel_answer_ok_def split: option.splits)
  have m1: "map_of (jobs st1) jid = Some j1" using g1 by (simp add: get_job_def)
  note w = state_wf_jobD [OF wf1 m1]
  have op: "\<forall>t \<in> set cs. open_task j1 t" using cs(2) non_finished_open [OF w(2)] by blast
  from cancel_tasks_ok [OF w(2) cs(1) op, of now] obtain j2 ms where
    j2: "cancel_tasks now cs j1 = Inr (map (task_id_of j1) cs, j2, ms)"
      "cs \<noteq> [] \<longrightarrow> ms = end_messages j2" "job_wf j2" "same_config j1 j2" "owns j2 = owns j1"
      "map_of (task_table j2) = (\<lambda>t. if t \<in> set cs
        then map_option (\<lambda>i. i\<lparr>info_state := Canceled\<rparr>) (map_of (task_table j1) t)
        else map_of (task_table j1) t)" by blast
  note len = owns_length [OF w(2) j2(3,5)]
  have "set cs \<subseteq> set (map fst (task_table j2))"
  proof
    fix t assume "t \<in> set cs"
    then have "owns j1 t" using op by (auto simp: owns_map_of)
    then have "owns j2 t" using j2(5) by simp
    then show "t \<in> set (map fst (task_table j2))" by (simp add: owns_def)
  qed
  from card_mono [OF _ this] have le: "length cs \<le> length (task_table j2)"
    using distinct_card [OF cs(1)] card_length [of "map fst (task_table j2)"] by simp
  have lt: "length (task_table j2) < 2 ^ 32" using j2(3) by (simp add: job_wf_def)
  define rest where "rest = n_tasks j2 - of_nat (length cs)"
  have "unat rest = length (task_table j2) - length cs"
    using le lt unfolding rest_def n_tasks_table
    by (simp add: unat_sub word_le_nat_alt unat_of_nat take_bit_nat_eq_self)
  then have rest: "unat rest + length cs = length (task_table j2)" using le by simp
  have st': "state_wf (put_job jid j2 st1)" by (rule put_job_wf [OF wf1 m1 j2(3,4) len])
  have "get_job (put_job jid j2 st1) = (get_job st1)(jid \<mapsto> j2)"
    using map_of_put_job [OF m1, of j2] by (simp add: get_job_def fun_eq_iff)
  moreover have "cancel_job env now jid st = Inr (put_job jid j2 st1, CjCanceled (map (task_id_of j1) cs) rest, ms)"
    using assms(3-5) g1 j2(1) by (simp add: cancel_job_def Let_def rest_def)
  moreover have "end_messages j2 = (if (\<forall>s \<in> set (task_states j2). \<not> non_finished s) \<and> job_log j1 \<noteq> None
      then [UnregisterStream jid] else [])"
    using job_wf_terminated [OF j2(3)] same_config_fields [OF j2(4)] w(1)
    by (simp add: end_messages_def)
  ultimately show ?thesis
    using g1 st' rest j2(2,6)
    by (intro exI [of _ "put_job jid j2 st1"] exI [of _ rest] exI [of _ ms] exI [of _ j1]
        exI [of _ j2]) simp
qed

theorem cancel_job_correct_witness:
  "\<exists>st' rest ms. cancel_job example_env 300 1 example_server = Inr (st', CjCanceled [5, 6] rest, ms) \<and>
    unat rest = 1"
proof -
  have ids: "non_finished_task_ids example_job = [10, 11]"
    by (simp add: non_finished_task_ids_def iter_task_states_def example_job_def)
  have g: "get_job example_server 1 = Some example_job"
    by (simp add: get_job_def example_server_def)
  have t: "env_tako example_env (CancelTasks (non_finished_task_ids example_job)) example_server =
      (example_server, CancelTasksResponse [10, 11])"
    by (simp add: example_env_def ids)
  obtain st' rest ms j2 where c:
    "cancel_job example_env 300 1 example_server =
       Inr (st', CjCanceled (map (task_id_of example_job) [10, 11]) rest, ms)"
    "unat rest + length [10, 11 :: nat] = length (task_table j2)" "state_wf st'"
    "get_job st' = (get_job example_server)(1 \<mapsto> j2)"
    "map_of (task_table j2) = (\<lambda>t. if t \<in> set [10, 11]
      then map_option (\<lambda>i. i\<lparr>info_state := Canceled\<rparr>) (map_of (task_table example_job) t)
      else map_of (task_table example_job) t)"
    using cancel_job_correct [OF example_env_ok example_server_wf g _ t, of 300] ids g by auto
  have "owns j2 = owns example_job"
    unfolding fun_eq_iff owns_map_of c(5) by auto
  moreover have "job_wf j2" using state_wf_jobD(2) [OF c(3), of 1 j2] c(4) by (simp add: get_job_def fun_eq_iff)
  ultimately have "length (task_table j2) = 3"
    using owns_length [OF example_job_wf, of j2] by (simp add: example_job_def task_table_def)
  with c(1,2) show ?thesis by (simp add: task_id_of_def example_job_def task_table_def)
qed

lemma task_body_env:
  "map_of (pd_env (tb_program (task_body msg jid task_id entry))) =
     (map_of (pd_env (sr_spec msg)))(HQ_JOB_ID \<mapsto> show_u32 jid, HQ_TASK_ID \<mapsto> show_u32 task_id,
        HQ_SUBMIT_DIR \<mapsto> sr_submit_dir msg) ++
     (case entry of None \<Rightarrow> Map.empty | Some e \<Rightarrow> [HQ_ENTRY \<mapsto> e])"
  by (simp add: task_body_def make_program_def_for_task_def hm_insert_def Let_def update_conv'
      split: option.splits)

lemma make_task_defs_tasks:
  assumes "\<forall>b. env_serialize env b \<noteq> None" "sr_job_type msg = Array a" "IntArray_iter a = Inr ids"
  shows "\<exists>defs. make_task_defs env msg jid base = Inr defs \<and>
    length defs = (case sr_entries msg of None \<Rightarrow> length ids | Some es \<Rightarrow> min (length ids) (length es)) \<and>
    (\<forall>k < length defs. \<exists>body. td_id (defs ! k) = base + of_nat k \<and>
       env_serialize env body = Some (td_body (defs ! k)) \<and>
       tb_job_id body = jid \<and> tb_task_id body = ids ! k \<and>
       map_of (pd_env (tb_program body)) =
         (map_of (pd_env (sr_spec msg)))(HQ_JOB_ID \<mapsto> show_u32 jid, HQ_TASK_ID \<mapsto> show_u32 (ids ! k),
            HQ_SUBMIT_DIR \<mapsto> sr_submit_dir msg) ++
         (case sr_entries msg of None \<Rightarrow> Map.empty | Some es \<Rightarrow> [HQ_ENTRY \<mapsto> es ! k]))"
proof -
  let ?sub = "submitted msg ids"
  let ?defs = "map (\<lambda>(i, task_id, entry). task_def env msg jid task_id (base + of_nat i) entry)
    (enumerate 0 ?sub)"
  have d: "make_task_defs env msg jid base = Inr ?defs"
    using assms by (intro make_task_defs_ok) (simp_all add: submitted_ids_def)
  have len: "length ?defs = (case sr_entries msg of None \<Rightarrow> length ids | Some es \<Rightarrow> min (length ids) (length es))"
    using assms(2) by (simp add: submitted_def split: option.splits)
  have nth: "?sub ! k = (ids ! k, map_option (\<lambda>es. es ! k) (sr_entries msg))"
    if "k < length ?defs" for k
    using that assms(2) by (auto simp: submitted_def split: option.splits)
  show ?thesis
  proof (intro exI [of _ ?defs] conjI d len allI impI)
    fix k assume k: "k < length ?defs"
    let ?body = "task_body msg jid (ids ! k) (map_option (\<lambda>es. es ! k) (sr_entries msg))"
    have def: "?defs ! k = task_def env msg jid (ids ! k) (base + of_nat k)
        (map_option (\<lambda>es. es ! k) (sr_entries msg))"
      using k nth [OF k] by (simp add: nth_enumerate_eq)
    obtain x where x: "env_serialize env ?body = Some x" using assms(1) by blast
    have "tb_job_id ?body = jid" "tb_task_id ?body = ids ! k"
      by (simp_all add: task_body_def Let_def)
    then show "\<exists>body. td_id (?defs ! k) = base + of_nat k \<and>
       env_serialize env body = Some (td_body (?defs ! k)) \<and>
       tb_job_id body = jid \<and> tb_task_id body = ids ! k \<and>
       map_of (pd_env (tb_program body)) =
         (map_of (pd_env (sr_spec msg)))(HQ_JOB_ID \<mapsto> show_u32 jid, HQ_TASK_ID \<mapsto> show_u32 (ids ! k),
            HQ_SUBMIT_DIR \<mapsto> sr_submit_dir msg) ++
         (case sr_entries msg of None \<Rightarrow> Map.empty | Some es \<Rightarrow> [HQ_ENTRY \<mapsto> es ! k])"
      unfolding def
      using x task_body_env [of msg jid "ids ! k" "map_option (\<lambda>es. es ! k) (sr_entries msg)"]
      by (intro exI [of _ ?body]) (auto simp: task_def_def split: option.splits)
  qed
qed

text \<open>
  The tasks of a submission: the k-th id of the array becomes the k-th task, under the k-th
  identifier after the base, with its job, its id and the directory of the submission in its
  environment, and with the k-th entry there if the submission has entries; with fewer entries
  than ids the remaining ids get no task.
\<close>

theorem make_task_defs_correct:
  assumes "\<forall>b. env_serialize env b \<noteq> None" "sr_job_type msg = Array a" "IntArray_iter a = Inr ids"
  shows "\<exists>defs. make_task_defs env msg jid base = Inr defs \<and>
    length defs = (case sr_entries msg of None \<Rightarrow> length ids | Some es \<Rightarrow> min (length ids) (length es)) \<and>
    (\<forall>k < length defs. \<exists>body. td_id (defs ! k) = base + of_nat k \<and>
       env_serialize env body = Some (td_body (defs ! k)) \<and>
       tb_job_id body = jid \<and> tb_task_id body = ids ! k \<and>
       map_of (pd_env (tb_program body)) =
         (map_of (pd_env (sr_spec msg)))(HQ_JOB_ID \<mapsto> show_u32 jid, HQ_TASK_ID \<mapsto> show_u32 (ids ! k),
            HQ_SUBMIT_DIR \<mapsto> sr_submit_dir msg) ++
         (case sr_entries msg of None \<Rightarrow> Map.empty | Some es \<Rightarrow> [HQ_ENTRY \<mapsto> es ! k]))"
  using assms by (rule make_task_defs_tasks)

lemma example_request_iter: "IntArray_iter (from_range 3 2) = Inr [3, 4]"
  by (simp add: from_range_def IntArray_iter_def IntRange_iter_def step_list.simps)

theorem make_task_defs_correct_witness:
  "\<exists>defs. make_task_defs example_env example_request 2 13 = Inr defs \<and> length defs = 2 \<and>
    td_id (defs ! 1) = 14 \<and> td_body (defs ! 1) = show_u32 4"
proof -
  have ser: "\<forall>b. env_serialize example_env b \<noteq> None" by (simp add: example_env_def)
  have jt: "sr_job_type example_request = Array (from_range 3 2)" by (simp add: example_request_def)
  have len: "(case sr_entries example_request of None \<Rightarrow> length [3, 4 :: u32]
      | Some es \<Rightarrow> min (length [3, 4 :: u32]) (length es)) = 2" by (simp add: example_request_def)
  obtain defs where d: "make_task_defs example_env example_request 2 13 = Inr defs"
    "length defs = 2" and k: "\<forall>k < length defs. \<exists>body. td_id (defs ! k) = 13 + of_nat k \<and>
       env_serialize example_env body = Some (td_body (defs ! k)) \<and> tb_task_id body = [3, 4] ! k"
    using make_task_defs_correct [OF ser jt example_request_iter, of 2 13] len by metis
  from k [rule_format, of 1] d(2) obtain body where "td_id (defs ! 1) = 14"
    "env_serialize example_env body = Some (td_body (defs ! 1))" "tb_task_id body = 4" by auto
  with d show ?thesis by (simp add: example_env_def)
qed

text \<open>
  Claim C27. A submission that counts no task, such as one with a line per task of an empty file, does not
  use up an identifier of the backend: the next submission gets the same base, and the assertion
  that the base is new stops the server.
\<close>

theorem empty_submission_stops_server:
  assumes "register_job env now msg st = Inr (st1, defs, detail, jid)"
    and "submit_task_count (sr_job_type msg) = 0"
    and "\<forall>b. env_serialize env b \<noteq> None" "env_validate env (sr_resources msg')"
    and "job_type_ok (sr_job_type msg')"
  shows "handle_submit env now' msg' st1 = Inl Assert_failed"
proof -
  define st2 where "st2 = st\<lparr>job_id_counter := job_id_counter st + 1,
    task_id_counter := task_id_counter st + ucast (submit_task_count (sr_job_type msg))\<rparr>"
  from assms(1) obtain j where new: "Job_new now (sr_job_type msg) (job_id_counter st)
      (task_id_counter st) (sr_name msg) (sr_spec msg) (sr_resources msg) (sr_pin msg)
      (sr_max_fails msg) (sr_entries msg) (sr_priority msg) (sr_time_limit msg) (sr_log msg) = Inr j"
    and a: "add_job j st2 = Inr st1"
    unfolding register_job_def new_job_id_def new_task_id_def st2_def
    by (auto simp: outcome_simps)
  have j: "base_task_id j = task_id_counter st"
    using new by (auto simp: Job_new_def elim: try_bind_InrE)
  have t: "task_id_counter st2 = task_id_counter st" using assms(2) by (simp add: st2_def)
  from a have "map_of (base_task_id_to_job_id st1) (base_task_id j) \<noteq> None \<and>
      task_id_counter st1 = task_id_counter st2"
    using set_bt_insert [of "base_task_id j" "job_id j" "base_task_id_to_job_id st2"]
    by (auto simp: add_job_def hm_insert_def Let_def map_of_eq_None_iff split: if_splits option.splits)
  then have old: "map_of (base_task_id_to_job_id st1) (task_id_counter st1) \<noteq> None"
    by (simp add: j t)
  obtain sids where sids: "submitted_ids (sr_job_type msg') = Inr sids"
    using submitted_ids_ok [OF assms(5)] by blast
  obtain ids where ids: "new_task_ids (sr_job_type msg') = Inr ids"
    using job_type_ids [OF assms(5)] by blast
  obtain s where s: "new_job_state (sr_job_type msg') (task_id_counter st1) = Inr s"
    using ids by (auto simp: new_job_state_def new_task_ids_def split: JobType.splits if_splits)
  have "register_job env now' msg' st1 = Inl Assert_failed"
    using old s by (simp add: register_job_def new_job_id_def new_task_id_def Job_new_def
        make_task_defs_ok [OF assms(3) sids] add_job_def)
  then show ?thesis using assms(4) by (simp add: handle_submit_def)
qed

theorem empty_submission_stops_server_witness:
  "\<exists>st1 defs detail jid.
     register_job example_env 9 (example_request\<lparr>sr_job_type := Array (from_range 0 0),
       sr_entries := Some []\<rparr>) example_server = Inr (st1, defs, detail, jid) \<and>
     handle_submit example_env 10 example_request st1 = Inl Assert_failed"
proof -
  let ?msg = "example_request\<lparr>sr_job_type := Array (from_range 0 0), sr_entries := Some []\<rparr>"
  obtain st1 defs detail jid where r:
    "register_job example_env 9 ?msg example_server = Inr (st1, defs, detail, jid)"
    by (simp add: register_job_def new_job_id_def new_task_id_def make_task_defs_def Job_new_def
        new_job_state_def example_request_def from_range_def id_count_def IntArray_iter_def
        IntRange_iter_def step_list.simps add_job_def example_server_def hm_insert_def
        submit_task_count_def)
  have "handle_submit example_env 10 example_request st1 = Inl Assert_failed"
    using empty_submission_stops_server [OF r, of example_request 10] example_request_fits
    by (simp add: example_env_def submit_task_count_def id_count_def from_range_def
        job_type_fits_def)
  with r show ?thesis by blast
qed

text \<open>
  Resubmitting the tasks of an array in given statuses makes an array of exactly the ids of these
  tasks, in ascending order; nothing is resubmitted when there is none.
\<close>

theorem resubmit_selects_ids:
  assumes "ids = map info_task_id (filter (\<lambda>v. task_status (info_state v) \<in> set flt) (map snd m))"
    and "distinct ids" "\<forall>i \<in> set ids. unat i + 1 < 2 ^ 32"
  shows "if ids = [] then resubmit_job_type (Some flt) (ManyTasks m) = None
    else \<exists>a. resubmit_job_type (Some flt) (ManyTasks m) = Some (Array a) \<and>
      IntArray_iter a = Inr (sort ids)"
proof -
  have ids: "List.map_filter
      (\<lambda>v. if task_status (info_state v) \<in> set flt then Some (info_task_id v) else None)
      (map snd m) = ids"
    unfolding assms(1) by (induction m) (auto simp: List.map_filter_def)
  have "sorted_wrt (<) (sort ids)" using assms(2) by (simp add: strict_sorted_iff)
  with from_ids_ids [of "sort ids"] assms(3) have
    "IntArray_iter (from_ids (sort ids)) = Inr (sort ids)" by auto
  then show ?thesis by (simp add: resubmit_job_type_def ids Let_def)
qed

theorem resubmit_selects_ids_witness:
  "\<exists>a. resubmit_job_type (Some [StWaiting, StRunning]) (job_state example_job) = Some (Array a) \<and>
    IntArray_iter a = Inr [5, 6]"
  using resubmit_selects_ids [of "[5, 6]" "[StWaiting, StRunning]"
      "[(10, \<lparr>info_state = Waiting, info_task_id = 5\<rparr>),
        (11, \<lparr>info_state = Running 7 100, info_task_id = 6\<rparr>),
        (12, \<lparr>info_state = Canceled, info_task_id = 7\<rparr>)]"]
  by (simp add: example_job_def)



end
