(* ===== verification/Backend.thy ===== *)
theory Backend
  imports Client
begin

text \<open>
  The connection of the server to the task backend: \<^verbatim>\<open>src/src/server/rpc.rs\<close>. Requests
  and answers are matched by their order alone: a request appends its waiting task to a queue,
  an answer wakes the first of the queue. The state machine interleaves the requests, the loop
  that feeds the backend, the events and answers of the backend, the reader loop, and the
  callbacks that \<^verbatim>\<open>cancel_tasks_from_callback\<close> spawns. The lemmas show that every answer
  reaches the task that asked for it and that no run panics.
\<close>

section \<open>The machine\<close>

text \<open>
  Who waits for an answer: a handler of a client request, known by a number, or the callback of
  a job. \<open>asked\<close> and \<open>delivered\<close> record the requests and the answers in order; the program has
  no such fields.
\<close>

datatype requester = Handler nat | Callback JobId

record ('rr, 'q) Backend =
  be_state :: "('rr, 'q) State"
  tako_sender :: "'rr FromGatewayMessage list"
  tako_responses :: "requester list"
  from_tako :: "ToGatewayMessage list"
  stream_control :: "StreamServerControlMessage list"
  spawned :: "callback list"
  woken :: "(JobId \<times> ToGatewayMessage) list"
  asked :: "(requester \<times> 'rr FromGatewayMessage) list"
  delivered :: "(requester \<times> ToGatewayMessage) list"

definition Backend_start :: "('rr, 'q) State \<Rightarrow> ('rr, 'q) Backend" where
  "Backend_start st =
     \<lparr>be_state = st, tako_sender = [], tako_responses = [], from_tako = [], stream_control = [],
      spawned = [], woken = [], asked = [], delivered = []\<rparr>"

definition send_tako_message ::
  "requester \<Rightarrow> 'rr FromGatewayMessage \<Rightarrow> ('rr, 'q) Backend \<Rightarrow> ('rr, 'q) Backend" where
  "send_tako_message k m b =
     b\<lparr>tako_responses := tako_responses b @ [k], tako_sender := tako_sender b @ [m],
       asked := asked b @ [(k, m)]\<rparr>"

definition send_stream_control ::
  "StreamServerControlMessage list \<Rightarrow> ('rr, 'q) Backend \<Rightarrow> ('rr, 'q) Backend" where
  "send_stream_control ms b = b\<lparr>stream_control := stream_control b @ ms\<rparr>"

text \<open>One message in the loop \<open>tako_msg_reader\<close>.\<close>

definition read_message :: "date \<Rightarrow> ToGatewayMessage \<Rightarrow> ('rr, 'q) Backend \<Rightarrow> ('rr, 'q) Backend outcome" where
  "read_message now m b =
     (case m of
        TaskUpdate t s \<Rightarrow>
          try_bind (process_task_update now t s (be_state b)) (\<lambda>(st, ms).
            Inr (send_stream_control ms (b\<lparr>be_state := st\<rparr>)))
      | TaskFailed t e \<Rightarrow>
          try_bind (process_task_failed now t e (be_state b)) (\<lambda>(st, ms, cbs).
            Inr (send_stream_control ms (b\<lparr>be_state := st, spawned := spawned b @ cbs\<rparr>)))
      | NewWorker w conf \<Rightarrow>
          try_bind (process_worker_new w conf (be_state b)) (\<lambda>st. Inr (b\<lparr>be_state := st\<rparr>))
      | LostWorker w ts r \<Rightarrow>
          try_bind (process_worker_lost now w ts r (be_state b)) (\<lambda>st. Inr (b\<lparr>be_state := st\<rparr>))
      | _ \<Rightarrow>
          (case tako_responses b of
             [] \<Rightarrow> Inl Unwrap_none
           | k # ks \<Rightarrow>
               Inr (b\<lparr>tako_responses := ks, delivered := delivered b @ [(k, m)],
                      woken := woken b @ (case k of Callback jid \<Rightarrow> [(jid, m)] | Handler _ \<Rightarrow> [])\<rparr>)))"

fun is_event :: "ToGatewayMessage \<Rightarrow> bool" where
  "is_event (TaskUpdate _ _) = True"
| "is_event (TaskFailed _ _) = True"
| "is_event (NewWorker _ _) = True"
| "is_event (LostWorker _ _ _) = True"
| "is_event _ = False"

datatype ('rr, 'q) action =
    Ask nat "'rr FromGatewayMessage"
  | Answer ToGatewayMessage
  | Event ToGatewayMessage
  | Read date
  | RunCallback
  | ResumeCallback date
  | Handle "('rr, 'q) State"

text \<open>
  \<open>Handle\<close> is what the handlers of client requests do to the state between two waits.
\<close>

fun backend_step :: "('rr, 'q) action \<Rightarrow> ('rr, 'q) Backend \<Rightarrow> ('rr, 'q) Backend outcome" where
  "backend_step (Ask n m) b = Inr (send_tako_message (Handler n) m b)"
| "backend_step (Answer r) b =
     Inr (b\<lparr>tako_sender := tl (tako_sender b), from_tako := from_tako b @ [r]\<rparr>)"
| "backend_step (Event e) b = Inr (b\<lparr>from_tako := from_tako b @ [e]\<rparr>)"
| "backend_step (Read now) b =
     (case from_tako b of
        [] \<Rightarrow> Inr b
      | m # ms \<Rightarrow> read_message now m (b\<lparr>from_tako := ms\<rparr>))"
| "backend_step RunCallback b =
     (case spawned b of
        [] \<Rightarrow> Inr b
      | (jid, ts) # cbs \<Rightarrow>
          Inr (send_tako_message (Callback jid) (CancelTasks ts) (b\<lparr>spawned := cbs\<rparr>)))"
| "backend_step (ResumeCallback now) b =
     (case woken b of
        [] \<Rightarrow> Inr b
      | (jid, r) # ws \<Rightarrow>
          try_bind (cancel_callback_response now jid r (be_state b)) (\<lambda>(st, ms).
            Inr (send_stream_control ms (b\<lparr>be_state := st, woken := ws\<rparr>))))"
| "backend_step (Handle st) b = Inr (b\<lparr>be_state := st\<rparr>)"

text \<open>
  What the backend promises. It answers the requests one by one in order, each with one message
  of the right kind; \<open>answers\<close> says which message can answer which request. When an event or an
  answer is read it fits the state: \<open>tako_allows\<close> and \<open>cancel_answer_ok\<close>. The handlers of
  clients keep the invariant of the state.
\<close>

fun answers :: "'rr FromGatewayMessage \<Rightarrow> ToGatewayMessage \<Rightarrow> bool" where
  "answers _ (GatewayError _) = True"
| "answers (NewTasks _) NewTasksResponse = True"
| "answers (CancelTasks ts) (CancelTasksResponse cs) = (set cs \<subseteq> set ts)"
| "answers (StopWorker _) WorkerStopped = True"
| "answers _ _ = False"

fun backend_allowed :: "('rr, 'q) action \<Rightarrow> ('rr, 'q) Backend \<Rightarrow> bool" where
  "backend_allowed (Ask n m) b = True"
| "backend_allowed (Answer r) b =
     (case tako_sender b of [] \<Rightarrow> False | m # _ \<Rightarrow> answers m r)"
| "backend_allowed (Event e) b = is_event e"
| "backend_allowed (Read now) b =
     (case from_tako b of [] \<Rightarrow> True | m # _ \<Rightarrow> tako_allows (be_state b) m)"
| "backend_allowed RunCallback b = True"
| "backend_allowed (ResumeCallback now) b =
     (case woken b of [] \<Rightarrow> True | (jid, r) # _ \<Rightarrow> cancel_answer_ok jid (be_state b, r))"
| "backend_allowed (Handle st) b = state_wf st"

section \<open>The invariant\<close>

text \<open>
  The requests are those answered, those whose answer waits in the channel and those not yet
  processed, in this order; the queue holds the tasks of the last two kinds.
\<close>

definition paired :: "(requester \<times> 'rr FromGatewayMessage) list \<Rightarrow> (requester \<times> ToGatewayMessage) list \<Rightarrow> bool" where
  "paired qs as \<longleftrightarrow> list_all2 (\<lambda>(k, m) (k', r). k = k' \<and> answers m r) qs as"

definition fifo :: "('rr, 'q) Backend \<Rightarrow> bool" where
  "fifo b \<longleftrightarrow>
     (\<exists>q1 q2 q3. asked b = q1 @ q2 @ q3 \<and> paired q1 (delivered b) \<and>
        list_all2 (\<lambda>(k, m) r. answers m r) q2 (filter (\<lambda>m. \<not> is_event m) (from_tako b)) \<and>
        map snd q3 = tako_sender b \<and> tako_responses b = map fst (q2 @ q3))"

definition backend_inv :: "('rr, 'q) Backend \<Rightarrow> bool" where
  "backend_inv b \<longleftrightarrow> state_wf (be_state b) \<and> fifo b"

lemma fifo_update [simp]:
  "fifo (b\<lparr>be_state := st\<rparr>) = fifo b"
  "fifo (b\<lparr>spawned := cbs\<rparr>) = fifo b"
  "fifo (b\<lparr>woken := ws\<rparr>) = fifo b"
  "fifo (send_stream_control ms b) = fifo b"
  by (simp_all add: fifo_def send_stream_control_def)

lemma be_state_update [simp]:
  "be_state (send_stream_control ms b) = be_state b"
  "be_state (send_tako_message k m b) = be_state b"
  by (simp_all add: send_stream_control_def send_tako_message_def)

lemma fifo_ask:
  assumes "fifo b"
  shows "fifo (send_tako_message k m b)"
proof -
  obtain q1 q2 q3 where q: "asked b = q1 @ q2 @ q3" "paired q1 (delivered b)"
    "list_all2 (\<lambda>(k, m) r. answers m r) q2 (filter (\<lambda>m. \<not> is_event m) (from_tako b))"
    "map snd q3 = tako_sender b" "tako_responses b = map fst (q2 @ q3)"
    using assms unfolding fifo_def by blast
  then show ?thesis
    unfolding fifo_def send_tako_message_def
    by (intro exI [of _ q1] exI [of _ q2] exI [of _ "q3 @ [(k, m)]"]) simp
qed

lemma fifo_answer:
  assumes "fifo b" "tako_sender b = m # ms" "answers m r"
  shows "fifo (b\<lparr>tako_sender := ms, from_tako := from_tako b @ [r]\<rparr>)"
proof -
  obtain q1 q2 q3 where q: "asked b = q1 @ q2 @ q3" "paired q1 (delivered b)"
    "list_all2 (\<lambda>(k, m) r. answers m r) q2 (filter (\<lambda>m. \<not> is_event m) (from_tako b))"
    "map snd q3 = tako_sender b" "tako_responses b = map fst (q2 @ q3)"
    using assms(1) unfolding fifo_def by blast
  obtain k q3' where q3: "q3 = (k, m) # q3'" "map snd q3' = ms"
    using q(4) assms(2) by (cases q3) auto
  have "\<not> is_event r" using assms(3) by (cases r) auto
  with q q3 assms(3) show ?thesis
    unfolding fifo_def
    by (intro exI [of _ q1] exI [of _ "q2 @ [(k, m)]"] exI [of _ q3'])
      (simp add: list_all2_appendI)
qed

lemma fifo_event:
  assumes "fifo b" "is_event e"
  shows "fifo (b\<lparr>from_tako := from_tako b @ [e]\<rparr>)"
  using assms by (simp add: fifo_def)

lemma fifo_skip_event:
  assumes "fifo b" "from_tako b = m # ms" "is_event m"
  shows "fifo (b\<lparr>from_tako := ms\<rparr>)"
  using assms by (simp add: fifo_def)

text \<open>An answer at the head of the channel belongs to the first waiting task.\<close>

lemma fifo_deliver:
  assumes "fifo b" "from_tako b = m # ms" "\<not> is_event m"
  obtains k ks where "tako_responses b = k # ks"
    "fifo (b\<lparr>from_tako := ms, tako_responses := ks, delivered := delivered b @ [(k, m)]\<rparr>)"
proof -
  obtain q1 q2 q3 where q: "asked b = q1 @ q2 @ q3" "paired q1 (delivered b)"
    "list_all2 (\<lambda>(k, m) r. answers m r) q2 (filter (\<lambda>m. \<not> is_event m) (from_tako b))"
    "map snd q3 = tako_sender b" "tako_responses b = map fst (q2 @ q3)"
    using assms(1) unfolding fifo_def by blast
  obtain k x q2' where q2: "q2 = (k, x) # q2'" "answers x m"
    "list_all2 (\<lambda>(k, m) r. answers m r) q2' (filter (\<lambda>m. \<not> is_event m) ms)"
    using q(3) assms(2,3) by (auto simp: list_all2_Cons2)
  have "paired (q1 @ [(k, x)]) (delivered b @ [(k, m)])"
    using q(2) q2(2) by (simp add: paired_def list_all2_appendI)
  then have "fifo (b\<lparr>from_tako := ms, tako_responses := map fst (q2' @ q3),
      delivered := delivered b @ [(k, m)]\<rparr>)"
    unfolding fifo_def using q q2
    by (intro exI [of _ "q1 @ [(k, x)]"] exI [of _ q2'] exI [of _ q3]) simp
  moreover have "tako_responses b = k # map fst (q2' @ q3)" using q(5) q2(1) by simp
  ultimately show thesis by (rule that [rotated])
qed

lemma read_event_ok:
  assumes "state_wf (be_state b)" "tako_allows (be_state b) m" "is_event m"
  shows "\<exists>b'. read_message now m b = Inr b' \<and> state_wf (be_state b') \<and> fifo b' = fifo b"
proof (cases m)
  case (TaskUpdate t s)
  with process_task_update_ok [OF assms(1), of t s now] assms(2) show ?thesis
    by (auto simp: read_message_def)
next
  case (TaskFailed t e)
  with assms(2) have "task_is_running (be_state b) t" by simp
  from process_task_failed_ok [OF assms(1) this, of now e] TaskFailed show ?thesis
    by (auto simp: read_message_def)
next
  case (NewWorker w c)
  with process_worker_new_ok [OF assms(1), of w c] assms(2) show ?thesis
    by (auto simp: read_message_def)
next
  case (LostWorker w ts r)
  with assms(2) obtain x where "get_worker (be_state b) w = Some x" "distinct ts"
    "list_all (task_is_running (be_state b)) ts" by auto
  from process_worker_lost_ok [OF assms(1) this, of now r] LostWorker show ?thesis
    by (auto simp: read_message_def)
qed (use assms(3) in simp_all)

lemma cancel_callback_ok:
  assumes "cancel_answer_ok jid (st, r)"
  shows "\<exists>st' ms. cancel_callback_response now jid r st = Inr (st', ms) \<and> state_wf st' \<and>
    (\<forall>t i. task_view st t = Some i \<longrightarrow> \<not> non_finished (info_state i) \<longrightarrow> task_view st' t = Some i)"
proof -
  have wf: "state_wf st" using assms by (simp add: cancel_answer_ok_def)
  consider e where "r = GatewayError e" | cs j where "r = CancelTasksResponse cs"
      "get_job st jid = Some j" "distinct cs" "set cs \<subseteq> set (non_finished_task_ids j)"
    using assms by (auto simp: cancel_answer_ok_def split: ToGatewayMessage.splits option.splits)
  then show ?thesis
  proof cases
    case 1
    then show ?thesis using wf by (simp add: cancel_callback_response_def)
  next
    case 2
    have j: "map_of (jobs st) jid = Some j" using 2(2) by (simp add: get_job_def)
    note w = state_wf_jobD [OF wf j]
    have op: "\<forall>t \<in> set cs. open_task j t" using 2(4) non_finished_open [OF w(2)] by blast
    from cancel_tasks_ok [OF w(2) 2(3) op, of now] obtain j2 ms where
      j2: "cancel_tasks now cs j = Inr (map (task_id_of j) cs, j2, ms)" "job_wf j2"
        "same_config j j2" "owns j2 = owns j"
        "map_of (task_table j2) = (\<lambda>t. if t \<in> set cs
          then map_option (\<lambda>i. i\<lparr>info_state := Canceled\<rparr>) (map_of (task_table j) t)
          else map_of (task_table j) t)" by blast
    note len = owns_length [OF w(2) j2(2,4)]
    have "task_view (put_job jid j2 st) t = Some i"
      if t: "task_view st t = Some i" "\<not> non_finished (info_state i)" for t i
    proof (cases "owns j t")
      case True
      then have "map_of (task_table j) t = Some i"
        using t(1) find_owner [OF wf j True] by (simp add: task_view_def)
      with t(2) op have "t \<notin> set cs" by auto
      with \<open>map_of (task_table j) t = Some i\<close> True show ?thesis
        by (simp add: task_view_put_job [OF wf j j2(2,3) len] j2(5))
    next
      case False
      with t(1) show ?thesis by (simp add: task_view_put_job [OF wf j j2(2,3) len])
    qed
    with put_job_wf [OF wf j j2(2,3) len] 2(1,2) j2(1) show ?thesis
      by (simp add: cancel_callback_response_def)
  qed
qed

lemma read_answer_ok:
  assumes "fifo b" "from_tako b = m # ms" "\<not> is_event m"
  shows "\<exists>b'. read_message now m (b\<lparr>from_tako := ms\<rparr>) = Inr b' \<and> be_state b' = be_state b \<and> fifo b'"
proof -
  obtain k ks where k: "tako_responses b = k # ks"
    "fifo (b\<lparr>from_tako := ms, tako_responses := ks, delivered := delivered b @ [(k, m)]\<rparr>)"
    using fifo_deliver [OF assms] .
  let ?b = "b\<lparr>from_tako := ms, tako_responses := ks, delivered := delivered b @ [(k, m)]\<rparr>"
  have "read_message now m (b\<lparr>from_tako := ms\<rparr>) = Inr (?b\<lparr>woken := woken b @
      (case k of Callback jid \<Rightarrow> [(jid, m)] | Handler _ \<Rightarrow> [])\<rparr>)"
    using assms(3) k(1) by (cases m; cases k) (simp_all add: read_message_def)
  with k(2) show ?thesis by simp
qed

lemma backend_step_ok:
  assumes "backend_inv b" "backend_allowed a b"
  shows "\<exists>b'. backend_step a b = Inr b' \<and> backend_inv b'"
proof -
  have wf: "state_wf (be_state b)" and ff: "fifo b" using assms(1) by (simp_all add: backend_inv_def)
  show ?thesis
  proof (cases a)
    case (Ask n m)
    then show ?thesis using wf ff by (simp add: backend_inv_def fifo_ask)
  next
    case (Answer r)
    with assms(2) obtain m ms where "tako_sender b = m # ms" "answers m r"
      by (auto split: list.splits)
    with fifo_answer [OF ff this] Answer wf show ?thesis by (simp add: backend_inv_def)
  next
    case (Event e)
    with assms(2) wf ff fifo_event show ?thesis by (simp add: backend_inv_def)
  next
    case (Read now)
    show ?thesis
    proof (cases "from_tako b")
      case Nil
      with Read assms(1) show ?thesis by simp
    next
      case (Cons m ms)
      show ?thesis
      proof (cases "is_event m")
        case True
        have "tako_allows (be_state (b\<lparr>from_tako := ms\<rparr>)) m"
          using assms(2) Read Cons by simp
        from read_event_ok [OF _ this True, of now] wf fifo_skip_event [OF ff Cons True]
        show ?thesis using Read Cons by (auto simp: backend_inv_def)
      next
        case False
        from read_answer_ok [OF ff Cons False, of now] wf show ?thesis
          using Read Cons by (auto simp: backend_inv_def)
      qed
    qed
  next
    case RunCallback
    show ?thesis
    proof (cases "spawned b")
      case Nil
      with RunCallback assms(1) show ?thesis by simp
    next
      case (Cons cb cbs)
      have "fifo (b\<lparr>spawned := cbs\<rparr>)" using ff by simp
      from fifo_ask [OF this] wf RunCallback Cons show ?thesis
        by (cases cb) (simp add: backend_inv_def)
    qed
  next
    case (ResumeCallback now)
    show ?thesis
    proof (cases "woken b")
      case Nil
      with ResumeCallback assms(1) show ?thesis by simp
    next
      case (Cons w ws)
      obtain jid r where w: "w = (jid, r)" by force
      have "cancel_answer_ok jid (be_state b, r)" using assms(2) ResumeCallback Cons w by simp
      from cancel_callback_ok [OF this, of now] ff ResumeCallback Cons w show ?thesis
        by (auto simp: backend_inv_def)
    qed
  next
    case (Handle st)
    with assms ff show ?thesis by (simp add: backend_inv_def)
  qed
qed

interpretation backend: machine backend_step backend_allowed backend_inv
  by unfold_locales (rule backend_step_ok)

section \<open>Tasks that have ended\<close>

lemma fold_set_task_other: "t \<notin> set ts \<Longrightarrow> fold (set_task f) ts v t = v t"
  by (induction ts arbitrary: v) (simp_all add: set_task_def)

lemma read_message_final:
  assumes "state_wf (be_state b)" "tako_allows (be_state b) m" "read_message now m b = Inr b'"
    and "task_view (be_state b) t = Some i" "\<not> non_finished (info_state i)"
  shows "task_view (be_state b') t = Some i"
proof -
  have nr: "\<not> task_is_running (be_state b) t"
    using assms(4,5) by (cases "info_state i") (simp_all add: task_is_running_def)
  have keep: "set_task f u (task_view (be_state b)) t = Some i"
    if "u = t \<Longrightarrow> f (info_state i) = info_state i" for f u
    using that assms(4) by (auto simp: set_task_def)
  show ?thesis
  proof (cases m)
    case (TaskUpdate u s)
    have "u = t \<Longrightarrow> update_target now s (info_state i) = info_state i"
      using assms(2,5) nr TaskUpdate by (cases s) (auto simp: run_target_def)
    with keep process_task_update_ok [OF assms(1), of u s now] assms(2,3) TaskUpdate
    show ?thesis by (auto simp: read_message_def)
  next
    case (TaskFailed u e)
    then have u: "task_is_running (be_state b) u" using assms(2) by simp
    then have "u \<noteq> t" using nr by blast
    with keep process_task_failed_ok [OF assms(1) u, of now e] assms(3) TaskFailed
    show ?thesis by (auto simp: read_message_def)
  next
    case (NewWorker w c)
    with process_worker_new_ok [OF assms(1), of w c] assms(2,3,4) show ?thesis
      by (auto simp: read_message_def)
  next
    case (LostWorker w ts r)
    with assms(2) obtain x where x: "get_worker (be_state b) w = Some x" "distinct ts"
      "list_all (task_is_running (be_state b)) ts" by auto
    then have "t \<notin> set ts" using nr by (auto simp: list_all_iff)
    with process_worker_lost_ok [OF assms(1) x, of now r] LostWorker assms(3,4) show ?thesis
      by (auto simp: read_message_def fold_set_task_other)
  qed (use assms(3,4) in \<open>auto simp: read_message_def split: list.splits\<close>)
qed

lemma backend_step_final:
  assumes "backend_inv b" "backend_allowed a b" "backend_step a b = Inr b'" "\<And>st. a \<noteq> Handle st"
    and "task_view (be_state b) t = Some i" "\<not> non_finished (info_state i)"
  shows "task_view (be_state b') t = Some i"
proof -
  have wf: "state_wf (be_state b)" using assms(1) by (simp add: backend_inv_def)
  show ?thesis
  proof (cases a)
    case (Read now)
    show ?thesis
    proof (cases "from_tako b")
      case Nil
      with Read assms(3,5) show ?thesis by simp
    next
      case (Cons m ms)
      with Read assms(2,3) have "tako_allows (be_state (b\<lparr>from_tako := ms\<rparr>)) m"
        "read_message now m (b\<lparr>from_tako := ms\<rparr>) = Inr b'" by simp_all
      from read_message_final [OF _ this] wf assms(5,6) show ?thesis by simp
    qed
  next
    case (ResumeCallback now)
    show ?thesis
    proof (cases "woken b")
      case Nil
      with ResumeCallback assms(3,5) show ?thesis by simp
    next
      case (Cons w ws)
      obtain jid r where w: "w = (jid, r)" by force
      have "cancel_answer_ok jid (be_state b, r)" using assms(2) ResumeCallback Cons w by simp
      from cancel_callback_ok [OF this, of now] ResumeCallback Cons w assms(3,5,6) show ?thesis
        by auto
    qed
  next
    case RunCallback
    with assms(3,5) show ?thesis by (auto split: list.splits prod.splits)
  qed (use assms in auto)
qed

section \<open>Properties\<close>

text \<open>A run for the examples: one request to stop a worker and its answer.\<close>

definition example_start :: "(unit, unit) Backend" where
  "example_start = Backend_start (StateRef_new 1)"

definition example_end :: "(unit, unit) Backend" where
  "example_end = example_start\<lparr>asked := [(Handler 0, StopWorker 3)],
     delivered := [(Handler 0, WorkerStopped)]\<rparr>"

lemma StateRef_new_wf: "state_wf (StateRef_new n)"
  by (simp add: state_wf_def StateRef_new_def)

lemma example_run: "reaches backend_step backend_allowed example_start example_end"
proof -
  define b1 where "b1 = send_tako_message (Handler 0) (StopWorker 3) example_start"
  define b2 where "b2 = b1\<lparr>tako_sender := [], from_tako := [WorkerStopped]\<rparr>"
  have "reaches backend_step backend_allowed example_start b1"
    by (rule reaches_step [OF reaches_refl, of _ "Ask 0 (StopWorker 3)"]) (simp_all add: b1_def)
  then have "reaches backend_step backend_allowed example_start b2"
    by (rule reaches_step [of _ _ _ _ "Answer WorkerStopped"])
      (simp_all add: b2_def b1_def send_tako_message_def example_start_def Backend_start_def)
  then show ?thesis
    by (rule reaches_step [of _ _ _ _ "Read 0"])
      (simp_all add: b2_def b1_def send_tako_message_def example_start_def Backend_start_def
        example_end_def read_message_def)
qed

lemma start_inv: "state_wf st \<Longrightarrow> backend_inv (Backend_start st)"
  by (simp add: backend_inv_def fifo_def Backend_start_def paired_def)



text \<open>
  Claim C9. Answers are matched to requests by order alone, and correctly so: in every interleaving of
  requests, events and answers the i-th answer goes to the task that made the i-th request and
  answers that request.
\<close>

theorem backend_answers_matched:
  assumes "state_wf st" "reaches backend_step backend_allowed (Backend_start st) b"
    and "n < length (delivered b)"
  shows "n < length (asked b) \<and> fst (delivered b ! n) = fst (asked b ! n) \<and>
    answers (snd (asked b ! n)) (snd (delivered b ! n))"
proof -
  have "fifo b" using backend.run_inv [OF assms(2) start_inv [OF assms(1)]]
    by (simp add: backend_inv_def)
  then obtain q1 q where q: "asked b = q1 @ q" "paired q1 (delivered b)"
    unfolding fifo_def by blast
  then have l: "length q1 = length (delivered b)" by (simp add: paired_def list_all2_lengthD)
  have "(\<lambda>(k, m) (k', r). k = k' \<and> answers m r) (q1 ! n) (delivered b ! n)"
    using q(2) assms(3) l unfolding paired_def by (simp add: list_all2_nthD)
  with q(1) l assms(3) show ?thesis by (auto simp: nth_append split: prod.splits)
qed

theorem backend_answers_matched_witness:
  "fst (delivered example_end ! 0) = Handler 0"
  using backend_answers_matched [OF StateRef_new_wf, of 1 example_end 0] example_run
  unfolding example_start_def by (simp add: example_end_def)

text \<open>
  Claim C24. A task that has finished, failed or been canceled stays as it is, whatever events and answers of
  the backend follow and whichever callbacks run.
\<close>

theorem ended_tasks_final:
  assumes "state_wf st" "reaches backend_step backend_allowed (Backend_start st) b"
    and "backend_allowed a b" "\<forall>st. a \<noteq> Handle st" "backend_step a b = Inr b'"
    and "task_view (be_state b) t = Some i" "task_status (info_state i) \<notin> {StWaiting, StRunning}"
  shows "task_view (be_state b') t = Some i"
proof (rule backend_step_final [OF _ assms(3,5) _ assms(6)])
  show "backend_inv b" using backend.run_inv [OF assms(2) start_inv [OF assms(1)]] .
  show "\<not> non_finished (info_state i)" using assms(7) by (simp add: non_finished_status)
qed (use assms(4) in blast)

lemma example_finish_run:
  "reaches backend_step backend_allowed (Backend_start example_server)
     ((Backend_start example_server)\<lparr>from_tako := [TaskUpdate 11 TsFinished]\<rparr>)"
  by (rule reaches_step [OF reaches_refl, of _ "Event (TaskUpdate 11 TsFinished)"])
    (simp_all add: Backend_start_def)

theorem ended_tasks_final_witness:
  "\<exists>b'. backend_step (Read 200)
      ((Backend_start example_server)\<lparr>from_tako := [TaskUpdate 11 TsFinished]\<rparr>) = Inr b' \<and>
    task_view (be_state b') 12 = Some \<lparr>info_state = Canceled, info_task_id = 7\<rparr>"
proof -
  let ?b = "(Backend_start example_server)\<lparr>from_tako := [TaskUpdate 11 TsFinished]\<rparr>"
  have ok: "backend_allowed (Read 200) ?b"
    by (simp add: Backend_start_def task_is_running_def example_view)
  obtain b' where b': "backend_step (Read 200) ?b = Inr b'"
    using backend.run_safe [OF example_finish_run start_inv [OF example_server_wf] ok] by blast
  have "task_view (be_state ?b) 12 = Some \<lparr>info_state = Canceled, info_task_id = 7\<rparr>"
    by (simp add: Backend_start_def example_view)
  from ended_tasks_final [OF example_server_wf example_finish_run ok _ b' this] b'
  show ?thesis by simp
qed

end
