(* ===== verification/StreamLog.thy ===== *)
theory StreamLog
  imports Messages "HOL-Library.Sublist"
begin

text \<open>
  Streams of task output and the writer of log files: the messages of
  \<^verbatim>\<open>src/src/transfer/stream.rs\<close>, the constants of the file format in
  \<^verbatim>\<open>src/src/stream/reader/logfile.rs\<close>, and the functions \<^verbatim>\<open>send_error\<close>,
  \<^verbatim>\<open>error_state\<close> and \<^verbatim>\<open>file_writer\<close> of \<^verbatim>\<open>src/src/stream/server/rpc.rs\<close>
  with the task that runs them.

  The encoding of integers is that of the crates \<^verbatim>\<open>bytes\<close> and
  \<^verbatim>\<open>byteorder\<close>; the definitions take it as a record of functions. The buffered
  file is that of \<^verbatim>\<open>tokio\<close>; the definitions take a record that says which operations
  fail and how many of the buffered bytes each operation moves to the disk. The lemmas show what
  is on the disk when a stream is confirmed, and which answers the streams get in every case.
\<close>

section \<open>Messages\<close>

type_synonym bytes = "u8 list"
type_synonym ChannelId = u32

record StreamRegistration =
  reg_job :: JobId

datatype FromStreamerMessage =
    Start JobTaskId InstanceId
  | Data JobTaskId InstanceId ChannelId bytes
  | End JobTaskId InstanceId

datatype ToStreamerMessage =
    StreamError string
  | EndResponse JobTaskId

section \<open>The file format\<close>

text \<open>Encoding and decoding of integers by the crates.\<close>

record Codec =
  put_u32 :: "u32 \<Rightarrow> bytes"
  put_u64 :: "u64 \<Rightarrow> bytes"
  get_u32 :: "bytes \<Rightarrow> u32"
  get_u64 :: "bytes \<Rightarrow> u64"

text \<open>The text \<^verbatim>\<open>HQ:log\<close>.\<close>

definition HQ_LOG_HEADER :: bytes where
  "HQ_LOG_HEADER = [72, 81, 58, 108, 111, 103]"

definition HQ_LOG_VERSION :: u32 where
  "HQ_LOG_VERSION = 0"

definition BLOCK_STREAM_START :: u8 where
  "BLOCK_STREAM_START = 0"

definition BLOCK_STREAM_CHUNK :: u8 where
  "BLOCK_STREAM_CHUNK = 1"

definition BLOCK_STREAM_END :: u8 where
  "BLOCK_STREAM_END = 2"

section \<open>The buffered file\<close>

text \<open>
  The n-th operation on the file fails with the message \<open>io_failure n\<close>, if there is one; it moves
  \<open>io_spill n\<close> bytes out of the buffer. The buffer is lost when the file is dropped.
\<close>

record FileEnv =
  io_failure :: "nat \<Rightarrow> string option"
  io_spill :: "nat \<Rightarrow> nat"

record Writer =
  w_disk :: bytes
  w_buffer :: bytes
  w_ops :: nat

definition File_create :: "FileEnv \<Rightarrow> Writer \<times> string option" where
  "File_create e = (\<lparr>w_disk = [], w_buffer = [], w_ops = 1\<rparr>, io_failure e 0)"

definition write_all :: "FileEnv \<Rightarrow> bytes \<Rightarrow> Writer \<Rightarrow> Writer \<times> string option" where
  "write_all e d w =
     (let b = w_buffer w @ d; k = io_spill e (w_ops w)
      in (w\<lparr>w_disk := w_disk w @ take k b, w_buffer := drop k b, w_ops := Suc (w_ops w)\<rparr>,
          io_failure e (w_ops w)))"

definition flush :: "FileEnv \<Rightarrow> Writer \<Rightarrow> Writer \<times> string option" where
  "flush e w =
     (case io_failure e (w_ops w) of
        None \<Rightarrow>
          (w\<lparr>w_disk := w_disk w @ w_buffer w, w_buffer := [], w_ops := Suc (w_ops w)\<rparr>, None)
      | Some err \<Rightarrow>
          (let k = io_spill e (w_ops w)
           in (w\<lparr>w_disk := w_disk w @ take k (w_buffer w), w_buffer := drop k (w_buffer w),
                 w_ops := Suc (w_ops w)\<rparr>, Some err)))"

section \<open>The writer\<close>

text \<open>
  A message comes with the channel its answer goes to, if there is one; channels are values of
  the type \<open>'c\<close>. The answers are listed in the order they are sent.
\<close>

type_synonym 'c StreamMessage = "FromStreamerMessage \<times> 'c option"
type_synonym 'c answers = "('c \<times> ToStreamerMessage) list"

definition send_error :: "'c option \<Rightarrow> string \<Rightarrow> 'c answers" where
  "send_error sender message =
     (case sender of None \<Rightarrow> [] | Some s \<Rightarrow> [(s, StreamError message)])"

fun error_state :: "'c StreamMessage list \<Rightarrow> string \<Rightarrow> 'c answers" where
  "error_state [] message = []"
| "error_state ((_, response_sender) # receiver) message =
     send_error response_sender message @ error_state receiver message"

definition header_bytes :: "Codec \<Rightarrow> bytes" where
  "header_bytes c = HQ_LOG_HEADER @ put_u32 c HQ_LOG_VERSION @ put_u64 c 0 @ put_u64 c 0"

definition writer_open :: "Codec \<Rightarrow> FileEnv \<Rightarrow> Writer \<times> string option" where
  "writer_open c e =
     (case File_create e of
        (w, Some err) \<Rightarrow> (w, Some err)
      | (w, None) \<Rightarrow>
          (case write_all e (header_bytes c) w of
             (w, Some err) \<Rightarrow> (w, Some err)
           | (w, None) \<Rightarrow> flush e w))"

text \<open>One turn of the loop of \<^verbatim>\<open>file_writer\<close>.\<close>

fun writer_turn ::
  "Codec \<Rightarrow> FileEnv \<Rightarrow> 'c StreamMessage \<Rightarrow> Writer \<Rightarrow> Writer \<times> 'c answers \<times> string option" where
  "writer_turn c e (Start task instance, response_sender) w =
     (case write_all e (BLOCK_STREAM_START # put_u32 c task @ put_u32 c instance) w of
        (w, Some err) \<Rightarrow> (w, send_error response_sender err, Some err)
      | (w, None) \<Rightarrow> (w, [], None))"
| "writer_turn c e (Data task instance channel data, response_sender) w =
     (case write_all e (BLOCK_STREAM_CHUNK # put_u32 c task @ put_u32 c instance @
             put_u32 c channel @ put_u32 c (of_nat (length data))) w of
        (w, Some err) \<Rightarrow> (w, send_error response_sender err, Some err)
      | (w, None) \<Rightarrow>
          (case write_all e data w of
             (w, Some err) \<Rightarrow> (w, send_error response_sender err, Some err)
           | (w, None) \<Rightarrow> (w, [], None)))"
| "writer_turn c e (End task instance, response_sender) w =
     (case write_all e (BLOCK_STREAM_END # put_u32 c task @ put_u32 c instance) w of
        (w, Some err) \<Rightarrow> (w, send_error response_sender err, Some err)
      | (w, None) \<Rightarrow>
          (case flush e w of
             (w, Some err) \<Rightarrow> (w, send_error response_sender err, Some err)
           | (w, None) \<Rightarrow>
               (w, (case response_sender of None \<Rightarrow> [] | Some s \<Rightarrow> [(s, EndResponse task)]), None)))"

text \<open>
  The loop over the received messages until the channel is closed. A failure leaves the rest of
  the messages to the caller.
\<close>

fun writer_loop ::
  "Codec \<Rightarrow> FileEnv \<Rightarrow> 'c StreamMessage list \<Rightarrow> Writer \<Rightarrow>
   Writer \<times> 'c answers \<times> (string \<times> 'c StreamMessage list) option" where
  "writer_loop c e [] w = (w, [], None)"
| "writer_loop c e (m # receiver) w =
     (case writer_turn c e m w of
        (w, as, Some err) \<Rightarrow> (w, as, Some (err, receiver))
      | (w, as, None) \<Rightarrow>
          (case writer_loop c e receiver w of (w, as', r) \<Rightarrow> (w, as @ as', r)))"

definition file_writer ::
  "Codec \<Rightarrow> FileEnv \<Rightarrow> 'c StreamMessage list \<Rightarrow>
   Writer \<times> 'c answers \<times> (string \<times> 'c StreamMessage list) option" where
  "file_writer c e receiver =
     (case writer_open c e of
        (w, Some err) \<Rightarrow> (w, [], Some (err, receiver))
      | (w, None) \<Rightarrow> writer_loop c e receiver w)"

text \<open>The task that \<^verbatim>\<open>get_stream\<close> spawns: after a failure it answers with errors only.\<close>

definition writer_task :: "Codec \<Rightarrow> FileEnv \<Rightarrow> 'c StreamMessage list \<Rightarrow> Writer \<times> 'c answers" where
  "writer_task c e receiver =
     (case file_writer c e receiver of
        (w, as, None) \<Rightarrow> (w, as)
      | (w, as, Some (err, rest)) \<Rightarrow> (w, as @ error_state rest err))"

section \<open>What the writer writes and answers\<close>

fun encode :: "Codec \<Rightarrow> FromStreamerMessage \<Rightarrow> bytes" where
  "encode c (Start t i) = BLOCK_STREAM_START # put_u32 c t @ put_u32 c i"
| "encode c (Data t i ch d) =
     BLOCK_STREAM_CHUNK # put_u32 c t @ put_u32 c i @ put_u32 c ch @ put_u32 c (of_nat (length d)) @ d"
| "encode c (End t i) = BLOCK_STREAM_END # put_u32 c t @ put_u32 c i"

definition log_bytes :: "Codec \<Rightarrow> FromStreamerMessage list \<Rightarrow> bytes" where
  "log_bytes c ms = header_bytes c @ concat (map (encode c) ms)"

fun is_end :: "FromStreamerMessage \<Rightarrow> bool" where
  "is_end (End _ _) = True"
| "is_end _ = False"

fun confirmation :: "'c StreamMessage \<Rightarrow> 'c answers" where
  "confirmation (End t i, Some s) = [(s, EndResponse t)]"
| "confirmation _ = []"

text \<open>The bytes handed to the file so far, on the disk or in the buffer.\<close>

definition written :: "Writer \<Rightarrow> bytes" where
  "written w = w_disk w @ w_buffer w"

definition grows :: "Writer \<Rightarrow> Writer \<Rightarrow> bool" where
  "grows w w' \<longleftrightarrow> prefix (w_disk w) (w_disk w')"

lemma grows_refl [simp]: "grows w w"
  by (simp add: grows_def)

lemma grows_trans: "grows w w' \<Longrightarrow> grows w' w'' \<Longrightarrow> grows w w''"
  unfolding grows_def by (rule prefix_order.trans)

lemma write_all_ok:
  assumes "write_all e d w = (w', r)"
  shows "written w' = written w @ d" "grows w w'" "(\<forall>n. io_failure e n = None) \<longrightarrow> r = None"
  using assms by (auto simp: write_all_def written_def grows_def Let_def simp del: take_append drop_append)

lemma flush_ok:
  assumes "flush e w = (w', r)"
  shows "written w' = written w" "grows w w'" "(\<forall>n. io_failure e n = None) \<longrightarrow> r = None"
    "r = None \<Longrightarrow> w_buffer w' = []"
  using assms by (auto simp: flush_def written_def grows_def Let_def split: option.splits)

lemma writer_turn_Start:
  assumes "writer_turn c e (Start t i, s) w = (w', as, r)"
  shows "grows w w' \<and> (r = None \<longrightarrow> written w' = written w @ encode c (Start t i) \<and> as = []) \<and>
    (\<forall>err. r = Some err \<longrightarrow> as = send_error s err) \<and> ((\<forall>n. io_failure e n = None) \<longrightarrow> r = None)"
proof -
  obtain w1 r1 where 1: "write_all e (BLOCK_STREAM_START # put_u32 c t @ put_u32 c i) w = (w1, r1)"
    by force
  note w = write_all_ok [OF 1]
  have "w' = w1 \<and> r = r1 \<and> as = (case r1 of Some err \<Rightarrow> send_error s err | None \<Rightarrow> [])"
    using assms by (auto simp add: 1 split: option.splits)
  with w show ?thesis by auto
qed

lemma writer_turn_Data:
  assumes "writer_turn c e (Data t i ch d, s) w = (w', as, r)"
  shows "grows w w' \<and> (r = None \<longrightarrow> written w' = written w @ encode c (Data t i ch d) \<and> as = []) \<and>
    (\<forall>err. r = Some err \<longrightarrow> as = send_error s err) \<and> ((\<forall>n. io_failure e n = None) \<longrightarrow> r = None)"
proof -
  obtain w1 r1 where 1: "write_all e (BLOCK_STREAM_CHUNK # put_u32 c t @ put_u32 c i @
             put_u32 c ch @ put_u32 c (of_nat (length d))) w = (w1, r1)" by force
  obtain w2 r2 where 2: "write_all e d w1 = (w2, r2)" by force
  note w = write_all_ok [OF 1] write_all_ok [OF 2]
  show ?thesis
  proof (cases r1)
    case None
    then have "w' = w2 \<and> r = r2 \<and> as = (case r2 of Some err \<Rightarrow> send_error s err | None \<Rightarrow> [])"
      using assms by (auto simp add: 1 2 split: option.splits)
    with w None grows_trans [of w w1 w2] show ?thesis by auto
  next
    case (Some err)
    then have "w' = w1 \<and> r = Some err \<and> as = send_error s err" using assms by (simp add: 1)
    with w Some show ?thesis by auto
  qed
qed

lemma writer_turn_End:
  assumes "writer_turn c e (End t i, s) w = (w', as, r)"
  shows "grows w w' \<and> (r = None \<longrightarrow> written w' = written w @ encode c (End t i) \<and>
      as = confirmation (End t i, s) \<and> w_buffer w' = []) \<and>
    (\<forall>err. r = Some err \<longrightarrow> as = send_error s err) \<and> ((\<forall>n. io_failure e n = None) \<longrightarrow> r = None)"
proof -
  obtain w1 r1 where 1: "write_all e (BLOCK_STREAM_END # put_u32 c t @ put_u32 c i) w = (w1, r1)"
    by force
  obtain w2 r2 where 2: "flush e w1 = (w2, r2)" by force
  note w = write_all_ok [OF 1] flush_ok [OF 2]
  show ?thesis
  proof (cases r1)
    case None
    then have "w' = w2 \<and> r = r2 \<and>
        as = (case r2 of Some err \<Rightarrow> send_error s err | None \<Rightarrow> confirmation (End t i, s))"
      using assms by (cases s) (auto simp add: 1 2 split: option.splits)
    with w None grows_trans [of w w1 w2] show ?thesis by auto
  next
    case (Some err)
    then have "w' = w1 \<and> r = Some err \<and> as = send_error s err" using assms by (simp add: 1)
    with w Some show ?thesis by auto
  qed
qed

lemma writer_turn_ok:
  assumes "writer_turn c e (m, s) w = (w', as, r)"
  shows "grows w w'"
    and "r = Some err \<Longrightarrow> as = send_error s err"
    and "r = None \<Longrightarrow> written w' = written w @ encode c m"
    and "r = None \<Longrightarrow> as = confirmation (m, s)"
    and "r = None \<Longrightarrow> is_end m \<Longrightarrow> w_buffer w' = []"
    and "\<forall>n. io_failure e n = None \<Longrightarrow> r = None"
proof -
  have "grows w w' \<and> (r = None \<longrightarrow> written w' = written w @ encode c m \<and>
      as = confirmation (m, s) \<and> (is_end m \<longrightarrow> w_buffer w' = [])) \<and>
    (\<forall>err. r = Some err \<longrightarrow> as = send_error s err) \<and> ((\<forall>n. io_failure e n = None) \<longrightarrow> r = None)"
  proof (cases m)
    case (Start t i)
    from writer_turn_Start [OF assms [unfolded Start]] show ?thesis unfolding Start by auto
  next
    case (Data t i ch d)
    from writer_turn_Data [OF assms [unfolded Data]] show ?thesis unfolding Data by auto
  next
    case (End t i)
    from writer_turn_End [OF assms [unfolded End]] show ?thesis unfolding End by auto
  qed
  then show "grows w w'" "r = Some err \<Longrightarrow> as = send_error s err"
    "r = None \<Longrightarrow> written w' = written w @ encode c m" "r = None \<Longrightarrow> as = confirmation (m, s)"
    "r = None \<Longrightarrow> is_end m \<Longrightarrow> w_buffer w' = []" "\<forall>n. io_failure e n = None \<Longrightarrow> r = None"
    by blast+
qed

lemma writer_loop_Cons:
  assumes "writer_loop c e ((m, s) # ms) w = (w', as, r)"
  obtains (go) w1 bs where "writer_turn c e (m, s) w = (w1, confirmation (m, s), None)"
      "writer_loop c e ms w1 = (w', bs, r)" "as = confirmation (m, s) @ bs"
    | (stop) err where "writer_turn c e (m, s) w = (w', send_error s err, Some err)"
      "r = Some (err, ms)" "as = send_error s err"
proof -
  obtain w1 as1 r1 where 1: "writer_turn c e (m, s) w = (w1, as1, r1)" by (metis prod_cases3)
  note t = writer_turn_ok [OF 1]
  show thesis
  proof (cases r1)
    case None
    obtain w2 bs r2 where 2: "writer_loop c e ms w1 = (w2, bs, r2)" by (metis prod_cases3)
    with assms 1 None t(4) show thesis by (intro go [of w1 bs]) simp_all
  next
    case (Some err)
    with assms 1 t(2) show thesis by (intro stop [of err]) simp_all
  qed
qed

lemma writer_loop_grows:
  assumes "writer_loop c e ms w = (w', as, r)"
  shows "grows w w'"
  using assms
proof (induction ms arbitrary: w as)
  case (Cons m ms)
  obtain x s where m: "m = (x, s)" by force
  from Cons.prems [unfolded m] show ?case
  proof (cases rule: writer_loop_Cons)
    case (go w1 bs)
    then show ?thesis using Cons.IH writer_turn_ok(1) grows_trans by blast
  next
    case (stop err)
    then show ?thesis using writer_turn_ok(1) by blast
  qed
qed simp

lemma writer_loop_no_failure:
  assumes "writer_loop c e ms w = (w', as, r)" "\<forall>n. io_failure e n = None"
  shows "r = None"
  using assms(1)
proof (induction ms arbitrary: w as)
  case (Cons m ms)
  obtain x s where m: "m = (x, s)" by force
  from Cons.prems [unfolded m] show ?case
  proof (cases rule: writer_loop_Cons)
    case (go w1 bs)
    then show ?thesis using Cons.IH by blast
  next
    case (stop err)
    then show ?thesis using writer_turn_ok(6) [OF stop(1) assms(2)] by simp
  qed
qed simp

lemma writer_loop_done:
  assumes "writer_loop c e ms w = (w', as, None)"
  shows "as = concat (map confirmation ms)"
    and "written w' = written w @ concat (map (\<lambda>m. encode c (fst m)) ms)"
    and "ms \<noteq> [] \<Longrightarrow> is_end (fst (last ms)) \<Longrightarrow> w_buffer w' = []"
proof -
  have "as = concat (map confirmation ms) \<and>
      written w' = written w @ concat (map (\<lambda>m. encode c (fst m)) ms) \<and>
      (ms \<noteq> [] \<longrightarrow> is_end (fst (last ms)) \<longrightarrow> w_buffer w' = [])"
    using assms
  proof (induction ms arbitrary: w as)
    case (Cons m ms)
    obtain x s where m: "m = (x, s)" by force
    from Cons.prems [unfolded m] show ?case
    proof (cases rule: writer_loop_Cons)
      case (go w1 bs)
      note t = writer_turn_ok [OF go(1)]
      show ?thesis
      proof (cases "ms = []")
        case True
        then show ?thesis using go t by (simp add: m)
      next
        case False
        then show ?thesis using Cons.IH [OF go(2)] go(3) t(3) by (simp add: m)
      qed
    qed simp
  qed simp
  then show "as = concat (map confirmation ms)"
    "written w' = written w @ concat (map (\<lambda>m. encode c (fst m)) ms)"
    "ms \<noteq> [] \<Longrightarrow> is_end (fst (last ms)) \<Longrightarrow> w_buffer w' = []" by blast+
qed

text \<open>A failure happens at one message; the messages before it were written.\<close>

lemma writer_loop_failed:
  assumes "writer_loop c e ms w = (w', as, Some (err, rest))"
  obtains xs x s w1 where "ms = xs @ (x, s) # rest"
    "writer_loop c e xs w = (w1, concat (map confirmation xs), None)" "grows w1 w'"
    "as = concat (map confirmation xs) @ send_error s err"
  using assms
proof (induction ms arbitrary: w as thesis)
  case (Cons m ms)
  obtain x s where m: "m = (x, s)" by force
  from Cons.prems(2) [unfolded m] show ?case
  proof (cases rule: writer_loop_Cons)
    case (go w1 bs)
    obtain xs x' s' w2 where i: "ms = xs @ (x', s') # rest"
      "writer_loop c e xs w1 = (w2, concat (map confirmation xs), None)" "grows w2 w'"
      "bs = concat (map confirmation xs) @ send_error s' err"
      using Cons.IH [OF _ go(2)] by blast
    show ?thesis
      by (rule Cons.prems(1) [of "m # xs" x' s' w2]) (simp_all add: m i go)
  next
    case (stop err')
    then show ?thesis
      by (intro Cons.prems(1) [of "[]" x s w]) (simp_all add: m writer_turn_ok(1) [OF stop(1)])
  qed
qed simp

lemma writer_loop_prefix:
  assumes "writer_loop c e (xs @ ys) w = (w', as, None)"
  obtains w1 bs where "writer_loop c e xs w = (w1, bs, None)" "grows w1 w'"
  using assms
proof (induction xs arbitrary: w as thesis)
  case Nil
  then show ?case using writer_loop_grows by fastforce
next
  case (Cons m xs)
  obtain x s where m: "m = (x, s)" by force
  from Cons.prems(2) have "writer_loop c e ((x, s) # xs @ ys) w = (w', as, None)" by (simp add: m)
  then show ?case
  proof (cases rule: writer_loop_Cons)
    case (go w1 bs)
    obtain w2 cs where "writer_loop c e xs w1 = (w2, cs, None)" "grows w2 w'"
      using Cons.IH [OF _ go(2)] by blast
    then show ?thesis by (intro Cons.prems(1) [of w2 "confirmation m @ cs"]) (simp_all add: m go)
  qed simp
qed

text \<open>An end that was processed has put everything up to it on the disk.\<close>

lemma writer_loop_end_on_disk:
  assumes "writer_loop c e ms w = (w', as, None)" "j < length ms" "is_end (fst (ms ! j))"
  shows "prefix (written w @ concat (map (\<lambda>m. encode c (fst m)) (take (Suc j) ms))) (w_disk w')"
proof -
  have "writer_loop c e (take (Suc j) ms @ drop (Suc j) ms) w = (w', as, None)" using assms(1) by simp
  then obtain w1 bs where 1: "writer_loop c e (take (Suc j) ms) w = (w1, bs, None)" "grows w1 w'"
    by (rule writer_loop_prefix)
  have "take (Suc j) ms \<noteq> []" "last (take (Suc j) ms) = ms ! j"
    using assms(2) by (auto simp: take_Suc_conv_app_nth)
  with writer_loop_done [OF 1(1)] assms(3)
  have "w_disk w1 = written w @ concat (map (\<lambda>m. encode c (fst m)) (take (Suc j) ms))"
    by (simp add: written_def)
  with 1(2) show ?thesis by (simp add: grows_def)
qed

lemma writer_open_ok:
  assumes "writer_open c e = (w, r)"
  shows "r = None \<Longrightarrow> w_disk w = header_bytes c \<and> w_buffer w = []"
    and "\<forall>n. io_failure e n = None \<Longrightarrow> r = None"
proof -
  obtain w1 r1 where 1: "File_create e = (w1, r1)" by force
  obtain w2 r2 where 2: "write_all e (header_bytes c) w1 = (w2, r2)" by force
  obtain w3 r3 where 3: "flush e w2 = (w3, r3)" by force
  note f = write_all_ok [OF 2] flush_ok [OF 3]
  have "written w1 = []" using 1 by (auto simp: File_create_def written_def)
  with f have w3: "written w3 = header_bytes c" by simp
  from 1 2 3 assms have d: "r = None \<Longrightarrow> w = w3 \<and> r3 = None"
    by (auto simp: writer_open_def split: option.splits)
  show "w_disk w = header_bytes c \<and> w_buffer w = []" if "r = None"
    using d [OF that] f(7) w3 by (simp add: written_def)
  show "r = None" if n: "\<forall>n. io_failure e n = None"
    using assms n by (auto simp: writer_open_def File_create_def write_all_def flush_def Let_def)
qed

lemma error_state_append [simp]:
  "error_state (xs @ ys) err = error_state xs err @ error_state ys err"
  by (induction xs err rule: error_state.induct) simp_all

text \<open>
  Claim C14. The answers of a stream, for every behaviour of the file: there is a point up to which
  every end is confirmed and nothing else is answered; from there on every message that can be
  answered gets the error. When an end before that point is confirmed, the disk holds the header
  and every block up to that end. Without failures the point is the end of the stream.
\<close>

theorem writer_task_answers:
  "\<exists>k err. k \<le> length ms \<and>
     snd (writer_task c e ms) = concat (map confirmation (take k ms)) @ error_state (drop k ms) err \<and>
     (\<forall>j<k. is_end (fst (ms ! j)) \<longrightarrow>
        prefix (log_bytes c (map fst (take (Suc j) ms))) (w_disk (fst (writer_task c e ms)))) \<and>
     ((\<forall>n. io_failure e n = None) \<longrightarrow> k = length ms)"
proof -
  obtain w0 r0 where 0: "writer_open c e = (w0, r0)" by force
  show ?thesis
  proof (cases r0)
    case (Some err)
    with writer_open_ok(2) [OF 0] have "\<not> (\<forall>n. io_failure e n = None)" by blast
    with 0 Some show ?thesis
      by (intro exI [of _ "0 :: nat"] exI [of _ err]) (auto simp: writer_task_def file_writer_def)
  next
    case None
    with writer_open_ok(1) [OF 0] have h: "written w0 = header_bytes c" by (simp add: written_def)
    obtain w1 as r1 where 1: "writer_loop c e ms w0 = (w1, as, r1)" by (metis prod_cases3)
    show ?thesis
    proof (cases r1)
      case None
      with 0 1 \<open>r0 = None\<close> have t: "writer_task c e ms = (w1, as)"
        by (simp add: writer_task_def file_writer_def)
      note d = 1 [unfolded None]
      have "\<forall>j<length ms. is_end (fst (ms ! j)) \<longrightarrow> prefix (log_bytes c (map fst (take (Suc j) ms))) (w_disk w1)"
        using writer_loop_end_on_disk [OF d] h by (simp add: log_bytes_def o_def)
      with t writer_loop_done(1) [OF d] show ?thesis
        by (intro exI [of _ "length ms"] exI [of _ "[]"]) simp
    next
      case (Some f)
      obtain err rest where f: "f = (err, rest)" by force
      note d = 1 [unfolded Some f]
      from d obtain xs x s w2 where x: "ms = xs @ (x, s) # rest"
        "writer_loop c e xs w0 = (w2, concat (map confirmation xs), None)" "grows w2 w1"
        "as = concat (map confirmation xs) @ send_error s err" by (rule writer_loop_failed)
      have t: "writer_task c e ms = (w1, as @ error_state rest err)"
        using 0 d \<open>r0 = None\<close> by (simp add: writer_task_def file_writer_def)
      have "prefix (log_bytes c (map fst (take (Suc j) ms))) (w_disk w1)"
        if j: "j < length xs" "is_end (fst (ms ! j))" for j
      proof -
        have "prefix (log_bytes c (map fst (take (Suc j) ms))) (w_disk w2)"
          using writer_loop_end_on_disk [OF x(2) j(1)] j h by (simp add: log_bytes_def o_def x(1) nth_append)
        with x(3) show ?thesis by (auto simp: grows_def intro: prefix_order.trans)
      qed
      moreover have "\<not> (\<forall>n. io_failure e n = None)"
        using writer_loop_no_failure [OF d] by blast
      ultimately show ?thesis using t x(1,4)
        by (intro exI [of _ "length xs"] exI [of _ err]) simp
    qed
  qed
qed

section \<open>Laws of the encoding\<close>

text \<open>
  What writer and reader rely on: the widths, and that decoding inverts encoding. The crates
  document big-endian order, which satisfies the laws.
\<close>

definition codec_ok :: "Codec \<Rightarrow> bool" where
  "codec_ok c \<longleftrightarrow> (\<forall>x. length (put_u32 c x) = 4) \<and> (\<forall>x. length (put_u64 c x) = 8) \<and>
     (\<forall>x. get_u32 c (put_u32 c x) = x)"

definition big_endian :: Codec where
  "big_endian =
     \<lparr>put_u32 = (\<lambda>x. map (\<lambda>k. ucast (drop_bit (8 * k) x)) [3, 2, 1, 0]),
      put_u64 = (\<lambda>x. map (\<lambda>k. ucast (drop_bit (8 * k) x)) [7, 6, 5, 4, 3, 2, 1, 0]),
      get_u32 = foldl (\<lambda>a b. or (push_bit 8 a) (ucast b)) 0,
      get_u64 = foldl (\<lambda>a b. or (push_bit 8 a) (ucast b)) 0\<rparr>"

lemma big_endian_ok: "codec_ok big_endian"
proof -
  have "get_u32 big_endian (put_u32 big_endian x) = x" for x
  proof (rule bit_word_eqI)
    fix n assume "n < LENGTH(32)"
    then consider "n < 8" | "8 \<le> n" "n < 16" | "16 \<le> n" "n < 24" | "24 \<le> n" "n < 32"
      by fastforce
    then show "bit (get_u32 big_endian (put_u32 big_endian x)) n = bit x n"
      by cases (auto simp: big_endian_def bit_simps)
  qed
  then show ?thesis by (simp add: codec_ok_def big_endian_def)
qed

definition ideal_file_env :: FileEnv where
  "ideal_file_env = \<lparr>io_failure = (\<lambda>n. None), io_spill = (\<lambda>n. 2)\<rparr>"

theorem writer_task_answers_witness:
  "snd (writer_task big_endian ideal_file_env [(Start 7 0, Some 1), (End 7 0, Some (1 :: nat))]) =
     [(1, EndResponse 7)] \<and>
   prefix (log_bytes big_endian [Start 7 0, End 7 0])
     (w_disk (fst (writer_task big_endian ideal_file_env
        [(Start 7 0, Some 1), (End 7 0, Some (1 :: nat))])))"
proof -
  let ?ms = "[(Start 7 0, Some 1), (End 7 0, Some (1 :: nat))]"
  have "\<forall>n. io_failure ideal_file_env n = None" by (simp add: ideal_file_env_def)
  then obtain err where
    "snd (writer_task big_endian ideal_file_env ?ms) =
       concat (map confirmation (take 2 ?ms)) @ error_state (drop 2 ?ms) err"
    "\<forall>j<2. is_end (fst (?ms ! j)) \<longrightarrow> prefix (log_bytes big_endian (map fst (take (Suc j) ?ms)))
       (w_disk (fst (writer_task big_endian ideal_file_env ?ms)))"
    using writer_task_answers [of ?ms big_endian ideal_file_env] by auto
  moreover from this(2) have "prefix (log_bytes big_endian (map fst (take (Suc 1) ?ms)))
       (w_disk (fst (writer_task big_endian ideal_file_env ?ms)))"
    by (drule_tac spec [of _ 1]) simp
  ultimately show ?thesis by simp
qed

end
