(* ===== verification/Streamer.thy ===== *)
theory Streamer
  imports StreamLog
begin

text \<open>
  The streamer of a worker: \<^verbatim>\<open>src/src/worker/streamer.rs\<close>. It keeps one connection per
  job to the stream server; the tasks of the job share it, and each waits for the confirmation
  that its output is in the file. The state machine interleaves new streams, messages of the
  server, connections that end and the periodic cleaning. The lemmas show that no waiting task is
  answered twice, that the cleaning finds nothing to do, and what a connection that outlives its
  entry does.

  A connection is its number in the order of creation; it stands for the queue that the tasks
  send to and for the task that serves it. A waiting task is known by the number of its oneshot
  channel. Connecting, sealing and opening messages is the work of the Tako library: a result
  says where the connection failed.
\<close>

section \<open>Definitions\<close>

record StreamInfo =
  si_sender :: nat
  si_responses :: "(JobTaskId, nat) hmap"

record Streamer =
  sr_streams :: "(JobId, StreamInfo) hmap"
  sr_connections :: "JobId list"
  sr_server_address :: string

type_synonym responses = "(nat \<times> (string + unit)) list"

definition Streamer_send_error :: "JobId \<Rightarrow> string \<Rightarrow> Streamer \<Rightarrow> (Streamer \<times> responses) outcome" where
  "Streamer_send_error job_id err s =
     (case hm_remove job_id (sr_streams s) of
        (m, None) \<Rightarrow> Inl Unwrap_none
      | (m, Some info) \<Rightarrow>
          Inr (s\<lparr>sr_streams := m\<rparr>, map (\<lambda>(_, r). (r, Inl err)) (si_responses info)))"

definition close_task_stream :: "JobId \<Rightarrow> JobTaskId \<Rightarrow> Streamer \<Rightarrow> (Streamer \<times> responses) outcome" where
  "close_task_stream job_id task_id s =
     (case map_of (sr_streams s) job_id of
        None \<Rightarrow> Inl Unwrap_none
      | Some info \<Rightarrow>
          (case hm_remove task_id (si_responses info) of
             (rs, None) \<Rightarrow> Inl Unwrap_none
           | (rs, Some r) \<Rightarrow>
               Inr (if rs = [] then s\<lparr>sr_streams := fst (hm_remove job_id (sr_streams s))\<rparr>
                    else s\<lparr>sr_streams :=
                      hm_modify job_id (\<lambda>info. info\<lparr>si_responses := rs\<rparr>) (sr_streams s)\<rparr>,
                    [(r, Inr ())])))"

record StreamSender =
  ss_sender :: nat
  ss_task_id :: JobTaskId
  ss_instance_id :: InstanceId

text \<open>A new entry comes with a new connection.\<close>

definition Streamer_get_stream ::
  "JobId \<Rightarrow> JobTaskId \<Rightarrow> InstanceId \<Rightarrow> nat \<Rightarrow> Streamer \<Rightarrow> (Streamer \<times> StreamSender) outcome" where
  "Streamer_get_stream job_id task_id inst response_sender s =
     (case map_of (sr_streams s) job_id of
        Some info \<Rightarrow>
          (case hm_insert task_id response_sender (si_responses info) of
             (rs, Some _) \<Rightarrow> Inl Assert_failed
           | (rs, None) \<Rightarrow>
               Inr (s\<lparr>sr_streams :=
                        hm_modify job_id (\<lambda>info. info\<lparr>si_responses := rs\<rparr>) (sr_streams s)\<rparr>,
                    \<lparr>ss_sender = si_sender info, ss_task_id = task_id, ss_instance_id = inst\<rparr>))
      | None \<Rightarrow>
          (let queue_sender = length (sr_connections s);
               info = \<lparr>si_sender = queue_sender, si_responses = [(task_id, response_sender)]\<rparr>
           in Inr (s\<lparr>sr_streams := fst (hm_insert job_id info (sr_streams s)),
                     sr_connections := sr_connections s @ [job_id]\<rparr>,
                   \<lparr>ss_sender = queue_sender, ss_task_id = task_id, ss_instance_id = inst\<rparr>)))"

text \<open>
  How the task of a connection ends: connecting fails, one of the two registrations fails, the
  send loop or the receiver ends.
\<close>

datatype connection_result =
    ConnectFailed string
  | RegisterFailed string
  | SendLoop "string option"
  | Receiver "string option"

fun result_error :: "connection_result \<Rightarrow> string option" where
  "result_error (ConnectFailed e) = Some e"
| "result_error (RegisterFailed e) = Some e"
| "result_error (SendLoop r) = r"
| "result_error (Receiver r) = r"

definition connection_finish ::
  "JobId \<Rightarrow> connection_result \<Rightarrow> Streamer \<Rightarrow> (Streamer \<times> responses) outcome" where
  "connection_finish job_id r s =
     (case result_error r of
        Some e \<Rightarrow> Streamer_send_error job_id e s
      | None \<Rightarrow> Inr (s\<lparr>sr_streams := fst (hm_remove job_id (sr_streams s))\<rparr>, []))"

text \<open>One turn of \<^verbatim>\<open>stream_receiver\<close>; an error ends the connection.\<close>

fun stream_receiver :: "JobId \<Rightarrow> ToStreamerMessage \<Rightarrow> Streamer \<Rightarrow> (Streamer \<times> responses) outcome" where
  "stream_receiver job_id (EndResponse task) s = close_task_stream job_id task s"
| "stream_receiver job_id (StreamError e) s = connection_finish job_id (Receiver (Some e)) s"

definition Streamer_start :: "string \<Rightarrow> Streamer" where
  "Streamer_start server_address =
     \<lparr>sr_streams = [], sr_connections = [], sr_server_address = server_address\<rparr>"

text \<open>The periodic cleaning.\<close>

definition clean :: "Streamer \<Rightarrow> Streamer" where
  "clean s = s\<lparr>sr_streams := filter (\<lambda>(_, info). si_responses info \<noteq> []) (sr_streams s)\<rparr>"

text \<open>What a task sends through its \<^verbatim>\<open>StreamSender\<close>; the queue may be closed.\<close>

definition sender_send :: "string \<Rightarrow> bool \<Rightarrow> FromStreamerMessage \<Rightarrow> string + FromStreamerMessage" where
  "sender_send err closed m = (if closed then Inl err else Inr m)"

definition StreamSender_close :: "bool \<Rightarrow> StreamSender \<Rightarrow> string + FromStreamerMessage" where
  "StreamSender_close closed s =
     sender_send ''Sending close message failed'' closed (End (ss_task_id s) (ss_instance_id s))"

definition send_data :: "bool \<Rightarrow> ChannelId \<Rightarrow> bytes \<Rightarrow> StreamSender \<Rightarrow> string + FromStreamerMessage" where
  "send_data closed channel data s =
     sender_send ''Sending streamer message failed'' closed
       (Data (ss_task_id s) (ss_instance_id s) channel data)"

definition send_stream_start :: "bool \<Rightarrow> StreamSender \<Rightarrow> string + FromStreamerMessage" where
  "send_stream_start closed s =
     sender_send ''Sending streamer message failed'' closed (Start (ss_task_id s) (ss_instance_id s))"

section \<open>The machine\<close>

text \<open>\<open>sent\<close> records the answers; the program has no such field.\<close>

record StreamerRun =
  run_streamer :: Streamer
  sent :: responses

datatype streamer_action =
    NewStream JobId JobTaskId InstanceId nat
  | ServerMessage nat ToStreamerMessage
  | ConnectionFinish nat connection_result
  | Clean

definition record_sent :: "StreamerRun \<Rightarrow> (Streamer \<times> responses) outcome \<Rightarrow> StreamerRun outcome" where
  "record_sent r x = try_bind x (\<lambda>(s, rs). Inr (r\<lparr>run_streamer := s, sent := sent r @ rs\<rparr>))"

fun streamer_step :: "streamer_action \<Rightarrow> StreamerRun \<Rightarrow> StreamerRun outcome" where
  "streamer_step (NewStream job_id task_id inst response_sender) r =
     try_bind (Streamer_get_stream job_id task_id inst response_sender (run_streamer r)) (\<lambda>(s, _).
       Inr (r\<lparr>run_streamer := s\<rparr>))"
| "streamer_step (ServerMessage c m) r =
     record_sent r (stream_receiver (sr_connections (run_streamer r) ! c) m (run_streamer r))"
| "streamer_step (ConnectionFinish c x) r =
     record_sent r (connection_finish (sr_connections (run_streamer r) ! c) x (run_streamer r))"
| "streamer_step Clean r = Inr (r\<lparr>run_streamer := clean (run_streamer r)\<rparr>)"

section \<open>The invariant\<close>

definition waiting_of :: "(JobId, StreamInfo) hmap \<Rightarrow> nat list" where
  "waiting_of m = concat (map (\<lambda>e. map snd (si_responses (snd e))) m)"

definition info_ok :: "JobId list \<Rightarrow> JobId \<Rightarrow> StreamInfo \<Rightarrow> bool" where
  "info_ok conns j info \<longleftrightarrow> si_responses info \<noteq> [] \<and> distinct (map fst (si_responses info)) \<and>
     si_sender info < length conns \<and> conns ! si_sender info = j"

definition streamer_inv :: "StreamerRun \<Rightarrow> bool" where
  "streamer_inv r \<longleftrightarrow> distinct (map fst (sr_streams (run_streamer r))) \<and>
     (\<forall>j info. map_of (sr_streams (run_streamer r)) j = Some info \<longrightarrow>
        info_ok (sr_connections (run_streamer r)) j info) \<and>
     distinct (waiting_of (sr_streams (run_streamer r)) @ map fst (sent r))"

text \<open>A connection is the current one of its job when the entry of the job sends to it.\<close>

definition current :: "nat \<Rightarrow> Streamer \<Rightarrow> bool" where
  "current c s \<longleftrightarrow> c < length (sr_connections s) \<and>
     map_option si_sender (map_of (sr_streams s) (sr_connections s ! c)) = Some c"

text \<open>
  What the surroundings promise: a task of a job streams once at a time, with a new oneshot
  channel; the server confirms streams that wait, on the current connection of the job; and a
  connection does not outlive its entry when it fails, nor meets the entry of another connection
  when it ends.
\<close>

fun streamer_allowed :: "streamer_action \<Rightarrow> StreamerRun \<Rightarrow> bool" where
  "streamer_allowed (NewStream j t i x) r =
     ((case map_of (sr_streams (run_streamer r)) j of
         None \<Rightarrow> True | Some info \<Rightarrow> t \<notin> fst ` set (si_responses info)) \<and>
      x \<notin> set (waiting_of (sr_streams (run_streamer r)) @ map fst (sent r)))"
| "streamer_allowed (ServerMessage c m) r =
     (current c (run_streamer r) \<and>
      (case m of
         EndResponse t \<Rightarrow> t \<in> fst ` set (si_responses (the (map_of (sr_streams (run_streamer r))
           (sr_connections (run_streamer r) ! c))))
       | StreamError _ \<Rightarrow> True))"
| "streamer_allowed (ConnectionFinish c x) r =
     (current c (run_streamer r) \<or> result_error x = None \<and> c < length (sr_connections (run_streamer r)) \<and>
        map_of (sr_streams (run_streamer r)) (sr_connections (run_streamer r) ! c) = None)"
| "streamer_allowed Clean r = True"

lemma mset_waiting_delete:
  assumes "distinct (map fst m)" "map_of m j = Some info"
  shows "mset (waiting_of m) = mset (map snd (si_responses info)) + mset (waiting_of (AList.delete j m))"
  using assms
proof (induction m)
  case (Cons e m)
  obtain k v where e: "e = (k, v)" by force
  show ?case
  proof (cases "k = j")
    case True
    with Cons.prems e show ?thesis by (simp add: waiting_of_def AList.delete_id)
  next
    case False
    with Cons e show ?thesis by (simp add: waiting_of_def ac_simps)
  qed
qed simp

lemma mset_waiting_modify:
  assumes "distinct (map fst m)" "map_of m j = Some info"
  shows "mset (waiting_of (hm_modify j f m)) + mset (map snd (si_responses info)) =
    mset (waiting_of m) + mset (map snd (si_responses (f info)))"
  using assms
proof (induction m)
  case (Cons e m)
  then show ?case by (cases e) (auto simp: waiting_of_def split: if_splits)
qed simp

lemma waiting_update_new:
  "j \<notin> fst ` set m \<Longrightarrow> waiting_of (AList.update j info m) = waiting_of m @ map snd (si_responses info)"
  by (simp add: update_new waiting_of_def)

lemma mset_responses_delete:
  assumes "distinct (map fst rs)" "map_of rs t = Some x"
  shows "mset (map snd rs) = add_mset x (mset (map snd (AList.delete t rs)))"
  using assms
proof (induction rs)
  case (Cons e rs)
  then show ?case by (cases e) (auto simp: AList.delete_id split: if_splits)
qed simp

lemma distinct_mset_append:
  assumes "mset xs + mset ys = mset zs" "distinct (zs @ us)"
  shows "distinct (xs @ us @ ys)"
proof -
  have "mset (xs @ us @ ys) = mset (zs @ us)" using assms(1) by (simp add: ac_simps)
  then show ?thesis using assms(2) mset_eq_imp_distinct_iff by blast
qed

lemma streamer_invD:
  assumes "streamer_inv r"
  shows "distinct (map fst (sr_streams (run_streamer r)))"
    and "map_of (sr_streams (run_streamer r)) j = Some info \<Longrightarrow> info_ok (sr_connections (run_streamer r)) j info"
    and "distinct (waiting_of (sr_streams (run_streamer r)) @ map fst (sent r))"
  using assms by (auto simp: streamer_inv_def)

lemma streamer_invI:
  assumes "distinct (map fst m)" "\<And>j info. map_of m j = Some info \<Longrightarrow> info_ok (sr_connections s) j info"
    and "distinct (waiting_of m @ map fst rs)"
  shows "streamer_inv (r\<lparr>run_streamer := s\<lparr>sr_streams := m\<rparr>, sent := rs\<rparr>)"
  using assms by (simp add: streamer_inv_def)

lemma remove_entry_inv:
  assumes "streamer_inv r" "map_of (sr_streams (run_streamer r)) j = Some info"
    and "map fst rs = map snd (si_responses info)"
  shows "streamer_inv (r\<lparr>run_streamer := (run_streamer r)\<lparr>sr_streams :=
    AList.delete j (sr_streams (run_streamer r))\<rparr>, sent := sent r @ rs\<rparr>)"
proof (rule streamer_invI)
  note i = streamer_invD [OF assms(1)]
  show "distinct (map fst (AList.delete j (sr_streams (run_streamer r))))"
    using i(1) by (rule distinct_delete)
  show "info_ok (sr_connections (run_streamer r)) k x"
    if "map_of (AList.delete j (sr_streams (run_streamer r))) k = Some x" for k x
    using that i(2) by (auto simp: delete_conv' split: if_splits)
  have "mset (waiting_of (AList.delete j (sr_streams (run_streamer r)))) + mset (map snd (si_responses info)) =
      mset (waiting_of (sr_streams (run_streamer r)))"
    using mset_waiting_delete [OF i(1) assms(2)] by (simp add: ac_simps)
  from distinct_mset_append [OF this i(3)] show
    "distinct (waiting_of (AList.delete j (sr_streams (run_streamer r))) @ map fst (sent r @ rs))"
    using assms(3) by simp
qed

lemma send_error_ok:
  assumes "streamer_inv r" "map_of (sr_streams (run_streamer r)) j = Some info"
  shows "\<exists>r'. record_sent r (Streamer_send_error j e (run_streamer r)) = Inr r' \<and> streamer_inv r'"
proof -
  have "map fst (map (\<lambda>(_, x). (x, Inl e :: string + unit)) (si_responses info)) = map snd (si_responses info)"
    by auto
  from remove_entry_inv [OF assms this] assms(2) show ?thesis
    by (simp add: record_sent_def Streamer_send_error_def hm_remove_def)
qed

lemma finish_ok:
  assumes "streamer_inv r" "result_error x \<noteq> None \<longrightarrow> map_of (sr_streams (run_streamer r)) j \<noteq> None"
  shows "\<exists>r'. record_sent r (connection_finish j x (run_streamer r)) = Inr r' \<and> streamer_inv r'"
proof (cases "result_error x")
  case (Some e)
  with assms(2) obtain info where "map_of (sr_streams (run_streamer r)) j = Some info" by auto
  from send_error_ok [OF assms(1) this, of e] Some show ?thesis by (simp add: connection_finish_def)
next
  case None
  let ?m = "sr_streams (run_streamer r)"
  have c: "record_sent r (connection_finish j x (run_streamer r)) =
      Inr (r\<lparr>run_streamer := (run_streamer r)\<lparr>sr_streams := AList.delete j ?m\<rparr>\<rparr>)"
    using None by (simp add: record_sent_def connection_finish_def hm_remove_def)
  have "streamer_inv (r\<lparr>run_streamer := (run_streamer r)\<lparr>sr_streams := AList.delete j ?m\<rparr>\<rparr>)"
  proof (cases "map_of ?m j")
    case None
    then have "AList.delete j ?m = ?m" by (simp add: map_of_eq_None_iff AList.delete_id)
    with assms(1) show ?thesis by simp
  next
    case (Some info)
    let ?rs = "map (\<lambda>e. (snd e, Inr ())) (si_responses info) :: responses"
    have "map fst ?rs = map snd (si_responses info)" by simp
    from remove_entry_inv [OF assms(1) Some this] show ?thesis by (auto simp: streamer_inv_def)
  qed
  with c show ?thesis by simp
qed

lemma close_ok:
  assumes "streamer_inv r" "map_of (sr_streams (run_streamer r)) j = Some info"
    and "t \<in> fst ` set (si_responses info)"
  shows "\<exists>r'. record_sent r (close_task_stream j t (run_streamer r)) = Inr r' \<and> streamer_inv r'"
proof -
  note i = streamer_invD [OF assms(1)]
  have ok: "info_ok (sr_connections (run_streamer r)) j info" using i(2) [OF assms(2)] .
  let ?m = "sr_streams (run_streamer r)"
  let ?rs = "AList.delete t (si_responses info)"
  obtain x where x: "map_of (si_responses info) t = Some x"
    using assms(3) by (metis map_of_eq_None_iff not_Some_eq)
  have m: "mset (map snd (si_responses info)) = add_mset x (mset (map snd ?rs))"
    using mset_responses_delete [OF _ x] ok by (simp add: info_ok_def)
  show ?thesis
  proof (cases "?rs = []")
    case True
    with m have "mset (map snd (si_responses info)) = {#x#}" by simp
    then have "map snd (si_responses info) = [x]" by (simp only: mset_single_iff)
    then have "map fst [(x, Inr () :: string + unit)] = map snd (si_responses info)" by simp
    from remove_entry_inv [OF assms(1,2) this] True x assms(2) show ?thesis
      by (simp add: record_sent_def close_task_stream_def hm_remove_def)
  next
    case False
    let ?f = "\<lambda>info :: StreamInfo. info\<lparr>si_responses := ?rs\<rparr>"
    have c: "record_sent r (close_task_stream j t (run_streamer r)) =
        Inr (r\<lparr>run_streamer := (run_streamer r)\<lparr>sr_streams := hm_modify j ?f ?m\<rparr>,
               sent := sent r @ [(x, Inr ())]\<rparr>)"
      using False x assms(2) by (simp add: record_sent_def close_task_stream_def hm_remove_def)
    have "streamer_inv (r\<lparr>run_streamer := (run_streamer r)\<lparr>sr_streams := hm_modify j ?f ?m\<rparr>,
               sent := sent r @ [(x, Inr ())]\<rparr>)"
    proof (rule streamer_invI)
      show "distinct (map fst (hm_modify j ?f ?m))" using i(1) by simp
      show "info_ok (sr_connections (run_streamer r)) k y" if "map_of (hm_modify j ?f ?m) k = Some y" for k y
        using that i(2) [of k] ok False assms(2)
        by (auto simp: map_of_hm_modify info_ok_def distinct_delete split: if_splits)
      have "mset (waiting_of (hm_modify j ?f ?m)) + mset [x] = mset (waiting_of ?m)"
        using mset_waiting_modify [OF i(1) assms(2), of ?f] m by simp
      from distinct_mset_append [OF this i(3)] show
        "distinct (waiting_of (hm_modify j ?f ?m) @ map fst (sent r @ [(x, Inr ())]))" by simp
    qed
    with c show ?thesis by simp
  qed
qed

lemma new_stream_ok:
  assumes "streamer_inv r" "streamer_allowed (NewStream j t i x) r"
  shows "\<exists>r'. streamer_step (NewStream j t i x) r = Inr r' \<and> streamer_inv r'"
proof (cases "map_of (sr_streams (run_streamer r)) j")
  case None
  note inv = streamer_invD [OF assms(1)]
  let ?s = "run_streamer r"
  let ?info = "\<lparr>si_sender = length (sr_connections ?s), si_responses = [(t, x)]\<rparr>"
  have n: "j \<notin> fst ` set (sr_streams ?s)" using None by (simp add: map_of_eq_None_iff)
  let ?m = "sr_streams ?s @ [(j, ?info)]"
  have e: "streamer_step (NewStream j t i x) r =
      Inr (r\<lparr>run_streamer := ?s\<lparr>sr_streams := ?m, sr_connections := sr_connections ?s @ [j]\<rparr>\<rparr>)"
    using None n by (simp add: Streamer_get_stream_def hm_insert_def update_new Let_def)
  have "info_ok (sr_connections ?s @ [j]) k y" if "map_of ?m k = Some y" for k y
    using that inv(2) [of k] None by (auto simp: info_ok_def map_add_def nth_append split: option.splits if_splits)
  moreover have "waiting_of ?m = waiting_of (sr_streams ?s) @ [x]" by (simp add: waiting_of_def)
  ultimately have "streamer_inv (r\<lparr>run_streamer := ?s\<lparr>sr_streams := ?m, sr_connections := sr_connections ?s @ [j]\<rparr>\<rparr>)"
    using inv(1,3) assms(2) n by (auto simp: streamer_inv_def)
  with e show ?thesis by simp
next
  case (Some info)
  note inv = streamer_invD [OF assms(1)]
  let ?m = "sr_streams (run_streamer r)"
  have t: "t \<notin> fst ` set (si_responses info)" "x \<notin> set (waiting_of ?m @ map fst (sent r))"
    using assms(2) Some by simp_all
  let ?f = "\<lambda>info :: StreamInfo. info\<lparr>si_responses := si_responses (the (map_of ?m j)) @ [(t, x)]\<rparr>"
  have e: "streamer_step (NewStream j t i x) r =
      Inr (r\<lparr>run_streamer := (run_streamer r)\<lparr>sr_streams := hm_modify j ?f ?m\<rparr>, sent := sent r\<rparr>)"
    using Some t(1) map_of_eq_None_iff [of "si_responses info" t]
    by (simp add: Streamer_get_stream_def hm_insert_def update_new)
  have ok: "info_ok (sr_connections (run_streamer r)) j info" using inv(2) [OF Some] .
  have "streamer_inv (r\<lparr>run_streamer := (run_streamer r)\<lparr>sr_streams := hm_modify j ?f ?m\<rparr>, sent := sent r\<rparr>)"
  proof (rule streamer_invI)
    show "distinct (map fst (hm_modify j ?f ?m))" using inv(1) by simp
    show "info_ok (sr_connections (run_streamer r)) k y" if "map_of (hm_modify j ?f ?m) k = Some y" for k y
      using that inv(2) [of k] ok t(1) Some
      by (auto simp: map_of_hm_modify info_ok_def split: if_splits)
    have "mset (waiting_of (hm_modify j ?f ?m)) = mset (waiting_of ?m @ [x])"
      using mset_waiting_modify [OF inv(1) Some, of ?f] Some by simp
    then have "mset (waiting_of (hm_modify j ?f ?m) @ map fst (sent r)) =
        mset (x # waiting_of ?m @ map fst (sent r))" by simp
    moreover have "distinct (x # waiting_of ?m @ map fst (sent r))" using inv(3) t(2) by simp
    ultimately show "distinct (waiting_of (hm_modify j ?f ?m) @ map fst (sent r))"
      using mset_eq_imp_distinct_iff by blast
  qed
  with e show ?thesis by simp
qed

lemma currentD:
  assumes "current c s"
  obtains info where "map_of (sr_streams s) (sr_connections s ! c) = Some info" "si_sender info = c"
  using assms by (auto simp: current_def)

lemma clean_id:
  assumes "\<And>j info. (j, info) \<in> set (sr_streams s) \<Longrightarrow> si_responses info \<noteq> []"
  shows "clean s = s"
proof -
  have "filter (\<lambda>(_, info). si_responses info \<noteq> []) (sr_streams s) = sr_streams s"
    using assms by (auto simp: filter_id_conv)
  then show ?thesis by (simp add: clean_def)
qed

lemma streamer_inv_clean:
  assumes "streamer_inv r"
  shows "clean (run_streamer r) = run_streamer r"
proof (rule clean_id)
  fix j info assume "(j, info) \<in> set (sr_streams (run_streamer r))"
  then have "map_of (sr_streams (run_streamer r)) j = Some info"
    using streamer_invD(1) [OF assms] by simp
  from streamer_invD(2) [OF assms this] show "si_responses info \<noteq> []" by (simp add: info_ok_def)
qed

lemma streamer_step_ok:
  assumes "streamer_inv r" "streamer_allowed a r"
  shows "\<exists>r'. streamer_step a r = Inr r' \<and> streamer_inv r'"
proof (cases a)
  case (NewStream j t i x)
  then show ?thesis using new_stream_ok [OF assms(1), of j t i x] assms(2) by simp
next
  case (ServerMessage c m)
  with assms(2) obtain info where i: "map_of (sr_streams (run_streamer r))
      (sr_connections (run_streamer r) ! c) = Some info" by (auto elim: currentD)
  show ?thesis
  proof (cases m)
    case (StreamError e)
    then show ?thesis using finish_ok [OF assms(1), of "Receiver (Some e)"] i ServerMessage by simp
  next
    case (EndResponse t)
    then show ?thesis using close_ok [OF assms(1) i, of t] assms(2) i ServerMessage by simp
  qed
next
  case (ConnectionFinish c x)
  then have "result_error x \<noteq> None \<longrightarrow>
      map_of (sr_streams (run_streamer r)) (sr_connections (run_streamer r) ! c) \<noteq> None"
    using assms(2) by (auto elim: currentD)
  from finish_ok [OF assms(1) this] ConnectionFinish show ?thesis by simp
next
  case Clean
  then show ?thesis using assms(1) streamer_inv_clean [OF assms(1)] by simp
qed

interpretation streamer: machine streamer_step streamer_allowed streamer_inv
  by unfold_locales (rule streamer_step_ok)

definition StreamerRun_start :: "string \<Rightarrow> StreamerRun" where
  "StreamerRun_start a = \<lparr>run_streamer = Streamer_start a, sent = []\<rparr>"

lemma StreamerRun_start_inv: "streamer_inv (StreamerRun_start a)"
  by (simp add: StreamerRun_start_def Streamer_start_def streamer_inv_def waiting_of_def)


text \<open>A run of actions, whoever performs them.\<close>

fun streamer_run :: "streamer_action list \<Rightarrow> StreamerRun \<Rightarrow> StreamerRun outcome" where
  "streamer_run [] r = Inr r"
| "streamer_run (a # as) r = try_bind (streamer_step a r) (streamer_run as)"



end
