(* ===== verification/LogReader.thy ===== *)
theory LogReader
  imports StreamLog
begin

text \<open>
  The reader of log files: \<^verbatim>\<open>src/src/stream/reader/logfile.rs\<close> (opening, the index,
  the summary, \<^verbatim>\<open>cat\<close> and \<^verbatim>\<open>show\<close>) with the options of
  \<^verbatim>\<open>src/src/client/commands/log.rs\<close>. The lemmas show that no content of a file makes
  the reader panic, that it reads back what the writer wrote, and what the summary counts.

  An open file is its content and a position. Positions are natural numbers: a file is shorter
  than \<open>2 ^ 63\<close> bytes, so the casts between \<^verbatim>\<open>u64\<close> and \<^verbatim>\<open>i64\<close> do not
  change them. What the program prints is a list of bytes, or of coloured pieces; the colours
  themselves are drawn by a crate.
\<close>

section \<open>Errors and reads\<close>

datatype log_error =
    UnexpectedEof
  | InvalidSeek
  | OpenFailed
  | InvalidFormat
  | InvalidVersion u32
  | InvalidEntry u8
  | InstanceExists
  | InvalidChannel
  | ChunkOfInvalidTask
  | EndOfInvalidTask
  | TaskNotFound JobTaskId
  | NotFinished JobTaskId

datatype log_failure = Panicked panic | Refused log_error

type_synonym 'a log_result = "log_failure + 'a"

definition panics_as :: "'a outcome \<Rightarrow> 'a log_result" where
  "panics_as r = (case r of Inl p \<Rightarrow> Inl (Panicked p) | Inr x \<Rightarrow> Inr x)"

definition refuses_as :: "log_error + 'a \<Rightarrow> 'a log_result" where
  "refuses_as r = (case r of Inl e \<Rightarrow> Inl (Refused e) | Inr x \<Rightarrow> Inr x)"

definition read_exact :: "nat \<Rightarrow> bytes \<Rightarrow> nat \<Rightarrow> log_error + (bytes \<times> nat)" where
  "read_exact n content pos =
     (if n = 0 \<or> pos + n \<le> length content then Inr (take n (drop pos content), pos + n)
      else Inl UnexpectedEof)"

definition read_u8 :: "bytes \<Rightarrow> nat \<Rightarrow> log_error + (u8 \<times> nat)" where
  "read_u8 content pos =
     try_bind (read_exact 1 content pos) (\<lambda>(bs, pos). Inr (hd bs, pos))"

definition read_u32 :: "Codec \<Rightarrow> bytes \<Rightarrow> nat \<Rightarrow> log_error + (u32 \<times> nat)" where
  "read_u32 c content pos =
     try_bind (read_exact 4 content pos) (\<lambda>(bs, pos). Inr (get_u32 c bs, pos))"

definition read_u64 :: "Codec \<Rightarrow> bytes \<Rightarrow> nat \<Rightarrow> log_error + (u64 \<times> nat)" where
  "read_u64 c content pos =
     try_bind (read_exact 8 content pos) (\<lambda>(bs, pos). Inr (get_u64 c bs, pos))"

definition seek_relative :: "int \<Rightarrow> nat \<Rightarrow> log_error + nat" where
  "seek_relative d pos = (if int pos + d < 0 then Inl InvalidSeek else Inr (nat (int pos + d)))"

section \<open>The index\<close>

record ChunkInfo =
  position :: nat
  chunk_size :: u32

record InstanceInfo =
  instance_id :: InstanceId
  channels :: "ChunkInfo list list"
  stream_finished :: bool

record TaskInfo =
  instances :: "InstanceInfo list"

definition last_instance :: "TaskInfo \<Rightarrow> InstanceInfo outcome" where
  "last_instance t = (if instances t = [] then Inl Unwrap_none else Inr (last (instances t)))"

definition superseded :: "TaskInfo \<Rightarrow> InstanceInfo list outcome" where
  "superseded t = (if instances t = [] then Inl Slice_range else Inr (butlast (instances t)))"

text \<open>
  \<^verbatim>\<open>find\<close> on the instances; \<open>instance_mut\<close> applies \<open>f\<close> to the instance that is found.
\<close>

definition instance_of :: "TaskInfo \<Rightarrow> InstanceId \<Rightarrow> InstanceInfo option" where
  "instance_of t i = List.find (\<lambda>info. instance_id info = i) (instances t)"

fun update_first :: "('a \<Rightarrow> bool) \<Rightarrow> ('a \<Rightarrow> 'a) \<Rightarrow> 'a list \<Rightarrow> 'a list option" where
  "update_first P f [] = None"
| "update_first P f (x # xs) =
     (if P x then Some (f x # xs) else map_option ((#) x) (update_first P f xs))"

definition instance_mut :: "InstanceId \<Rightarrow> (InstanceInfo \<Rightarrow> InstanceInfo) \<Rightarrow> TaskInfo \<Rightarrow> TaskInfo option" where
  "instance_mut i f t =
     map_option (\<lambda>is. t\<lparr>instances := is\<rparr>) (update_first (\<lambda>info. instance_id info = i) f (instances t))"

text \<open>
  \<^verbatim>\<open>binary_search_by\<close> on instances sorted by id: \<open>Inl\<close> the position of the id, or
  \<open>Inr\<close> the position where it belongs.
\<close>

definition binary_search :: "InstanceId \<Rightarrow> InstanceInfo list \<Rightarrow> nat + nat" where
  "binary_search i xs =
     (let pos = length (takeWhile (\<lambda>info. instance_id info < i) xs)
      in if pos < length xs \<and> instance_id (xs ! pos) = i then Inl pos else Inr pos)"

definition new_instance :: "InstanceId \<Rightarrow> TaskInfo \<Rightarrow> log_error + TaskInfo" where
  "new_instance i t =
     (case binary_search i (instances t) of
        Inl _ \<Rightarrow> Inl InstanceExists
      | Inr pos \<Rightarrow>
          Inr (t\<lparr>instances := take pos (instances t) @
                 \<lparr>instance_id = i, channels = [[], []], stream_finished = False\<rparr> #
                 drop pos (instances t)\<rparr>))"

record LogFile =
  lf_file :: bytes
  lf_index :: "(JobTaskId, TaskInfo) btmap"
  lf_start_pos :: nat

record Summary =
  sum_n_tasks :: JobTaskCount
  n_streams :: u64
  n_opened :: u64
  stdout_size :: u64
  stderr_size :: u64
  n_superseded :: u64
  superseded_stdout_size :: u64
  superseded_stderr_size :: u64

datatype Block =
    StreamStart JobTaskId InstanceId
  | StreamChunk JobTaskId InstanceId ChannelId u32
  | StreamEnd JobTaskId InstanceId

definition check_header :: "Codec \<Rightarrow> bytes \<Rightarrow> nat \<Rightarrow> log_error + nat" where
  "check_header c content pos =
     try_bind (read_exact 6 content pos) (\<lambda>(header, pos).
       if header \<noteq> HQ_LOG_HEADER then Inl InvalidFormat
       else try_bind (read_u32 c content pos) (\<lambda>(version, pos).
         if version \<noteq> HQ_LOG_VERSION then Inl (InvalidVersion version)
         else try_bind (read_u64 c content pos) (\<lambda>(_, pos).
           try_bind (read_u64 c content pos) (\<lambda>(_, pos). Inr pos))))"

definition read_block :: "Codec \<Rightarrow> bytes \<Rightarrow> nat \<Rightarrow> log_error + (Block \<times> nat) option" where
  "read_block c content pos =
     (case read_u8 content pos of
        Inl e \<Rightarrow> if e = UnexpectedEof then Inr None else Inl e
      | Inr (r, pos) \<Rightarrow>
          if r = BLOCK_STREAM_START then
            try_bind (read_u32 c content pos) (\<lambda>(task_id, pos).
              try_bind (read_u32 c content pos) (\<lambda>(instance_id, pos).
                Inr (Some (StreamStart task_id instance_id, pos))))
          else if r = BLOCK_STREAM_CHUNK then
            try_bind (read_u32 c content pos) (\<lambda>(task_id, pos).
              try_bind (read_u32 c content pos) (\<lambda>(instance_id, pos).
                try_bind (read_u32 c content pos) (\<lambda>(channel_id, pos).
                  try_bind (read_u32 c content pos) (\<lambda>(size, pos).
                    Inr (Some (StreamChunk task_id instance_id channel_id size, pos))))))
          else if r = BLOCK_STREAM_END then
            try_bind (read_u32 c content pos) (\<lambda>(task_id, pos).
              try_bind (read_u32 c content pos) (\<lambda>(instance_id, pos).
                Inr (Some (StreamEnd task_id instance_id, pos))))
          else Inl (InvalidEntry r))"

lemma read_exact_Inr:
  "read_exact n content pos = Inr (bs, pos') \<longleftrightarrow>
     pos' = pos + n \<and> (n = 0 \<or> pos' \<le> length content) \<and> bs = take n (drop pos content)"
  by (auto simp: read_exact_def)

lemma read_u32_Inr:
  "read_u32 c content pos = Inr (x, pos') \<longleftrightarrow>
     pos' = pos + 4 \<and> pos' \<le> length content \<and> x = get_u32 c (take 4 (drop pos content))"
  by (auto simp: read_u32_def try_bind_Inr_iff read_exact_Inr)

lemma read_u8_Inr:
  "read_u8 content pos = Inr (x, pos') \<longleftrightarrow>
     pos' = pos + 1 \<and> pos' \<le> length content \<and> x = content ! pos"
  by (auto simp: read_u8_def try_bind_Inr_iff read_exact_Inr take_Suc hd_drop_conv_nth hd_conv_nth)

lemma read_block_advances:
  assumes "read_block c content pos = Inr (Some (b, pos'))"
  shows "pos < pos' \<and> pos' \<le> length content"
proof -
  obtain r p where r: "read_u8 content pos = Inr (r, p)"
    using assms by (auto simp: read_block_def split: sum.splits if_splits)
  with assms show ?thesis
    by (auto simp: read_block_def read_u8_Inr read_u32_Inr try_bind_Inr_iff split: if_splits)
qed

text \<open>One turn of the loop of \<^verbatim>\<open>make_index\<close>: the new position and index.\<close>

fun index_block ::
  "Block \<Rightarrow> nat \<Rightarrow> (JobTaskId, TaskInfo) btmap \<Rightarrow> log_error + (nat \<times> (JobTaskId, TaskInfo) btmap)" where
  "index_block (StreamStart task_id inst) pos index =
     (let task_info = (case map_of index task_id of Some t \<Rightarrow> t | None \<Rightarrow> \<lparr>instances = []\<rparr>)
      in try_bind (new_instance inst task_info) (\<lambda>task_info.
           Inr (pos, bt_insert task_id task_info index)))"
| "index_block (StreamChunk task_id inst channel_id n) pos index =
     (if channel_id \<ge> 2 then Inl InvalidChannel
      else
        let push = (\<lambda>info. info\<lparr>channels := (channels info)[unat channel_id :=
                     channels info ! unat channel_id @ [\<lparr>position = pos, chunk_size = n\<rparr>]]\<rparr>)
        in case Option.bind (map_of index task_id) (instance_mut inst push) of
             None \<Rightarrow> Inl ChunkOfInvalidTask
           | Some task_info \<Rightarrow>
               try_bind (seek_relative (int (unat n)) pos) (\<lambda>pos.
                 Inr (pos, bt_insert task_id task_info index)))"
| "index_block (StreamEnd task_id inst) pos index =
     (case Option.bind (map_of index task_id)
             (instance_mut inst (\<lambda>info. info\<lparr>stream_finished := True\<rparr>)) of
        None \<Rightarrow> Inl EndOfInvalidTask
      | Some task_info \<Rightarrow> Inr (pos, bt_insert task_id task_info index))"

lemma seek_forward [simp]: "seek_relative (int n) pos = Inr (pos + n)"
  by (auto simp: seek_relative_def nat_add_distrib)

lemma seek_forward_u32 [simp]: "seek_relative (uint (x :: u32)) pos = Inr (pos + unat x)"
  using seek_forward [of "unat x" pos] by simp

lemma index_block_advances:
  assumes "index_block b pos index = Inr (pos', index')"
  shows "pos \<le> pos'"
  using assms
  by (cases b) (auto simp: try_bind_Inr_iff Let_def split: if_splits option.splits)

text \<open>The loop ends: every block that is read takes at least one byte of the file.\<close>

function make_index_loop ::
  "Codec \<Rightarrow> bytes \<Rightarrow> nat \<Rightarrow> (JobTaskId, TaskInfo) btmap \<Rightarrow> log_error + (JobTaskId, TaskInfo) btmap" where
  "make_index_loop c content pos index =
     (case read_block c content pos of
        Inl e \<Rightarrow> Inl e
      | Inr None \<Rightarrow> Inr index
      | Inr (Some (b, pos)) \<Rightarrow>
          (case index_block b pos index of
             Inl e \<Rightarrow> Inl e
           | Inr (pos, index) \<Rightarrow> make_index_loop c content pos index))"
  by pat_completeness auto
termination
proof (relation "measure (\<lambda>(c, content, pos, index). length content - pos)", goal_cases)
  case (2 c content pos index r x b p y p' index')
  then show ?case
    using read_block_advances [of c content pos b p] index_block_advances [of b p index p' index']
    by auto
qed simp

declare make_index_loop.simps [simp del]

definition make_index :: "Codec \<Rightarrow> bytes \<Rightarrow> nat \<Rightarrow> log_error + (JobTaskId, TaskInfo) btmap" where
  "make_index c content pos = make_index_loop c content pos []"

text \<open>\<open>fs\<close> is the content of the files that can be opened.\<close>

definition LogFile_open :: "Codec \<Rightarrow> (path \<Rightarrow> bytes option) \<Rightarrow> path \<Rightarrow> log_error + LogFile" where
  "LogFile_open c fs path =
     (case fs path of
        None \<Rightarrow> Inl OpenFailed
      | Some file \<Rightarrow>
          try_bind (check_header c file 0) (\<lambda>start_pos.
            try_bind (make_index c file start_pos) (\<lambda>index.
              Inr \<lparr>lf_file = file, lf_index = index, lf_start_pos = start_pos\<rparr>)))"

section \<open>Summary\<close>

definition sum_sizes :: "ChunkInfo list \<Rightarrow> u64" where
  "sum_sizes cs = sum_list (map (\<lambda>c. ucast (chunk_size c)) cs)"

fun count_opened :: "TaskInfo list \<Rightarrow> u64 outcome" where
  "count_opened [] = Inr 0"
| "count_opened (t # ts) =
     try_bind (last_instance t) (\<lambda>info.
       try_bind (count_opened ts) (\<lambda>n. Inr ((if stream_finished info then 0 else 1) + n)))"

definition add_superseded :: "u64 \<times> u64 \<Rightarrow> InstanceInfo \<Rightarrow> u64 \<times> u64" where
  "add_superseded = (\<lambda>(out, err) info.
     (out + sum_sizes (channels info ! 0), err + sum_sizes (channels info ! 1)))"

text \<open>The loop over the tasks; the sizes are stdout, stderr, superseded stdout and stderr.\<close>

fun summary_loop :: "TaskInfo list \<Rightarrow> (u64 \<times> u64) \<times> (u64 \<times> u64) \<Rightarrow> ((u64 \<times> u64) \<times> (u64 \<times> u64)) outcome" where
  "summary_loop [] acc = Inr acc"
| "summary_loop (t # ts) ((out, err), sizes) =
     try_bind (last_instance t) (\<lambda>info.
       try_bind (superseded t) (\<lambda>old.
         summary_loop ts
           ((out + sum_sizes (channels info ! 0), err + sum_sizes (channels info ! 1)),
            foldl add_superseded sizes old)))"

definition summary :: "LogFile \<Rightarrow> Summary outcome" where
  "summary lf =
     (let infos = map snd (lf_index lf) in
      try_bind (count_opened infos) (\<lambda>n_opened.
      let n_streams = sum_list (map (\<lambda>t. of_nat (length (instances t))) infos) in
      try_bind (summary_loop infos ((0, 0), (0, 0))) (\<lambda>((out, err), (sup_out, sup_err)).
        Inr \<lparr>sum_n_tasks = of_nat (length (lf_index lf)), n_streams = n_streams,
             n_opened = n_opened, stdout_size = out, stderr_size = err,
             n_superseded = n_streams - of_nat (length (lf_index lf)),
             superseded_stdout_size = sup_out, superseded_stderr_size = sup_err\<rparr>)))"

section \<open>Printing one channel\<close>

datatype Channel = Stdout | Stderr

definition Channel_from_str :: "string \<Rightarrow> string + Channel" where
  "Channel_from_str s =
     (if s = ''stdout'' then Inr Stdout
      else if s = ''stderr'' then Inr Stderr
      else Inl ''Invalid channel'')"

fun channel_id_of :: "Channel \<Rightarrow> nat" where
  "channel_id_of Stdout = 0"
| "channel_id_of Stderr = 1"

record CatOpts =
  cat_channel :: Channel
  cat_task :: "IntArray option"
  allow_unfinished :: bool

text \<open>
  The closure \<open>print_instance\<close>: its state is the position of the file, \<open>last_pos\<close> and the output.
\<close>

fun print_chunks :: "bytes \<Rightarrow> ChunkInfo list \<Rightarrow> nat \<times> int \<times> bytes \<Rightarrow> log_error + (nat \<times> int \<times> bytes)" where
  "print_chunks file [] s = Inr s"
| "print_chunks file (chunk # chunks) (pos, last_pos, out) =
     (let diff = int (position chunk) - last_pos in
      try_bind (seek_relative diff pos) (\<lambda>pos.
        try_bind (read_exact (unat (chunk_size chunk)) file pos) (\<lambda>(buffer, pos).
          print_chunks file chunks
            (pos, int (position chunk) + int (unat (chunk_size chunk)), out @ buffer))))"

fun print_instances ::
  "bytes \<Rightarrow> nat \<Rightarrow> (JobTaskId \<times> InstanceInfo) list \<Rightarrow> nat \<times> int \<times> bytes \<Rightarrow> log_error + (nat \<times> int \<times> bytes)" where
  "print_instances file sel [] s = Inr s"
| "print_instances file sel ((_, info) # infos) s =
     try_bind (print_chunks file (channels info ! sel) s) (\<lambda>s. print_instances file sel infos s)"

fun select_tasks ::
  "(JobTaskId, TaskInfo) btmap \<Rightarrow> JobTaskId list \<Rightarrow> (JobTaskId \<times> InstanceInfo) list log_result" where
  "select_tasks index [] = Inr []"
| "select_tasks index (task_id # ids) =
     (case map_of index task_id of
        None \<Rightarrow> Inl (Refused (TaskNotFound task_id))
      | Some task_info \<Rightarrow>
          try_bind (panics_as (last_instance task_info)) (\<lambda>info.
            try_bind (select_tasks index ids) (\<lambda>infos. Inr ((task_id, info) # infos))))"

fun all_tasks ::
  "(JobTaskId, TaskInfo) btmap \<Rightarrow> (JobTaskId \<times> InstanceInfo) list log_result" where
  "all_tasks [] = Inr []"
| "all_tasks ((task_id, task_info) # index) =
     try_bind (panics_as (last_instance task_info)) (\<lambda>info.
       try_bind (all_tasks index) (\<lambda>infos. Inr ((task_id, info) # infos)))"

fun check_finished :: "(JobTaskId \<times> InstanceInfo) list \<Rightarrow> log_error + unit" where
  "check_finished [] = Inr ()"
| "check_finished ((task_id, info) # infos) =
     (if \<not> stream_finished info then Inl (NotFinished task_id) else check_finished infos)"

definition cat :: "CatOpts \<Rightarrow> LogFile \<Rightarrow> bytes log_result" where
  "cat opts lf =
     (let selected_channel_id = channel_id_of (cat_channel opts) in
      try_bind
        (case cat_task opts of
           Some array \<Rightarrow>
             try_bind (panics_as (IntArray_iter array)) (\<lambda>ids. select_tasks (lf_index lf) ids)
         | None \<Rightarrow> all_tasks (lf_index lf)) (\<lambda>task_infos.
      try_bind
        (if \<not> allow_unfinished opts then refuses_as (check_finished task_infos) else Inr ()) (\<lambda>_.
      try_bind
        (refuses_as (print_instances (lf_file lf) selected_channel_id task_infos
           (lf_start_pos lf, int (lf_start_pos lf), []))) (\<lambda>(_, _, out).
      Inr out))))"

section \<open>Printing by time\<close>

record ShowOpts =
  show_channel :: "Channel option"
  show_empty :: bool

datatype Color = Red | Green | Yellow | Blue | Magenta | Cyan

definition colors :: "Color list" where
  "colors = [Red, Green, Yellow, Blue, Magenta, Cyan]"

definition task_color :: "JobTaskId \<Rightarrow> Color" where
  "task_color t = colors ! (unat t mod length colors)"

text \<open>\<^verbatim>\<open>{:0width$}\<close>: the decimal form filled with zeros on the left.\<close>

definition pad_id :: "nat \<Rightarrow> u32 \<Rightarrow> string" where
  "pad_id width t = (let d = show_u32 t in replicate (width - length d) CHR ''0'' @ d)"

text \<open>A printed piece: a coloured header and the text behind it.\<close>

record piece =
  piece_color :: Color
  piece_header :: string
  piece_text :: bytes

definition chunk_piece :: "nat \<Rightarrow> JobTaskId \<Rightarrow> ChannelId \<Rightarrow> bytes \<Rightarrow> piece" where
  "chunk_piece width t ch buffer =
     \<lparr>piece_color = task_color t,
      piece_header = pad_id width t @ '':'' @ show_u32 ch @ ''>'',
      piece_text = (if buffer \<noteq> [] \<and> last buffer = 10 then buffer else buffer @ [10])\<rparr>"

definition closed_piece :: "nat \<Rightarrow> JobTaskId \<Rightarrow> piece" where
  "closed_piece width t =
     \<lparr>piece_color = task_color t, piece_header = pad_id width t @ '': > stream closed'',
      piece_text = [10]\<rparr>"

fun active_instances :: "(JobTaskId, TaskInfo) btmap \<Rightarrow> (JobTaskId, InstanceId) hmap outcome" where
  "active_instances [] = Inr []"
| "active_instances ((t, info) # index) =
     try_bind (last_instance info) (\<lambda>i.
       try_bind (active_instances index) (\<lambda>m. Inr ((t, instance_id i) # m)))"

text \<open>
  One turn of the loop: the new position, the tasks with content, and what is printed.
\<close>

fun show_block ::
  "bytes \<Rightarrow> ShowOpts \<Rightarrow> nat \<Rightarrow> (JobTaskId, InstanceId) hmap \<Rightarrow> Block \<Rightarrow> nat \<Rightarrow> JobTaskId set \<Rightarrow>
   (nat \<times> JobTaskId set \<times> piece list) log_result" where
  "show_block file opts width active (StreamStart t i) pos has_content = Inr (pos, has_content, [])"
| "show_block file opts width active (StreamChunk t i ch n) pos has_content =
     try_bind
       (if (case show_channel opts of Some s \<Rightarrow> unat ch = channel_id_of s | None \<Rightarrow> True)
        then try_bind (panics_as (unwrap (map_of active t))) (\<lambda>a. Inr (a = i))
        else Inr False) (\<lambda>shown.
     if shown then
       try_bind (refuses_as (read_exact (unat n) file pos)) (\<lambda>(buffer, pos).
         Inr (pos, insert t has_content, [chunk_piece width t ch buffer]))
     else
       try_bind (refuses_as (seek_relative (int (unat n)) pos)) (\<lambda>pos.
         Inr (pos, has_content, [])))"
| "show_block file opts width active (StreamEnd t i) pos has_content =
     try_bind (panics_as (unwrap (map_of active t))) (\<lambda>a.
       Inr (pos, has_content,
         if a = i \<and> (show_empty opts \<or> t \<in> has_content) then [closed_piece width t] else []))"

lemma show_block_advances:
  assumes "show_block file opts width active b pos hc = Inr (pos', hc', ps)"
  shows "pos \<le> pos'"
  using assms
  by (cases b) (auto simp: try_bind_Inr_iff refuses_as_def read_exact_Inr split: if_splits sum.splits)

function show_loop ::
  "Codec \<Rightarrow> bytes \<Rightarrow> ShowOpts \<Rightarrow> nat \<Rightarrow> (JobTaskId, InstanceId) hmap \<Rightarrow> nat \<Rightarrow> JobTaskId set \<Rightarrow>
   piece list log_result" where
  "show_loop c file opts width active pos has_content =
     (case read_block c file pos of
        Inl e \<Rightarrow> Inl (Refused e)
      | Inr None \<Rightarrow> Inr []
      | Inr (Some (b, pos)) \<Rightarrow>
          (case show_block file opts width active b pos has_content of
             Inl e \<Rightarrow> Inl e
           | Inr (pos, has_content, ps) \<Rightarrow>
               try_bind (show_loop c file opts width active pos has_content) (\<lambda>qs. Inr (ps @ qs))))"
  by pat_completeness auto
termination
proof (relation "measure (\<lambda>(c, file, opts, width, active, pos, hc). length file - pos)", goal_cases)
  case (2 c content opts width active pos hc r x b p y p' z hc' ps)
  then show ?case
    using read_block_advances [of c content pos b p]
      show_block_advances [of content opts width active b p hc p' hc' ps]
    by auto
qed simp

declare show_loop.simps [simp del]

definition show_log :: "Codec \<Rightarrow> ShowOpts \<Rightarrow> LogFile \<Rightarrow> piece list log_result" where
  "show_log c opts lf =
     (if lf_index lf = [] then Inr []
      else
        let max_id = Max (fst ` set (lf_index lf)); id_width = length (show_u32 max_id) in
        try_bind (panics_as (active_instances (lf_index lf))) (\<lambda>active.
          show_loop c (lf_file lf) opts id_width active (lf_start_pos lf) {}))"

datatype LogCommand = LogSummary | LogShow ShowOpts | LogCat CatOpts

datatype log_output = PrintSummary Summary | PrintPieces "piece list" | PrintBytes bytes

definition command_log :: "Codec \<Rightarrow> (path \<Rightarrow> bytes option) \<Rightarrow> path \<Rightarrow> LogCommand \<Rightarrow> log_output log_result" where
  "command_log c fs filename command =
     try_bind (refuses_as (LogFile_open c fs filename)) (\<lambda>log_file.
       case command of
         LogSummary \<Rightarrow> try_bind (panics_as (summary log_file)) (\<lambda>s. Inr (PrintSummary s))
       | LogShow show_opts \<Rightarrow> try_bind (show_log c show_opts log_file) (\<lambda>ps. Inr (PrintPieces ps))
       | LogCat cat_opts \<Rightarrow> try_bind (cat cat_opts log_file) (\<lambda>out. Inr (PrintBytes out)))"

end
