(* ===== verification/LogRoundtrip.thy ===== *)
theory LogRoundtrip
  imports LogReader
begin

text \<open>
  Correctness of the log reader: the index implements a map from streams to their chunks, no
  content of a file makes a command panic, and what the writer of \<open>StreamLog\<close> wrote is what
  \<^verbatim>\<open>cat\<close> prints and \<^verbatim>\<open>summary\<close> counts.
\<close>

section \<open>The index as a map of streams\<close>

definition index_wf :: "(JobTaskId, TaskInfo) btmap \<Rightarrow> bool" where
  "index_wf index \<longleftrightarrow> bt_sorted index \<and>
     (\<forall>t info. map_of index t = Some info \<longrightarrow>
        instances info \<noteq> [] \<and> sorted_wrt (<) (map instance_id (instances info)))"

definition look :: "(JobTaskId, TaskInfo) btmap \<Rightarrow> JobTaskId \<Rightarrow> InstanceId \<Rightarrow> InstanceInfo option" where
  "look index t i = Option.bind (map_of index t) (\<lambda>info. instance_of info i)"

definition fresh_instance :: "InstanceId \<Rightarrow> InstanceInfo" where
  "fresh_instance i = \<lparr>instance_id = i, channels = [[], []], stream_finished = False\<rparr>"

lemma index_wf_Nil [simp]: "index_wf []"
  by (simp add: index_wf_def)

lemma find_Some_mem: "List.find P xs = Some x \<Longrightarrow> x \<in> set xs \<and> P x"
  by (induction xs) (auto split: if_splits)

lemma instance_of_id: "instance_of t i = Some inst \<Longrightarrow> instance_id inst = i \<and> inst \<in> set (instances t)"
  by (auto simp: instance_of_def dest: find_Some_mem)

lemma instance_of_mem:
  assumes "sorted_wrt (<) (map instance_id (instances t))" "inst \<in> set (instances t)"
  shows "instance_of t (instance_id inst) = Some inst"
proof -
  have "sorted_wrt (<) (map instance_id xs) \<Longrightarrow> inst \<in> set xs \<Longrightarrow>
    List.find (\<lambda>info. instance_id info = instance_id inst) xs = Some inst" for xs
    by (induction xs) auto
  with assms show ?thesis by (simp add: instance_of_def)
qed

lemma binary_search_simps [simp]:
  "binary_search i [] = Inr 0"
  "binary_search i (x # xs) =
     (if instance_id x < i then map_sum Suc Suc (binary_search i xs)
      else if instance_id x = i then Inl 0 else Inr 0)"
  by (auto simp: binary_search_def Let_def)

text \<open>Where the binary search fails, inserting at its position keeps the order.\<close>

lemma binary_search_insert:
  assumes "sorted_wrt (<) (map instance_id xs)" "binary_search i xs = Inr pos"
  shows "sorted_wrt (<) (map instance_id (take pos xs @ fresh_instance i # drop pos xs)) \<and>
    List.find (\<lambda>info. instance_id info = i') (take pos xs @ fresh_instance i # drop pos xs) =
      (if i' = i then Some (fresh_instance i) else List.find (\<lambda>info. instance_id info = i') xs) \<and>
    List.find (\<lambda>info. instance_id info = i) xs = None"
  using assms
proof (induction xs arbitrary: pos)
  case Nil
  then show ?case by (simp add: fresh_instance_def)
next
  case (Cons x xs)
  have s: "sorted_wrt (<) (map instance_id xs)" "\<forall>y\<in>set xs. instance_id x < instance_id y"
    using Cons.prems(1) by simp_all
  show ?case
  proof (cases "instance_id x < i")
    case True
    with Cons.prems(2) obtain p where p: "binary_search i xs = Inr p" "pos = Suc p"
      by (cases "binary_search i xs") simp_all
    have "\<forall>y\<in>set (take p xs @ fresh_instance i # drop p xs). instance_id x < instance_id y"
      using s(2) True by (auto simp: fresh_instance_def dest: in_set_takeD in_set_dropD)
    with Cons.IH [OF s(1) p(1)] p(2) True show ?thesis by auto
  next
    case False
    with Cons.prems(2) have p: "pos = 0" "i < instance_id x" by (auto split: if_splits)
    then have "\<forall>y\<in>set (x # xs). i < instance_id y" using s(2) by auto
    with p s show ?thesis by (auto simp: fresh_instance_def find_None_iff)
  qed
qed

lemma binary_search_found:
  assumes "sorted_wrt (<) (map instance_id xs)" "binary_search i xs = Inl pos"
  shows "List.find (\<lambda>info. instance_id info = i) xs \<noteq> None"
  using assms
proof (induction xs arbitrary: pos)
  case (Cons x xs)
  then show ?case by (cases "binary_search i xs") (auto split: if_splits)
qed simp

text \<open>Changing the instance that is found.\<close>

lemma update_first_find:
  assumes "List.find P xs = Some x" "P (f x)"
  shows "\<exists>ys. update_first P f xs = Some ys \<and> length ys = length xs \<and>
    (\<forall>Q. (\<forall>y. P y \<longrightarrow> \<not> Q y) \<longrightarrow> List.find Q ys = List.find Q xs) \<and> List.find P ys = Some (f x) \<and>
    (\<forall>g. g (f x) = g x \<longrightarrow> map g ys = map g xs)"
  using assms(1)
proof (induction xs)
  case (Cons a xs)
  then show ?case using assms(2) by (cases "P a") auto
qed simp

lemma update_first_None: "update_first P f xs = None \<longleftrightarrow> List.find P xs = None"
  by (induction xs) auto

lemma index_wfD:
  assumes "index_wf index" "map_of index t = Some info"
  shows "instances info \<noteq> []" "sorted_wrt (<) (map instance_id (instances info))"
  using assms by (auto simp: index_wf_def)

lemma index_wf_sorted: "index_wf index \<Longrightarrow> bt_sorted index"
  by (simp add: index_wf_def)

lemma index_put:
  assumes "index_wf index" "instances info \<noteq> []" "sorted_wrt (<) (map instance_id (instances info))"
  shows "index_wf (bt_insert t info index)"
    and "look (bt_insert t info index) = (look index)(t := instance_of info)"
  using assms by (auto simp: index_wf_def look_def fun_eq_iff bt.wf_ins bt.look_ins)

lemma new_instance_ok:
  assumes "sorted_wrt (<) (map instance_id (instances info))"
  shows "(instance_of info i \<noteq> None \<longrightarrow> new_instance i info = Inl InstanceExists) \<and>
    (instance_of info i = None \<longrightarrow> (\<exists>info'. new_instance i info = Inr info' \<and> instances info' \<noteq> [] \<and>
       sorted_wrt (<) (map instance_id (instances info')) \<and>
       instance_of info' = (instance_of info)(i \<mapsto> fresh_instance i)))"
proof (cases "binary_search i (instances info)")
  case (Inl p)
  with binary_search_found [OF assms this] show ?thesis
    by (simp add: instance_of_def new_instance_def)
next
  case (Inr p)
  note b = binary_search_insert [OF assms Inr]
  have "instance_of info i = None" using b by (simp add: instance_of_def)
  moreover have "new_instance i info =
      Inr (info\<lparr>instances := take p (instances info) @ fresh_instance i # drop p (instances info)\<rparr>)"
    by (simp add: new_instance_def Inr fresh_instance_def)
  ultimately show ?thesis using b by (simp add: instance_of_def fun_eq_iff)
qed

lemma instance_mut_ok:
  assumes "sorted_wrt (<) (map instance_id (instances info))" "\<And>inst. instance_id (f inst) = instance_id inst"
  shows "(instance_of info i = None \<longrightarrow> instance_mut i f info = None) \<and>
    (\<forall>inst. instance_of info i = Some inst \<longrightarrow> (\<exists>info'. instance_mut i f info = Some info' \<and>
       instances info' \<noteq> [] \<and> sorted_wrt (<) (map instance_id (instances info')) \<and>
       instance_of info' = (instance_of info)(i \<mapsto> f inst)))"
proof -
  let ?P = "\<lambda>info. instance_id info = i"
  have "\<exists>info'. instance_mut i f info = Some info' \<and>
       instances info' \<noteq> [] \<and> sorted_wrt (<) (map instance_id (instances info')) \<and>
       instance_of info' = (instance_of info)(i \<mapsto> f inst)"
    if inst: "instance_of info i = Some inst" for inst
  proof -
    have F: "List.find ?P (instances info) = Some inst" using inst by (simp add: instance_of_def)
    have P: "?P (f inst)" using instance_of_id [OF inst] assms(2) by simp
    obtain ys where ys: "update_first ?P f (instances info) = Some ys" "length ys = length (instances info)"
      "\<And>Q. (\<forall>y. ?P y \<longrightarrow> \<not> Q y) \<Longrightarrow> List.find Q ys = List.find Q (instances info)"
      "List.find ?P ys = Some (f inst)" "map instance_id ys = map instance_id (instances info)"
      using update_first_find [OF F, of f, OF P] assms(2) by blast
    have "instances info \<noteq> []" using F by auto
    with ys(2) have "ys \<noteq> []" by auto
    moreover have "List.find (\<lambda>info. instance_id info = i') ys =
        (if i' = i then Some (f inst) else List.find (\<lambda>info. instance_id info = i') (instances info))" for i'
      using ys(3) [of "\<lambda>info. instance_id info = i'"] ys(4) by auto
    ultimately show ?thesis using ys(1,5) assms(1) by (simp add: instance_mut_def instance_of_def fun_eq_iff)
  qed
  then show ?thesis by (auto simp: instance_mut_def instance_of_def update_first_None)
qed

text \<open>Blocks as operations on a map of streams: the specification of the index.\<close>

type_synonym streams = "JobTaskId \<Rightarrow> InstanceId \<Rightarrow> InstanceInfo option"

definition set_stream :: "JobTaskId \<Rightarrow> InstanceId \<Rightarrow> InstanceInfo \<Rightarrow> streams \<Rightarrow> streams" where
  "set_stream t i inst m = m(t := (m t)(i \<mapsto> inst))"

definition push_chunk :: "ChannelId \<Rightarrow> nat \<Rightarrow> u32 \<Rightarrow> InstanceInfo \<Rightarrow> InstanceInfo" where
  "push_chunk ch pos n inst =
     inst\<lparr>channels := (channels inst)[unat ch :=
        channels inst ! unat ch @ [\<lparr>position = pos, chunk_size = n\<rparr>]]\<rparr>"

fun spec_block :: "Block \<Rightarrow> nat \<Rightarrow> streams \<Rightarrow> log_error + (nat \<times> streams)" where
  "spec_block (StreamStart t i) pos m =
     (if m t i = None then Inr (pos, set_stream t i (fresh_instance i) m) else Inl InstanceExists)"
| "spec_block (StreamChunk t i ch n) pos m =
     (if ch \<ge> 2 then Inl InvalidChannel
      else case m t i of
        None \<Rightarrow> Inl ChunkOfInvalidTask
      | Some inst \<Rightarrow> Inr (pos + unat n, set_stream t i (push_chunk ch pos n inst) m))"
| "spec_block (StreamEnd t i) pos m =
     (case m t i of
        None \<Rightarrow> Inl EndOfInvalidTask
      | Some inst \<Rightarrow> Inr (pos, set_stream t i (inst\<lparr>stream_finished := True\<rparr>) m))"

definition index_result ::
  "log_error + (nat \<times> (JobTaskId, TaskInfo) btmap) \<Rightarrow> log_error + (nat \<times> streams)" where
  "index_result r = map_sum id (map_prod id look) r"

lemma index_result_simps [simp]:
  "index_result (Inl e) = Inl e"
  "index_result (Inr (p, index)) = Inr (p, look index)"
  by (simp_all add: index_result_def)

lemma index_mut_ok:
  assumes "index_wf index" "\<And>inst. instance_id (f inst) = instance_id inst"
  shows "(look index t i = None \<longrightarrow> Option.bind (map_of index t) (instance_mut i f) = None) \<and>
    (\<forall>inst. look index t i = Some inst \<longrightarrow>
      (\<exists>info. Option.bind (map_of index t) (instance_mut i f) = Some info \<and>
        index_wf (bt_insert t info index) \<and>
        look (bt_insert t info index) = set_stream t i (f inst) (look index)))"
proof (cases "map_of index t")
  case None
  then show ?thesis by (simp add: look_def)
next
  case (Some info)
  note w = index_wfD [OF assms(1) Some]
  have l: "look index t = instance_of info" by (simp add: look_def Some fun_eq_iff)
  note m = instance_mut_ok [OF w(2), of f i, OF assms(2)]
  have "\<exists>info'. instance_mut i f info = Some info' \<and> index_wf (bt_insert t info' index) \<and>
      look (bt_insert t info' index) = set_stream t i (f inst) (look index)"
    if h: "instance_of info i = Some inst" for inst
  proof -
    obtain info' where "instance_mut i f info = Some info'" "instances info' \<noteq> []"
      "sorted_wrt (<) (map instance_id (instances info'))"
      "instance_of info' = (instance_of info)(i \<mapsto> f inst)"
      using m [THEN conjunct2, rule_format, OF h] by blast
    then show ?thesis using index_put [OF assms(1), of info' t] by (simp add: set_stream_def l)
  qed
  with m show ?thesis by (auto simp: Some l)
qed

lemma index_start_ok:
  assumes "index_wf index"
  shows "(look index t i \<noteq> None \<longrightarrow> index_block (StreamStart t i) pos index = Inl InstanceExists) \<and>
    (look index t i = None \<longrightarrow>
      (\<exists>info. index_block (StreamStart t i) pos index = Inr (pos, bt_insert t info index) \<and>
        index_wf (bt_insert t info index) \<and>
        look (bt_insert t info index) = set_stream t i (fresh_instance i) (look index)))"
proof -
  define info where "info = (case map_of index t of Some t \<Rightarrow> t | None \<Rightarrow> \<lparr>instances = []\<rparr>)"
  have w: "sorted_wrt (<) (map instance_id (instances info))"
    using index_wfD(2) [OF assms] by (auto simp: info_def split: option.splits)
  have l: "look index t = instance_of info"
    by (auto simp: look_def info_def fun_eq_iff instance_of_def split: option.splits)
  have b: "index_block (StreamStart t i) pos index =
      try_bind (new_instance i info) (\<lambda>info. Inr (pos, bt_insert t info index))"
    by (simp add: info_def Let_def)
  note n = new_instance_ok [OF w, of i]
  show ?thesis
  proof (cases "instance_of info i")
    case None
    then obtain info' where "new_instance i info = Inr info'" "instances info' \<noteq> []"
      "sorted_wrt (<) (map instance_id (instances info'))"
      "instance_of info' = (instance_of info)(i \<mapsto> fresh_instance i)"
      using n [THEN conjunct2, rule_format, OF None] by blast
    then show ?thesis using None index_put [OF assms, of info' t] unfolding b
      by (auto simp: set_stream_def l)
  next
    case (Some inst)
    with n show ?thesis unfolding b by (simp add: l)
  qed
qed

lemma index_block_spec:
  assumes "index_wf index"
  shows "index_result (index_block b pos index) = spec_block b pos (look index) \<and>
    (\<forall>p index'. index_block b pos index = Inr (p, index') \<longrightarrow> index_wf index')"
proof (cases b)
  case (StreamStart t i)
  with index_start_ok [OF assms, of t i pos] show ?thesis by (cases "look index t i") auto
next
  case (StreamChunk t i ch n)
  have e: "(\<lambda>info. info\<lparr>channels := (channels info)[unat ch :=
      channels info ! unat ch @ [\<lparr>position = pos, chunk_size = n\<rparr>]]\<rparr>) = push_chunk ch pos n"
    by (simp add: push_chunk_def fun_eq_iff)
  have f: "instance_id (push_chunk ch pos n inst) = instance_id inst" for inst
    by (simp add: push_chunk_def)
  from index_mut_ok [OF assms, of "push_chunk ch pos n" t i, OF f] StreamChunk
  show ?thesis by (cases "look index t i") (auto simp: Let_def e)
next
  case (StreamEnd t i)
  from index_mut_ok [OF assms, of "\<lambda>inst. inst\<lparr>stream_finished := True\<rparr>" t i] StreamEnd
  show ?thesis by (cases "look index t i") auto
qed

text \<open>
  Claim C18. The index implements the map of streams: on every block it fails exactly when the
  specification fails, with the same error, and otherwise moves to the same position and to an
  index whose lookup is the map of the specification, its order kept.
\<close>

theorem index_block_refines:
  assumes "index_wf index"
  shows "index_result (index_block b pos index) = spec_block b pos (look index) \<and>
    pred_sum (\<lambda>_. True) (\<lambda>(_, index'). index_wf index') (index_block b pos index)"
  using index_block_spec [OF assms, of b pos] by (cases "index_block b pos index") auto

theorem index_block_refines_witness:
  "index_result (index_block (StreamChunk 3 0 1 20) 43
     [(3, \<lparr>instances = [fresh_instance 0]\<rparr>)]) =
   Inr (63, set_stream 3 0
     \<lparr>instance_id = 0, channels = [[], [\<lparr>position = 43, chunk_size = 20\<rparr>]], stream_finished = False\<rparr>
     (look [(3, \<lparr>instances = [fresh_instance 0]\<rparr>)]))"
proof -
  have "index_wf [(3, \<lparr>instances = [fresh_instance 0]\<rparr>)]" by (auto simp: index_wf_def split: if_splits)
  from index_block_refines [OF this, of "StreamChunk 3 0 1 20" 43] show ?thesis
    by (simp add: look_def instance_of_def fresh_instance_def push_chunk_def word_le_nat_alt del: index_block.simps)
qed

section \<open>No content of a file makes the reader panic\<close>

definition log_safe :: "'a log_result \<Rightarrow> bool" where
  "log_safe r \<longleftrightarrow> (\<forall>p. r \<noteq> Inl (Panicked p))"

lemma log_safe_simps [simp]:
  "log_safe (Inr x)"
  "log_safe (Inl (Refused e))"
  "\<not> log_safe (Inl (Panicked p))"
  "log_safe (refuses_as r)"
  "log_safe (panics_as (Inr x))"
  by (auto simp: log_safe_def refuses_as_def panics_as_def split: sum.splits)

lemma log_safe_bind:
  assumes "log_safe r" "\<And>x. r = Inr x \<Longrightarrow> log_safe (f x)"
  shows "log_safe (try_bind r f)"
  using assms by (cases r) (auto simp: log_safe_def)

lemma panics_as_Inr [simp]: "panics_as (Inr x) = Inr x"
  by (simp add: panics_as_def)

fun block_task :: "Block \<Rightarrow> JobTaskId" where
  "block_task (StreamStart t i) = t"
| "block_task (StreamChunk t i ch n) = t"
| "block_task (StreamEnd t i) = t"

fun block_skip :: "Block \<Rightarrow> nat" where
  "block_skip (StreamChunk t i ch n) = unat n"
| "block_skip _ = 0"

lemma index_block_Inr:
  assumes "index_block b pos index = Inr (p, index')"
  shows "p = pos + block_skip b" "fst ` set index' = insert (block_task b) (fst ` set index)"
proof -
  have "p = pos + block_skip b \<and> (\<exists>info. index' = bt_insert (block_task b) info index)"
    using assms
    by (cases b) (auto simp: try_bind_Inr_iff Let_def split: if_splits option.splits)
  then show "p = pos + block_skip b" "fst ` set index' = insert (block_task b) (fst ` set index)"
    using set_bt_insert [of "block_task b" _ index] by metis+
qed

lemma make_index_loop_Inr:
  assumes "make_index_loop c content pos index = Inr fin" "index_wf index"
  shows "index_wf fin" "fst ` set index \<subseteq> fst ` set fin"
proof -
  have "index_wf fin \<and> fst ` set index \<subseteq> fst ` set fin"
    using assms
  proof (induction c content pos index rule: make_index_loop.induct)
    case (1 c content pos index)
    show ?case
    proof (cases "read_block c content pos")
      case (Inr r)
      show ?thesis
      proof (cases r)
        case None
        with 1 Inr show ?thesis by (simp add: make_index_loop.simps [of c content pos])
      next
        case (Some x)
        obtain b p where x: "x = (b, p)" by force
        from 1(2) Inr Some x obtain p' index' where b: "index_block b p index = Inr (p', index')"
          and l: "make_index_loop c content p' index' = Inr fin"
          by (auto simp: make_index_loop.simps [of c content pos] split: sum.splits)
        have "index_wf index'" using index_block_spec [OF 1(3)] b by blast
        with 1(1) [OF Inr Some x [symmetric] b refl l] index_block_Inr(2) [OF b] show ?thesis by blast
      qed
    qed (use 1 in \<open>simp add: make_index_loop.simps [of c content pos]\<close>)
  qed
  then show "index_wf fin" "fst ` set index \<subseteq> fst ` set fin" by auto
qed

definition has_instances :: "(JobTaskId, TaskInfo) btmap \<Rightarrow> bool" where
  "has_instances index \<longleftrightarrow> list_all (\<lambda>(t, info). instances info \<noteq> []) index"

lemma index_wf_instances:
  assumes "index_wf index"
  shows "has_instances index"
  unfolding has_instances_def list_all_iff
proof clarify
  fix t info assume m: "(t, info) \<in> set index" "instances info = []"
  have "distinct (map fst index)"
    using index_wf_sorted [OF assms] strict_sorted_iff by blast
  with m(1) have "map_of index t = Some info" by simp
  from index_wfD(1) [OF assms this] m(2) show False by simp
qed

lemma active_instances_ok:
  assumes "has_instances index"
  shows "active_instances index = Inr (map (\<lambda>(t, info). (t, instance_id (last (instances info)))) index)"
  using assms unfolding has_instances_def
  by (induction index rule: active_instances.induct) (simp_all add: last_instance_def)

lemma show_loop_safe:
  assumes "make_index_loop c content pos index = Inr fin" "index_wf index"
    and "fst ` set fin \<subseteq> fst ` set active"
  shows "log_safe (show_loop c content opts width active pos hc)"
  using assms
proof (induction c content pos index arbitrary: hc rule: make_index_loop.induct)
  case (1 c content pos index)
  show ?case
  proof (cases "read_block c content pos")
    case (Inl e)
    then show ?thesis by (simp add: show_loop.simps [of c content opts width active pos hc])
  next
    case (Inr r)
    show ?thesis
    proof (cases r)
      case None
      with Inr show ?thesis by (simp add: show_loop.simps [of c content opts width active pos hc])
    next
      case (Some x)
      obtain b p where x: "x = (b, p)" by force
      from 1(2) Inr Some x obtain p' index' where b: "index_block b p index = Inr (p', index')"
        and l: "make_index_loop c content p' index' = Inr fin"
        by (auto simp: make_index_loop.simps [of c content pos] split: sum.splits)
      have wf: "index_wf index'" using index_block_spec [OF 1(3)] b by blast
      have "block_task b \<in> fst ` set active"
        using index_block_Inr(2) [OF b] make_index_loop_Inr(2) [OF l wf] 1(4) by auto
      then obtain a where a: "map_of active (block_task b) = Some a"
        by (metis map_of_eq_None_iff not_Some_eq)
      have s: "log_safe (show_block content opts width active b p hc)"
        using a by (cases b) (auto intro!: log_safe_bind split: option.splits)
      have n: "q = p'" if "show_block content opts width active b p hc = Inr (q, hc', ps)" for q hc' ps
        using that index_block_Inr(1) [OF b]
        by (cases b) (auto simp: try_bind_Inr_iff refuses_as_def read_exact_Inr split: if_splits sum.splits)
      show ?thesis
      proof (cases "show_block content opts width active b p hc")
        case (Inl e)
        with s \<open>read_block c content pos = Inr r\<close> Some x show ?thesis
          unfolding show_loop.simps [of c content opts width active pos hc] by (cases e) simp_all
      next
        case (Inr y)
        obtain q hc' ps where y: "y = (q, hc', ps)" by (cases y) auto
        with Inr n have "q = p'" by blast
        with 1(1) [OF \<open>read_block c content pos = Inr r\<close> Some x [symmetric] b refl l wf 1(4), of hc']
          \<open>read_block c content pos = Inr r\<close> Some x Inr y
        show ?thesis
          unfolding show_loop.simps [of c content opts width active pos hc]
          by (simp add: log_safe_bind)
      qed
    qed
  qed
qed

lemma select_tasks_safe:
  assumes "index_wf index"
  shows "log_safe (select_tasks index ids)"
proof (induction ids)
  case (Cons t ids)
  show ?case
  proof (cases "map_of index t")
    case (Some info)
    with index_wfD(1) [OF assms Some] Cons show ?thesis by (simp add: last_instance_def log_safe_bind)
  qed simp
qed simp

lemma all_tasks_ok:
  assumes "has_instances index"
  shows "all_tasks index = Inr (map (\<lambda>(t, info). (t, last (instances info))) index)"
  using assms unfolding has_instances_def
  by (induction index rule: all_tasks.induct) (simp_all add: last_instance_def)

lemma count_opened_ok:
  assumes "list_all (\<lambda>info. instances info \<noteq> []) ts"
  shows "count_opened ts =
    Inr (sum_list (map (\<lambda>info. if stream_finished (last (instances info)) then 0 else 1) ts))"
  using assms by (induction ts) (simp_all add: last_instance_def)

definition total :: "('a \<Rightarrow> u64) \<Rightarrow> 'a list \<Rightarrow> u64" where
  "total f xs = sum_list (map f xs)"

lemma add_superseded_fold:
  "foldl add_superseded (a, b) old =
     (a + total (\<lambda>i. sum_sizes (channels i ! 0)) old, b + total (\<lambda>i. sum_sizes (channels i ! 1)) old)"
  by (induction old arbitrary: a b) (simp_all add: add_superseded_def total_def)

lemma summary_loop_ok:
  assumes "list_all (\<lambda>info. instances info \<noteq> []) ts"
  shows "summary_loop ts ((a, b), (c, d)) = Inr
    ((a + total (\<lambda>t. sum_sizes (channels (last (instances t)) ! 0)) ts,
      b + total (\<lambda>t. sum_sizes (channels (last (instances t)) ! 1)) ts),
     (c + total (\<lambda>t. total (\<lambda>i. sum_sizes (channels i ! 0)) (butlast (instances t))) ts,
      d + total (\<lambda>t. total (\<lambda>i. sum_sizes (channels i ! 1)) (butlast (instances t))) ts))"
  using assms
  by (induction ts arbitrary: a b c d)
    (simp_all add: last_instance_def superseded_def add_superseded_fold total_def add.assoc)

lemma summary_ok:
  assumes "has_instances (lf_index lf)"
  shows "summary lf = Inr
    \<lparr>sum_n_tasks = of_nat (length (lf_index lf)),
     n_streams = total (\<lambda>e. of_nat (length (instances (snd e)))) (lf_index lf),
     n_opened = total (\<lambda>e. if stream_finished (last (instances (snd e))) then 0 else 1) (lf_index lf),
     stdout_size = total (\<lambda>e. sum_sizes (channels (last (instances (snd e))) ! 0)) (lf_index lf),
     stderr_size = total (\<lambda>e. sum_sizes (channels (last (instances (snd e))) ! 1)) (lf_index lf),
     n_superseded = total (\<lambda>e. of_nat (length (instances (snd e)))) (lf_index lf) -
       of_nat (length (lf_index lf)),
     superseded_stdout_size = total (\<lambda>e.
       total (\<lambda>i. sum_sizes (channels i ! 0)) (butlast (instances (snd e)))) (lf_index lf),
     superseded_stderr_size = total (\<lambda>e.
       total (\<lambda>i. sum_sizes (channels i ! 1)) (butlast (instances (snd e)))) (lf_index lf)\<rparr>"
proof -
  have l: "list_all (\<lambda>info. instances info \<noteq> []) (map snd (lf_index lf))"
    using assms by (auto simp: has_instances_def list_all_iff)
  show ?thesis
    by (simp add: summary_def Let_def count_opened_ok [OF l] summary_loop_ok [OF l])
      (simp add: total_def o_def)
qed

definition command_ok :: "LogCommand \<Rightarrow> bool" where
  "command_ok cmd =
     (case cmd of
        LogCat opts \<Rightarrow>
          (case cat_task opts of Some a \<Rightarrow> list_all (\<lambda>r. step r \<noteq> 0) (ranges a) | None \<Rightarrow> True)
      | _ \<Rightarrow> True)"

lemma cat_safe:
  assumes "index_wf (lf_index lf)" "command_ok (LogCat opts)"
  shows "log_safe (cat opts lf)"
proof -
  have "log_safe (case cat_task opts of
           Some array \<Rightarrow>
             try_bind (panics_as (IntArray_iter array)) (\<lambda>ids. select_tasks (lf_index lf) ids)
         | None \<Rightarrow> all_tasks (lf_index lf))"
  proof (cases "cat_task opts")
    case None
    then show ?thesis by (simp add: all_tasks_ok [OF index_wf_instances [OF assms(1)]])
  next
    case (Some a)
    then have "\<forall>r\<in>set (ranges a). step r \<noteq> 0" using assms(2) by (simp add: command_ok_def list_all_iff)
    then obtain ids where "IntArray_iter a = Inr ids" by (metis IntArray_iter_def iter_ranges_ids)
    with Some show ?thesis by (simp add: select_tasks_safe [OF assms(1)])
  qed
  then show ?thesis unfolding cat_def Let_def
    by (intro log_safe_bind) (auto split: if_splits)
qed

lemma LogFile_open_Inr:
  assumes "LogFile_open c fs f = Inr lf"
  shows "index_wf (lf_index lf)"
    and "make_index_loop c (lf_file lf) (lf_start_pos lf) [] = Inr (lf_index lf)"
proof -
  show m: "make_index_loop c (lf_file lf) (lf_start_pos lf) [] = Inr (lf_index lf)"
    using assms by (auto simp: LogFile_open_def make_index_def try_bind_Inr_iff split: option.splits)
  show "index_wf (lf_index lf)" using make_index_loop_Inr(1) [OF m] by simp
qed

lemma show_log_safe:
  assumes "LogFile_open c fs f = Inr lf"
  shows "log_safe (show_log c opts lf)"
proof -
  note o = LogFile_open_Inr [OF assms]
  have a: "active_instances (lf_index lf) =
      Inr (map (\<lambda>(t, info). (t, instance_id (last (instances info)))) (lf_index lf))"
    by (rule active_instances_ok) (rule index_wf_instances [OF o(1)])
  have "fst ` set (lf_index lf) \<subseteq>
      fst ` set (map (\<lambda>(t, info). (t, instance_id (last (instances info)))) (lf_index lf))" by force
  from show_loop_safe [OF o(2) _ this] show ?thesis
    by (simp add: show_log_def a Let_def)
qed

text \<open>
  Claim C19. No content of any file makes a log command panic: opening, the summary, \<^verbatim>\<open>show\<close>
  and \<^verbatim>\<open>cat\<close> return their output or an error, for every encoding. (An array of task ids
  with a zero step, which the parser of arrays refuses, is the only exception.)
\<close>

theorem log_command_never_panics:
  assumes "command_ok cmd"
  shows "log_safe (command_log c fs f cmd)"
  unfolding command_log_def
proof (rule log_safe_bind)
  fix lf assume "refuses_as (LogFile_open c fs f) = Inr lf"
  then have o: "LogFile_open c fs f = Inr lf" by (auto simp: refuses_as_def split: sum.splits)
  note w = LogFile_open_Inr(1) [OF o]
  show "log_safe (case cmd of
         LogSummary \<Rightarrow> try_bind (panics_as (summary lf)) (\<lambda>s. Inr (PrintSummary s))
       | LogShow show_opts \<Rightarrow> try_bind (show_log c show_opts lf) (\<lambda>ps. Inr (PrintPieces ps))
       | LogCat cat_opts \<Rightarrow> try_bind (cat cat_opts lf) (\<lambda>out. Inr (PrintBytes out)))"
  proof (cases cmd)
    case LogSummary
    then show ?thesis by (simp add: summary_ok [OF index_wf_instances [OF w]])
  next
    case (LogShow opts)
    then show ?thesis using show_log_safe [OF o, of opts] by (simp add: log_safe_bind)
  next
    case (LogCat opts)
    then show ?thesis using cat_safe [OF w, of opts] assms by (simp add: log_safe_bind)
  qed
qed simp

theorem log_command_never_panics_witness:
  "log_safe (command_log big_endian (\<lambda>f. Some (HQ_LOG_HEADER @ replicate 20 0 @ [1, 0, 0])) ''x.log''
     (LogCat \<lparr>cat_channel = Stdout, cat_task = Some (from_range 1 5), allow_unfinished = True\<rparr>))"
  by (rule log_command_never_panics) (simp add: command_ok_def from_range_def)

section \<open>Reading what was written\<close>

lemma read_exact_at:
  assumes "drop pos content = bs @ rest" "length bs = n"
  shows "read_exact n content pos = Inr (bs, pos + n)" "drop (pos + n) content = rest"
proof -
  have "length (drop pos content) = n + length rest" using assms by simp
  then have "n = 0 \<or> pos + n \<le> length content" by auto
  moreover have "take n (drop pos content) = bs" using assms by simp
  ultimately show "read_exact n content pos = Inr (bs, pos + n)" by (simp add: read_exact_def)
  have "drop n (drop pos content) = rest" using assms by simp
  then show "drop (pos + n) content = rest" by (simp add: add.commute)
qed

fun block_of :: "FromStreamerMessage \<Rightarrow> Block" where
  "block_of (Start t i) = StreamStart t i"
| "block_of (Data t i ch d) = StreamChunk t i ch (of_nat (length d))"
| "block_of (End t i) = StreamEnd t i"

fun head_length :: "FromStreamerMessage \<Rightarrow> nat" where
  "head_length (Data t i ch d) = 17"
| "head_length _ = 9"

fun payload :: "FromStreamerMessage \<Rightarrow> bytes" where
  "payload (Data t i ch d) = d"
| "payload _ = []"

text \<open>The index over a list of messages whose first one starts at a position.\<close>

fun index_messages ::
  "nat \<Rightarrow> FromStreamerMessage list \<Rightarrow> (JobTaskId, TaskInfo) btmap \<Rightarrow> log_error + (JobTaskId, TaskInfo) btmap" where
  "index_messages pos [] index = Inr index"
| "index_messages pos (m # ms) index =
     try_bind (index_block (block_of m) (pos + head_length m) index) (\<lambda>(pos, index).
       index_messages pos ms index)"

text \<open>The encoding of integers as the reader relies on it.\<close>

locale byte_codec =
  fixes c :: Codec
  assumes put_u32_length: "length (put_u32 c x) = 4"
    and put_u64_length: "length (put_u64 c y) = 8"
    and get_put_u32: "get_u32 c (put_u32 c x) = x"
begin

lemma read_u32_at:
  assumes "drop pos content = put_u32 c x @ rest"
  shows "read_u32 c content pos = Inr (x, pos + 4)" "drop (pos + 4) content = rest"
  using read_exact_at [OF assms put_u32_length] by (simp_all add: read_u32_def get_put_u32)

lemma read_u64_at:
  assumes "drop pos content = put_u64 c x @ rest"
  shows "\<exists>y. read_u64 c content pos = Inr (y, pos + 8)" "drop (pos + 8) content = rest"
  using read_exact_at [OF assms put_u64_length] by (simp_all add: read_u64_def)

lemma read_u8_at:
  assumes "drop pos content = b # rest"
  shows "read_u8 content pos = Inr (b, pos + 1)" "drop (pos + 1) content = rest"
  using read_exact_at [of pos content "[b]" rest 1] assms by (simp_all add: read_u8_def)

lemma check_header_written:
  assumes "content = header_bytes c @ rest"
  shows "check_header c content 0 = Inr 26" "drop 26 content = rest"
proof -
  have 0: "drop 0 content = HQ_LOG_HEADER @ put_u32 c HQ_LOG_VERSION @ put_u64 c 0 @ put_u64 c 0 @ rest"
    using assms by (simp add: header_bytes_def)
  note 1 = read_exact_at [OF 0, of 6]
  have h: "read_exact 6 content 0 = Inr (HQ_LOG_HEADER, 6)"
    "drop 6 content = put_u32 c HQ_LOG_VERSION @ put_u64 c 0 @ put_u64 c 0 @ rest"
    using 1 by (simp_all add: HQ_LOG_HEADER_def)
  note 2 = read_u32_at [OF h(2)]
  note 3 = read_u64_at [OF 2(2)]
  note 4 = read_u64_at [OF 3(2)]
  obtain y where "read_u64 c content 10 = Inr (y, 18)" using 3(1) by auto
  moreover obtain z where "read_u64 c content 18 = Inr (z, 26)" using 4(1) by auto
  ultimately show "check_header c content 0 = Inr 26"
    using h(1) 2(1) by (simp add: check_header_def)
  show "drop 26 content = rest" using 4(2) by simp
qed

lemma read_block_written:
  assumes "drop pos content = encode c m @ rest"
  shows "read_block c content pos = Inr (Some (block_of m, pos + head_length m)) \<and>
    drop (pos + head_length m) content = payload m @ rest"
proof (cases m)
  case (Start t i)
  with assms have 0: "drop pos content = BLOCK_STREAM_START # put_u32 c t @ put_u32 c i @ rest" by simp
  note 1 = read_u8_at [OF 0]
  note 2 = read_u32_at [OF 1(2)]
  note 3 = read_u32_at [OF 2(2)]
  from 1 2 3 Start show ?thesis by (simp add: read_block_def ac_simps)
next
  case (Data t i ch d)
  with assms have 0: "drop pos content = BLOCK_STREAM_CHUNK # put_u32 c t @ put_u32 c i @
    put_u32 c ch @ put_u32 c (of_nat (length d)) @ d @ rest" by simp
  note 1 = read_u8_at [OF 0]
  note 2 = read_u32_at [OF 1(2)]
  note 3 = read_u32_at [OF 2(2)]
  note 4 = read_u32_at [OF 3(2)]
  note 5 = read_u32_at [OF 4(2)]
  from 1 2 3 4 5 Data show ?thesis
    by (simp add: read_block_def ac_simps BLOCK_STREAM_START_def BLOCK_STREAM_CHUNK_def)
next
  case (End t i)
  with assms have 0: "drop pos content = BLOCK_STREAM_END # put_u32 c t @ put_u32 c i @ rest" by simp
  note 1 = read_u8_at [OF 0]
  note 2 = read_u32_at [OF 1(2)]
  note 3 = read_u32_at [OF 2(2)]
  from 1 2 3 End show ?thesis
    by (simp add: read_block_def ac_simps BLOCK_STREAM_START_def BLOCK_STREAM_CHUNK_def BLOCK_STREAM_END_def)
qed

lemma make_index_written:
  assumes "drop pos content = concat (map (encode c) ms)"
    and "\<forall>m\<in>set ms. length (payload m) < 2 ^ 32"
  shows "make_index_loop c content pos index = index_messages pos ms index"
  using assms
proof (induction ms arbitrary: pos index)
  case Nil
  then have "read_block c content pos = Inr None"
    by (simp add: read_block_def read_u8_def read_exact_def)
  then show ?case by (simp add: make_index_loop.simps [of c content pos])
next
  case (Cons m ms)
  let ?p = "pos + head_length m"
  have r: "read_block c content pos = Inr (Some (block_of m, ?p))"
    "drop ?p content = payload m @ concat (map (encode c) ms)"
    using read_block_written [of pos content m] Cons.prems(1) by simp_all
  show ?case
  proof (cases "index_block (block_of m) ?p index")
    case (Inl e)
    with r(1) show ?thesis by (simp add: make_index_loop.simps [of c content pos])
  next
    case (Inr x)
    obtain q index' where x: "x = (q, index')" by force
    have q: "q = ?p + length (payload m)"
      using index_block_Inr(1) [OF Inr [unfolded x]] Cons.prems(2)
      by (cases m) (simp_all add: unat_of_nat)
    have "drop (length (payload m)) (drop ?p content) = concat (map (encode c) ms)" using r(2) by simp
    then have "drop q content = concat (map (encode c) ms)" by (simp add: q ac_simps)
    from Cons.IH [OF this, of index'] Cons.prems(2) r(1) Inr x show ?thesis
      by (simp add: make_index_loop.simps [of c content pos])
  qed
qed

end

lemma codec_ok_locale: "codec_ok c \<longleftrightarrow> byte_codec c"
  by (simp add: codec_ok_def byte_codec_def)

interpretation be: byte_codec big_endian
  using big_endian_ok by (simp add: codec_ok_locale)

section \<open>The index of a written log\<close>

fun stream_of :: "FromStreamerMessage \<Rightarrow> JobTaskId \<times> InstanceId" where
  "stream_of (Start t i) = (t, i)"
| "stream_of (Data t i ch d) = (t, i)"
| "stream_of (End t i) = (t, i)"

text \<open>The pieces of data of one channel of a stream, in order.\<close>

definition stream_data :: "FromStreamerMessage list \<Rightarrow> JobTaskId \<Rightarrow> InstanceId \<Rightarrow> nat \<Rightarrow> bytes list" where
  "stream_data ms t i ch =
     concat (map (\<lambda>m. case m of Data t' i' ch' d \<Rightarrow>
       if t' = t \<and> i' = i \<and> unat ch' = ch then [d] else [] | _ \<Rightarrow> []) ms)"

lemma stream_data_snoc:
  "stream_data (ms @ [m]) t i ch = stream_data ms t i ch @
     (case m of Data t' i' ch' d \<Rightarrow> if t' = t \<and> i' = i \<and> unat ch' = ch then [d] else [] | _ \<Rightarrow> [])"
  by (simp add: stream_data_def)

definition holds_chunk :: "bytes \<Rightarrow> ChunkInfo \<Rightarrow> bytes \<Rightarrow> bool" where
  "holds_chunk content chunk d \<longleftrightarrow> unat (chunk_size chunk) = length d \<and>
     (\<exists>rest. drop (position chunk) content = d @ rest)"

definition holds_stream ::
  "bytes \<Rightarrow> FromStreamerMessage list \<Rightarrow> JobTaskId \<Rightarrow> InstanceId \<Rightarrow> InstanceInfo \<Rightarrow> bool" where
  "holds_stream content ms t i inst \<longleftrightarrow> Start t i \<in> set ms \<and> length (channels inst) = 2 \<and>
     (\<forall>ch<2. list_all2 (holds_chunk content) (channels inst ! ch) (stream_data ms t i ch)) \<and>
     (stream_finished inst \<longleftrightarrow> End t i \<in> set ms)"

definition holds_log :: "bytes \<Rightarrow> FromStreamerMessage list \<Rightarrow> streams \<Rightarrow> bool" where
  "holds_log content ms m \<longleftrightarrow> (\<forall>t i. case m t i of
     None \<Rightarrow> (t, i) \<notin> stream_of ` set ms
   | Some inst \<Rightarrow> holds_stream content ms t i inst)"

fun allowed_next :: "FromStreamerMessage list \<Rightarrow> FromStreamerMessage \<Rightarrow> bool" where
  "allowed_next ms (Start t i) = ((t, i) \<notin> stream_of ` set ms)"
| "allowed_next ms (Data t i ch d) =
     ((t, i) \<in> stream_of ` set ms \<and> unat ch < 2 \<and> length d < 2 ^ 32)"
| "allowed_next ms (End t i) = ((t, i) \<in> stream_of ` set ms)"

lemma holds_stream_frame:
  assumes "holds_stream content ms t i inst" "stream_of m \<noteq> (t, i)"
  shows "holds_stream content (ms @ [m]) t i inst"
proof -
  have "stream_data (ms @ [m]) t i ch = stream_data ms t i ch" for ch
    using assms(2) by (cases m) (auto simp: stream_data_snoc)
  moreover have "End t i \<in> set (ms @ [m]) \<longleftrightarrow> End t i \<in> set ms" using assms(2) by auto
  ultimately show ?thesis using assms(1) by (simp add: holds_stream_def)
qed

lemma holds_log_update:
  assumes "holds_log content ms m" "stream_of x = (t, i)" "holds_stream content (ms @ [x]) t i inst"
  shows "holds_log content (ms @ [x]) (set_stream t i inst m)"
  unfolding holds_log_def
proof (intro allI)
  fix t' i'
  show "case set_stream t i inst m t' i' of None \<Rightarrow> (t', i') \<notin> stream_of ` set (ms @ [x])
    | Some inst \<Rightarrow> holds_stream content (ms @ [x]) t' i' inst"
  proof (cases "t' = t \<and> i' = i")
    case True
    with assms(3) show ?thesis by (simp add: set_stream_def)
  next
    case False
    then have e: "set_stream t i inst m t' i' = m t' i'" "stream_of x \<noteq> (t', i')"
      using assms(2) by (auto simp: set_stream_def)
    show ?thesis
    proof (cases "m t' i'")
      case None
      with assms(1) have "(t', i') \<notin> stream_of ` set ms"
        unfolding holds_log_def by (metis option.simps(4))
      with None e show ?thesis by auto
    next
      case (Some inst')
      with assms(1) have "holds_stream content ms t' i' inst'"
        unfolding holds_log_def by (metis option.simps(5))
      with holds_stream_frame [OF this e(2)] Some e(1) show ?thesis by simp
    qed
  qed
qed

lemma stream_data_none: "(t, i) \<notin> stream_of ` set ms \<Longrightarrow> stream_data ms t i ch = []"
  by (induction ms) (auto simp: stream_data_def split: FromStreamerMessage.splits)

lemma holds_logD:
  assumes "holds_log content ms m"
  shows "(t, i) \<notin> stream_of ` set ms \<Longrightarrow> m t i = None"
    and "(t, i) \<in> stream_of ` set ms \<Longrightarrow> \<exists>inst. m t i = Some inst \<and> holds_stream content ms t i inst"
proof -
  have h: "case m t i of None \<Rightarrow> (t, i) \<notin> stream_of ` set ms
    | Some inst \<Rightarrow> holds_stream content ms t i inst"
    using assms unfolding holds_log_def by blast
  have "stream_of (Start t i) \<in> stream_of ` set ms" if "Start t i \<in> set ms" using that by blast
  with h show "(t, i) \<notin> stream_of ` set ms \<Longrightarrow> m t i = None"
    by (cases "m t i") (auto simp: holds_stream_def)
  show "(t, i) \<in> stream_of ` set ms \<Longrightarrow> \<exists>inst. m t i = Some inst \<and> holds_stream content ms t i inst"
    using h by (cases "m t i") auto
qed

lemma fresh_holds:
  assumes "(t, i) \<notin> stream_of ` set ms"
  shows "holds_stream content (ms @ [Start t i]) t i (fresh_instance i)"
proof -
  have "End t i \<notin> set ms" using assms by (metis image_eqI stream_of.simps(3))
  then show ?thesis
    using stream_data_none [OF assms]
    by (auto simp: holds_stream_def fresh_instance_def stream_data_snoc less_2_cases_iff)
qed

lemma push_chunk_holds:
  assumes "holds_stream content ms t i inst" "unat ch < 2" "length d < 2 ^ 32"
    and "drop pos content = d @ rest"
  shows "holds_stream content (ms @ [Data t i ch d]) t i (push_chunk ch pos (of_nat (length d)) inst)"
proof -
  have n: "unat (of_nat (length d) :: u32) = length d" using assms(3) by (simp add: unat_of_nat)
  have "list_all2 (holds_chunk content)
      (channels (push_chunk ch pos (of_nat (length d)) inst) ! k) (stream_data (ms @ [Data t i ch d]) t i k)"
    if "k < 2" for k
    using assms that n
    by (auto simp: holds_stream_def push_chunk_def stream_data_snoc nth_list_update holds_chunk_def
        intro!: list_all2_appendI)
  with assms(1) show ?thesis by (simp add: holds_stream_def push_chunk_def)
qed

lemma finish_holds:
  assumes "holds_stream content ms t i inst"
  shows "holds_stream content (ms @ [End t i]) t i (inst\<lparr>stream_finished := True\<rparr>)"
  using assms by (simp add: holds_stream_def stream_data_snoc)

lemma spec_block_holds:
  assumes "holds_log content ms m" "allowed_next ms x" "drop pos content = payload x @ rest"
  shows "\<exists>m'. spec_block (block_of x) pos m = Inr (pos + length (payload x), m') \<and>
    holds_log content (ms @ [x]) m'"
proof (cases x)
  case (Start t i)
  then have f: "(t, i) \<notin> stream_of ` set ms" using assms(2) by simp
  from holds_logD(1) [OF assms(1) f] holds_log_update [OF assms(1) _ fresh_holds [OF f]] Start
  show ?thesis by simp
next
  case (Data t i ch d)
  then have a: "(t, i) \<in> stream_of ` set ms" "unat ch < 2" "length d < 2 ^ 32" "\<not> 2 \<le> ch"
    using assms(2) by (simp_all add: word_le_nat_alt)
  obtain inst where i: "m t i = Some inst" "holds_stream content ms t i inst"
    using holds_logD(2) [OF assms(1) a(1)] by blast
  from push_chunk_holds [OF i(2) a(2,3)] assms(3) Data
  have "holds_stream content (ms @ [x]) t i (push_chunk ch pos (of_nat (length d)) inst)" by simp
  from holds_log_update [OF assms(1) _ this] Data i(1) a show ?thesis by (simp add: unat_of_nat)
next
  case (End t i)
  then have a: "(t, i) \<in> stream_of ` set ms" using assms(2) by simp
  obtain inst where i: "m t i = Some inst" "holds_stream content ms t i inst"
    using holds_logD(2) [OF assms(1) a] by blast
  from holds_log_update [OF assms(1) _ finish_holds [OF i(2)]] End i(1) show ?thesis by simp
qed

fun log_wf :: "FromStreamerMessage list \<Rightarrow> FromStreamerMessage list \<Rightarrow> bool" where
  "log_wf ms [] = True"
| "log_wf ms (x # xs) = (allowed_next ms x \<and> log_wf (ms @ [x]) xs)"

lemma log_wf_fits: "log_wf ms xs \<Longrightarrow> \<forall>x\<in>set xs. length (payload x) < 2 ^ 32"
proof (induction ms xs rule: log_wf.induct)
  case (2 ms x xs)
  then show ?case by (cases x) auto
qed simp

context byte_codec
begin

lemma index_messages_written:
  assumes "log_wf done ms" "drop pos content = concat (map (encode c) ms)"
    and "index_wf index" "holds_log content done (look index)"
  shows "\<exists>index'. index_messages pos ms index = Inr index' \<and> index_wf index' \<and>
    holds_log content (done @ ms) (look index')"
  using assms
proof (induction "done" ms arbitrary: pos index rule: log_wf.induct)
  case (2 "done" x xs)
  let ?p = "pos + head_length x"
  have r: "drop ?p content = payload x @ concat (map (encode c) xs)"
    using read_block_written [of pos content x] 2(3) by simp
  from spec_block_holds [OF 2(5) _ r] 2(2) obtain m' where
    m': "spec_block (block_of x) ?p (look index) = Inr (?p + length (payload x), m')"
      "holds_log content (done @ [x]) m'" by auto
  with index_block_spec [OF 2(4), of "block_of x" ?p] obtain index' where
    i: "index_block (block_of x) ?p index = Inr (?p + length (payload x), index')"
      "look index' = m'" "index_wf index'"
    by (cases "index_block (block_of x) ?p index") auto
  have "drop (length (payload x)) (drop ?p content) = concat (map (encode c) xs)" using r by simp
  then have "drop (?p + length (payload x)) content = concat (map (encode c) xs)" by (simp add: ac_simps)
  from 2(1) [OF _ this i(3)] 2(2) m'(2) i show ?case by simp
qed simp

lemma open_written:
  assumes "log_wf [] ms" "fs f = Some (log_bytes c ms)"
  obtains index where "LogFile_open c fs f =
      Inr \<lparr>lf_file = log_bytes c ms, lf_index = index, lf_start_pos = 26\<rparr>"
    "index_wf index" "holds_log (log_bytes c ms) ms (look index)"
proof -
  note h = check_header_written [OF log_bytes_def]
  have "holds_log (log_bytes c ms) [] (look [])" by (simp add: holds_log_def look_def)
  from index_messages_written [OF assms(1) h(2) index_wf_Nil this] obtain index where
    i: "index_messages 26 ms [] = Inr index" "index_wf index" "holds_log (log_bytes c ms) ms (look index)"
    by auto
  moreover have "make_index c (log_bytes c ms) 26 = Inr index"
    using make_index_written [OF h(2) log_wf_fits [OF assms(1)]] i(1) by (simp add: make_index_def)
  ultimately show thesis using h(1) assms(2)
    by (intro that [of index]) (simp_all add: LogFile_open_def)
qed

end

section \<open>Printing a written log\<close>

lemma print_chunks_holds:
  assumes "list_all2 (holds_chunk content) cs ds"
  shows "\<exists>p'. print_chunks content cs (p, int p, out) = Inr (p', int p', out @ concat ds)"
  using assms
proof (induction cs ds arbitrary: p out rule: list_all2_induct)
  case (Cons chunk cs d ds)
  obtain rest where h: "drop (position chunk) content = d @ rest" "unat (chunk_size chunk) = length d"
    using Cons.hyps(1) by (auto simp: holds_chunk_def)
  note r = read_exact_at(1) [OF h(1) refl]
  have "uint (chunk_size chunk) = int (unat (chunk_size chunk))" by simp
  then have "int (position chunk) + uint (chunk_size chunk) = int (position chunk + length d)"
    unfolding h(2) by simp
  moreover have "seek_relative (int (position chunk) - int p) p = Inr (position chunk)"
    by (simp add: seek_relative_def)
  moreover obtain p' where "print_chunks content cs
      (position chunk + length d, int (position chunk + length d), out @ d) =
      Inr (p', int p', (out @ d) @ concat ds)" using Cons.IH by blast
  ultimately show ?case using r h(2) by (simp add: Let_def)
qed simp

definition last_info :: "(JobTaskId, TaskInfo) btmap \<Rightarrow> JobTaskId \<Rightarrow> InstanceInfo" where
  "last_info index t = last (instances (the (map_of index t)))"

lemma select_tasks_ok:
  assumes "index_wf index" "set ids \<subseteq> fst ` set index"
  shows "select_tasks index ids = Inr (map (\<lambda>t. (t, last_info index t)) ids)"
  using assms(2)
proof (induction ids)
  case (Cons t ids)
  then obtain info where "map_of index t = Some info"
    by (metis insert_subset list.simps(15) map_of_eq_None_iff not_Some_eq)
  with Cons index_wfD(1) [OF assms(1) this] show ?case
    by (simp add: last_instance_def last_info_def)
qed simp

lemma all_tasks_select:
  assumes "index_wf index"
  shows "all_tasks index = Inr (map (\<lambda>t. (t, last_info index t)) (map fst index))"
proof -
  have "distinct (map fst index)"
    using index_wf_sorted [OF assms] strict_sorted_iff by blast
  then have "map (\<lambda>(t, info). (t, last (instances info))) index =
      map (\<lambda>t. (t, last_info index t)) (map fst index)"
    by (auto simp: last_info_def)
  with all_tasks_ok [OF index_wf_instances [OF assms]] show ?thesis by simp
qed

text \<open>The tasks of a log, the last instance of a task, and what its channel carries.\<close>

definition tasks_of :: "FromStreamerMessage list \<Rightarrow> JobTaskId list" where
  "tasks_of ms = sorted_list_of_set (fst ` stream_of ` set ms)"

definition last_of :: "FromStreamerMessage list \<Rightarrow> JobTaskId \<Rightarrow> InstanceId" where
  "last_of ms t = Max (snd ` Set.filter (\<lambda>s. fst s = t) (stream_of ` set ms))"

definition channel_bytes :: "FromStreamerMessage list \<Rightarrow> nat \<Rightarrow> JobTaskId \<Rightarrow> bytes" where
  "channel_bytes ms ch t = concat (stream_data ms t (last_of ms t) ch)"

lemma look_iff:
  assumes "holds_log content ms (look index)"
  shows "look index t i \<noteq> None \<longleftrightarrow> (t, i) \<in> stream_of ` set ms"
  using holds_logD [OF assms, of t i] by (cases "(t, i) \<in> stream_of ` set ms") auto

lemma index_tasks:
  assumes "index_wf index" "holds_log content ms (look index)"
  shows "map fst index = tasks_of ms"
proof -
  have "fst ` set index = fst ` stream_of ` set ms"
  proof (intro equalityI subsetI)
    fix t assume "t \<in> fst ` set index"
    then obtain info where i: "map_of index t = Some info"
      by (metis map_of_eq_None_iff not_Some_eq)
    note w = index_wfD [OF assms(1) i]
    have "look index t (instance_id (last (instances info))) \<noteq> None"
      using instance_of_mem [OF w(2) last_in_set [OF w(1)]] i by (simp add: look_def)
    then have "(t, instance_id (last (instances info))) \<in> stream_of ` set ms" 
      using look_iff [OF assms(2)] by blast
    then show "t \<in> fst ` stream_of ` set ms" by (metis fst_conv image_eqI)
  next
    fix t assume "t \<in> fst ` stream_of ` set ms"
    then obtain s where "s \<in> stream_of ` set ms" "t = fst s" by blast
    then obtain i where "(t, i) \<in> stream_of ` set ms" by (cases s) simp
    then have "look index t i \<noteq> None" using look_iff [OF assms(2)] by blast
    then show "t \<in> fst ` set index" 
      using map_of_eq_None_iff [of index t] by (cases "map_of index t") (simp_all add: look_def)
  qed
  then have "set (map fst index) = fst ` stream_of ` set ms" by simp
  moreover have "sorted (map fst index)" "distinct (map fst index)"
    using index_wf_sorted [OF assms(1)] strict_sorted_iff by blast+
  ultimately show ?thesis unfolding tasks_of_def
    by (metis sorted_list_of_set.idem_if_sorted_distinct)
qed

lemma sorted_last_Max:
  "sorted_wrt (<) (xs :: 'a::linorder list) \<Longrightarrow> xs \<noteq> [] \<Longrightarrow> Max (set xs) = last xs"
proof (induction xs rule: rev_induct)
  case (snoc x xs)
  have "Max (set (xs @ [x])) = x"
  proof (rule Max_eqI)
    fix y assume "y \<in> set (xs @ [x])"
    with snoc.prems(1) show "y \<le> x" by (auto simp: sorted_wrt_append)
  qed simp_all
  then show ?case by simp
qed simp

lemma snd_filter: "snd ` Set.filter (\<lambda>s. fst s = t) A = {i. (t, i) \<in> A}"
  by force

lemma last_info_holds:
  assumes "index_wf index" "holds_log content ms (look index)" "t \<in> fst ` set index"
  shows "holds_stream content ms t (last_of ms t) (last_info index t)"
proof -
  obtain info where i: "map_of index t = Some info" using assms(3)
    by (metis map_of_eq_None_iff not_Some_eq)
  note w = index_wfD [OF assms(1) i]
  let ?ids = "map instance_id (instances info)"
  have "i \<in> set ?ids \<longleftrightarrow> (t, i) \<in> stream_of ` set ms" for i
  proof -
    have "look index t i \<noteq> None \<longleftrightarrow> i \<in> set ?ids"
      using i instance_of_mem [OF w(2)] instance_of_id [of info i] by (auto simp: look_def)
    then show ?thesis using look_iff [OF assms(2)] by blast
  qed
  then have "snd ` Set.filter (\<lambda>s. fst s = t) (stream_of ` set ms) = set ?ids"
    unfolding snd_filter by blast
  then have "last_of ms t = last ?ids"
    using sorted_last_Max [OF w(2)] w(1) by (simp add: last_of_def)
  then have l: "last_of ms t = instance_id (last (instances info))" using w(1) by (simp add: last_map)
  have "look index t (last_of ms t) = Some (last_info index t)"
    unfolding l using instance_of_mem [OF w(2) last_in_set [OF w(1)]] i
    by (simp add: look_def last_info_def)
  moreover from this have "(t, last_of ms t) \<in> stream_of ` set ms"
    using look_iff [OF assms(2), of t "last_of ms t"] by simp
  ultimately show ?thesis using holds_logD(2) [OF assms(2), of t "last_of ms t"] by simp
qed

lemma print_instances_holds:
  assumes "\<And>t. t \<in> set ids \<Longrightarrow>
      list_all2 (holds_chunk content) (channels (inst t) ! sel) (ds t)"
  shows "\<exists>p'. print_instances content sel (map (\<lambda>t. (t, inst t)) ids) (p, int p, out) =
    Inr (p', int p', out @ concat (map (\<lambda>t. concat (ds t)) ids))"
  using assms
proof (induction ids arbitrary: p out)
  case (Cons t ids)
  have h: "list_all2 (holds_chunk content) (channels (inst t) ! sel) (ds t)" using Cons.prems by simp
  obtain q where "print_chunks content (channels (inst t) ! sel) (p, int p, out) =
      Inr (q, int q, out @ concat (ds t))"
    using print_chunks_holds [OF h, of p out] by blast
  moreover obtain p' where "print_instances content sel (map (\<lambda>t. (t, inst t)) ids)
      (q, int q, out @ concat (ds t)) =
    Inr (p', int p', (out @ concat (ds t)) @ concat (map (\<lambda>t. concat (ds t)) ids))"
    using Cons.IH [of q "out @ concat (ds t)"] Cons.prems by auto
  ultimately show ?case by simp
qed simp

lemma check_finished_ok:
  "(\<And>t. t \<in> set ids \<Longrightarrow> stream_finished (inst t)) \<Longrightarrow> check_finished (map (\<lambda>t. (t, inst t)) ids) = Inr ()"
  by (induction ids) simp_all

definition all_ended :: "FromStreamerMessage list \<Rightarrow> bool" where
  "all_ended ms = list_all (\<lambda>m. case stream_of m of (t, i) \<Rightarrow> End t i \<in> set ms) ms"

lemma all_ended_stream:
  assumes "all_ended ms" "holds_stream content ms t i inst"
  shows "stream_finished inst"
proof -
  have "Start t i \<in> set ms" using assms(2) by (simp add: holds_stream_def)
  from assms(1) [unfolded all_ended_def list_all_iff, rule_format, OF this]
  show ?thesis using assms(2) by (simp add: holds_stream_def)
qed

text \<open>What \<^verbatim>\<open>cat\<close> prints for the tasks it is asked for.\<close>

lemma cat_holds:
  assumes "index_wf (lf_index lf)" "holds_log (lf_file lf) ms (look (lf_index lf))" "all_ended ms"
    and "(case cat_task opts of None \<Rightarrow> ids = tasks_of ms
      | Some a \<Rightarrow> IntArray_iter a = Inr ids \<and> set ids \<subseteq> set (tasks_of ms))"
  shows "cat opts lf = Inr (concat (map (channel_bytes ms (channel_id_of (cat_channel opts))) ids))"
proof -
  let ?sel = "channel_id_of (cat_channel opts)"
  have t: "map fst (lf_index lf) = tasks_of ms" by (rule index_tasks [OF assms(1,2)])
  then have "set (tasks_of ms) = fst ` set (lf_index lf)" by (metis set_map)
  with assms(4) have sub: "set ids \<subseteq> fst ` set (lf_index lf)" by (cases "cat_task opts") simp_all
  have h: "holds_stream (lf_file lf) ms t (last_of ms t) (last_info (lf_index lf) t)" if "t \<in> set ids" for t
    using last_info_holds [OF assms(1,2)] sub that by blast
  have f: "stream_finished (last_info (lf_index lf) t)" if "t \<in> set ids" for t
    by (rule all_ended_stream [OF assms(3) h [OF that]])
  have "?sel < 2" by (cases "cat_channel opts") simp_all
  with h have c: "list_all2 (holds_chunk (lf_file lf)) (channels (last_info (lf_index lf) t) ! ?sel)
      (stream_data ms t (last_of ms t) ?sel)" if "t \<in> set ids" for t
    using that by (simp add: holds_stream_def)
  have s: "(case cat_task opts of
           Some array \<Rightarrow>
             try_bind (panics_as (IntArray_iter array)) (\<lambda>ids. select_tasks (lf_index lf) ids)
         | None \<Rightarrow> all_tasks (lf_index lf)) = Inr (map (\<lambda>t. (t, last_info (lf_index lf) t)) ids)"
    using assms(4) select_tasks_ok [OF assms(1) sub] all_tasks_select [OF assms(1)] t
    by (cases "cat_task opts") simp_all
  obtain p' where p: "print_instances (lf_file lf) ?sel (map (\<lambda>t. (t, last_info (lf_index lf) t)) ids)
      (lf_start_pos lf, int (lf_start_pos lf), []) =
    Inr (p', int p', [] @ concat (map (\<lambda>t. concat (stream_data ms t (last_of ms t) ?sel)) ids))"
    using print_instances_holds [of ids "lf_file lf" "last_info (lf_index lf)" ?sel
        "\<lambda>t. stream_data ms t (last_of ms t) ?sel" "lf_start_pos lf" "[]", OF c] by blast
  have e: "channel_bytes ms ?sel = (\<lambda>t. concat (stream_data ms t (last_of ms t) ?sel))"
    by (simp add: channel_bytes_def fun_eq_iff)
  show ?thesis
    unfolding cat_def Let_def s e
    by (simp add: p check_finished_ok [OF f] refuses_as_def)
qed

text \<open>
  Messages as the tasks of a job send them: a stream is started once, its data and its end come
  while it is open. The result lists the streams that are open at the end.
\<close>

fun stream_run ::
  "(JobTaskId \<times> InstanceId) list \<Rightarrow> (JobTaskId \<times> InstanceId) list \<Rightarrow> FromStreamerMessage list \<Rightarrow>
   (JobTaskId \<times> InstanceId) list option" where
  "stream_run seen opened [] = Some opened"
| "stream_run seen opened (Start t i # ms) =
     (if (t, i) \<in> set seen then None else stream_run ((t, i) # seen) ((t, i) # opened) ms)"
| "stream_run seen opened (Data t i ch d # ms) =
     (if (t, i) \<in> set opened \<and> unat ch < 2 \<and> length d < 2 ^ 32 then stream_run seen opened ms else None)"
| "stream_run seen opened (End t i # ms) =
     (if (t, i) \<in> set opened then stream_run seen (removeAll (t, i) opened) ms else None)"

lemma stream_run_wf:
  assumes "stream_run seen opened ms = Some opened'"
    and "set seen = stream_of ` set done" "set opened \<subseteq> set seen"
    and "\<forall>t i. (t, i) \<in> set seen \<longrightarrow> (t, i) \<in> set opened \<or> End t i \<in> set done"
  shows "log_wf done ms \<and>
    (\<forall>t i. (t, i) \<in> stream_of ` set (done @ ms) \<longrightarrow> (t, i) \<in> set opened' \<or> End t i \<in> set (done @ ms))"
  using assms
proof (induction seen opened ms arbitrary: "done" rule: stream_run.induct)
  case (1 seen opened)
  then show ?case by simp
next
  case (2 seen opened t i ms)
  from 2(2) have n: "(t, i) \<notin> set seen" "stream_run ((t, i) # seen) ((t, i) # opened) ms = Some opened'"
    by (auto split: if_splits)
  with 2(1) [OF n, of "done @ [Start t i]"] 2(3-5) show ?case by auto
next
  case (3 seen opened t i ch d ms)
  from 3(2) have n: "(t, i) \<in> set opened \<and> unat ch < 2 \<and> length d < 2 ^ 32"
    "stream_run seen opened ms = Some opened'" by (auto split: if_splits)
  then have "(t, i) \<in> stream_of ` set done" using 3(3,4) by auto
  with 3(1) [OF n, of "done @ [Data t i ch d]"] 3(3-5) n show ?case by (auto simp: insert_absorb)
next
  case (4 seen opened t i ms)
  from 4(2) have n: "(t, i) \<in> set opened"
    "stream_run seen (removeAll (t, i) opened) ms = Some opened'" by (auto split: if_splits)
  then have m: "(t, i) \<in> stream_of ` set done" using 4(3,4) by blast
  have "log_wf (done @ [End t i]) ms \<and>
    (\<forall>t' i'. (t', i') \<in> stream_of ` set ((done @ [End t i]) @ ms) \<longrightarrow>
      (t', i') \<in> set opened' \<or> End t' i' \<in> set ((done @ [End t i]) @ ms))"
  proof (rule 4(1) [OF n])
    show "set seen = stream_of ` set (done @ [End t i])" using 4(3) m by (simp add: insert_absorb)
    show "set (removeAll (t, i) opened) \<subseteq> set seen" using 4(4) by auto
    show "\<forall>t' i'. (t', i') \<in> set seen \<longrightarrow>
        (t', i') \<in> set (removeAll (t, i) opened) \<or> End t' i' \<in> set (done @ [End t i])"
      using 4(5) by auto
  qed
  with m show ?case by simp
qed

lemma stream_run_last:
  "stream_run seen opened ms = Some [] \<Longrightarrow> ms \<noteq> [] \<Longrightarrow> is_end (last ms)"
proof (induction seen opened ms rule: stream_run.induct)
  case (2 seen opened t i ms)
  then show ?case by (cases "ms = []") (auto split: if_splits)
next
  case (3 seen opened t i ch d ms)
  then show ?case by (cases "ms = []") (auto split: if_splits)
next
  case (4 seen opened t i ms)
  then show ?case by (cases "ms = []") (auto split: if_splits)
qed simp

definition complete_streams :: "FromStreamerMessage list \<Rightarrow> bool" where
  "complete_streams ms \<longleftrightarrow> stream_run [] [] ms = Some []"

lemma complete_streamsD:
  assumes "complete_streams ms"
  shows "log_wf [] ms" "all_ended ms" "ms \<noteq> [] \<Longrightarrow> is_end (last ms)"
proof -
  have r: "stream_run [] [] ms = Some []" using assms by (simp add: complete_streams_def)
  note w = stream_run_wf [OF r, of "[]", simplified]
  show "log_wf [] ms" using w by blast
  have "\<forall>m\<in>set ms. case stream_of m of (t, i) \<Rightarrow> End t i \<in> set ms"
    using w by (metis (mono_tags, lifting) case_prodI2 image_eqI)
  then show "all_ended ms" by (simp add: all_ended_def list_all_iff)
  show "ms \<noteq> [] \<Longrightarrow> is_end (last ms)" using stream_run_last [OF r] .
qed

text \<open>A file whose streams were all closed holds everything that was sent.\<close>

lemma writer_task_complete:
  assumes "\<forall>n. io_failure e n = None" "complete_streams (map fst ms)"
  shows "w_disk (fst (writer_task c e ms)) = log_bytes c (map fst ms)"
proof -
  obtain w0 r0 where 0: "writer_open c e = (w0, r0)" by force
  note w = writer_open_ok [OF 0]
  have r0: "r0 = None" using w(2) assms(1) by blast
  obtain w1 as r1 where 1: "writer_loop c e ms w0 = (w1, as, r1)" by (metis prod_cases3)
  have r1: "r1 = None" using writer_loop_no_failure [OF 1 assms(1)] .
  note d = writer_loop_done [OF 1 [unfolded r1]]
  have "w_buffer w1 = []"
  proof (cases "ms = []")
    case True
    with 1 w(1) r0 show ?thesis by simp
  next
    case False
    with complete_streamsD(3) [OF assms(2)] have "is_end (fst (last ms))" by (simp add: last_map)
    with d(3) False show ?thesis by blast
  qed
  with d(2) w(1) r0 have "w_disk w1 = log_bytes c (map fst ms)"
    by (simp add: written_def log_bytes_def o_def)
  with 0 1 r0 r1 show ?thesis by (simp add: writer_task_def file_writer_def)
qed

lemma log_opens:
  assumes "codec_ok c" "\<forall>n. io_failure e n = None" "complete_streams (map fst ms)"
    and "fs f = Some (w_disk (fst (writer_task c e ms)))"
  obtains lf where "LogFile_open c fs f = Inr lf" "index_wf (lf_index lf)"
    "holds_log (lf_file lf) (map fst ms) (look (lf_index lf))"
proof -
  have b: "byte_codec c" using assms(1) by (simp add: codec_ok_locale)
  have "fs f = Some (log_bytes c (map fst ms))"
    using assms(4) writer_task_complete [OF assms(2,3), of c] by simp
  from byte_codec.open_written [where fs = fs and f = f, OF b complete_streamsD(1) [OF assms(3)] this] obtain index where
    "LogFile_open c fs f = Inr \<lparr>lf_file = log_bytes c (map fst ms), lf_index = index, lf_start_pos = 26\<rparr>"
    "index_wf index" "holds_log (log_bytes c (map fst ms)) (map fst ms) (look index)" .
  then show thesis
    by (intro that [of "\<lparr>lf_file = log_bytes c (map fst ms), lf_index = index, lf_start_pos = 26\<rparr>"])
      simp_all
qed

text \<open>
  Claim C5. Round trip of task output: when the file operations succeed and every stream was closed,
  the log file opens, and \<^verbatim>\<open>cat\<close> prints for the tasks it is asked for (all of them in
  the order of their ids, or those of an array) exactly the bytes that the last instance of each
  task sent on the channel, in the order they were sent.
\<close>

theorem log_roundtrip:
  assumes "codec_ok c" "\<forall>n. io_failure e n = None" "complete_streams (map fst ms)"
    and "fs f = Some (w_disk (fst (writer_task c e ms)))"
    and "(case cat_task opts of None \<Rightarrow> ids = tasks_of (map fst ms)
      | Some a \<Rightarrow> IntArray_iter a = Inr ids \<and> set ids \<subseteq> set (tasks_of (map fst ms)))"
  shows "command_log c fs f (LogCat opts) = Inr (PrintBytes
    (concat (map (channel_bytes (map fst ms) (channel_id_of (cat_channel opts))) ids)))"
proof -
  obtain lf where o: "LogFile_open c fs f = Inr lf" "index_wf (lf_index lf)"
    "holds_log (lf_file lf) (map fst ms) (look (lf_index lf))"
    using log_opens [where fs = fs and f = f, OF assms(1-4)] .
  from cat_holds [OF o(2,3) complete_streamsD(2) [OF assms(3)] assms(5)] o(1) show ?thesis
    by (simp add: command_log_def refuses_as_def)
qed

definition example_messages :: "nat StreamMessage list" where
  "example_messages =
     [(Start 2 0, Some 1), (Data 2 0 0 [1, 2], Some 1), (Start 1 0, Some 2), (Data 1 0 1 [9], Some 2),
      (Data 2 0 0 [3], Some 1), (Data 1 0 0 [4, 5], Some 2), (End 2 0, Some 1), (End 1 0, Some 2),
      (Start 2 1, Some 1), (Data 2 1 0 [6], Some 1), (End 2 1, Some 1)]"

theorem log_roundtrip_witness:
  "command_log big_endian (\<lambda>f. Some (w_disk (fst (writer_task big_endian ideal_file_env example_messages))))
     ''job.log'' (LogCat \<lparr>cat_channel = Stdout, cat_task = None, allow_unfinished = False\<rparr>) =
   Inr (PrintBytes (concat (map (channel_bytes (map fst example_messages) 0) (tasks_of (map fst example_messages))))) \<and>
   concat (map (channel_bytes (map fst example_messages) 0) (tasks_of (map fst example_messages))) = [4, 5, 6]"
proof -
  have c: "complete_streams (map fst example_messages)"
    by (simp add: complete_streams_def example_messages_def)
  have "command_log big_endian (\<lambda>f. Some (w_disk (fst (writer_task big_endian ideal_file_env example_messages))))
     ''job.log'' (LogCat \<lparr>cat_channel = Stdout, cat_task = None, allow_unfinished = False\<rparr>) =
   Inr (PrintBytes (concat (map (channel_bytes (map fst example_messages) 0) (tasks_of (map fst example_messages)))))"
    using log_roundtrip [where e = ideal_file_env and f = "''job.log''"
        and fs = "\<lambda>f. Some (w_disk (fst (writer_task big_endian ideal_file_env example_messages)))"
        and opts = "\<lparr>cat_channel = Stdout, cat_task = None, allow_unfinished = False\<rparr>",
        OF big_endian_ok _ c]
    by (simp add: ideal_file_env_def)
  moreover have t: "tasks_of (map fst example_messages) = [1, 2]"
  proof -
    have "fst ` stream_of ` set (map fst example_messages) = set [1, 2]"
      by (auto simp: example_messages_def)
    then show ?thesis unfolding tasks_of_def
      by (simp only: sorted_list_of_set_sort_remdups) (simp add: word_le_nat_alt)
  qed
  moreover have "last_of (map fst example_messages) 1 = 0" "last_of (map fst example_messages) 2 = 1"
  proof -
    have "{i. (1, i) \<in> stream_of ` set (map fst example_messages)} = {0}"
      "{i. (2, i) \<in> stream_of ` set (map fst example_messages)} = {0, 1}"
      by (auto simp: example_messages_def)
    then show "last_of (map fst example_messages) 1 = 0" "last_of (map fst example_messages) 2 = 1"
      unfolding last_of_def snd_filter by simp_all
  qed
  ultimately show ?thesis
    by (simp add: t channel_bytes_def stream_data_def example_messages_def)
qed

section \<open>The summary of a written log\<close>

lemma sum_sizes_holds:
  assumes "list_all2 (holds_chunk content) cs ds"
  shows "sum_sizes cs = of_nat (length (concat ds))"
  using assms
proof (induction rule: list_all2_induct)
  case (Cons chunk cs d ds)
  have "(ucast (chunk_size chunk) :: u64) = of_nat (unat (chunk_size chunk))" by simp
  also have "\<dots> = of_nat (length d)" using Cons.hyps(1) by (simp only: holds_chunk_def)
  finally show ?case using Cons.IH by (simp add: sum_sizes_def)
qed (simp add: sum_sizes_def)

lemma total_of_nat: "total (\<lambda>x. of_nat (f x)) xs = of_nat (sum_list (map f xs))"
  by (induction xs) (simp_all add: total_def)

lemma total_cong: "(\<And>x. x \<in> set xs \<Longrightarrow> f x = g x) \<Longrightarrow> total f xs = total g xs"
  by (simp add: total_def cong: map_cong)

text \<open>The number of instances in the index is the number of streams.\<close>

lemma index_streams:
  assumes "index_wf index" "holds_log content ms (look index)"
  shows "sum_list (map (\<lambda>e. length (instances (snd e))) index) = card (stream_of ` set ms)"
proof -
  have d: "distinct (map fst index)" using index_wf_sorted [OF assms(1)] strict_sorted_iff by blast
  let ?ids = "\<lambda>t. instance_id ` set (instances (the (map_of index t)))"
  have mem: "(t, info) \<in> set index \<Longrightarrow> map_of index t = Some info" for t info using d by simp
  have c: "card (?ids (fst e)) = length (instances (snd e))" if "e \<in> set index" for e
  proof -
    have m: "map_of index (fst e) = Some (snd e)" using that mem [of "fst e" "snd e"] by simp
    have "distinct (map instance_id (instances (snd e)))"
      using index_wfD(2) [OF assms(1) m] strict_sorted_iff by blast
    then have "card (set (map instance_id (instances (snd e)))) = length (instances (snd e))"
      by (simp only: distinct_card length_map)
    with m show ?thesis by simp
  qed
  have "stream_of ` set ms = Sigma (fst ` set index) ?ids"
  proof (intro set_eqI)
    fix s :: "JobTaskId \<times> InstanceId"
    obtain t i where s: "s = (t, i)" by force
    have "look index t i \<noteq> None \<longleftrightarrow> t \<in> fst ` set index \<and> i \<in> ?ids t"
    proof (cases "map_of index t")
      case None
      then show ?thesis using map_of_eq_None_iff [of index t] by (simp add: look_def)
    next
      case (Some info)
      note w = index_wfD [OF assms(1) Some]
      have "t \<in> fst ` set index" using Some by (metis map_of_eq_None_iff option.distinct(1))
      moreover have "instance_of info i \<noteq> None \<longleftrightarrow> i \<in> instance_id ` set (instances info)"
        using instance_of_mem [OF w(2)] instance_of_id [of info i] by auto
      ultimately show ?thesis using Some by (simp add: look_def)
    qed
    then show "s \<in> stream_of ` set ms \<longleftrightarrow> s \<in> Sigma (fst ` set index) ?ids"
      using look_iff [OF assms(2), of t i] unfolding s by blast
  qed
  then have "card (stream_of ` set ms) = (\<Sum>t\<in>fst ` set index. card (?ids t))"
    by (simp add: card_SigmaI)
  also have "\<dots> = sum_list (map (\<lambda>t. card (?ids t)) (map fst index))"
    by (simp only: sum_list_distinct_conv_sum_set [OF d] set_map)
  also have "\<dots> = sum_list (map (\<lambda>e. length (instances (snd e))) index)"
    unfolding map_map o_def by (intro arg_cong [where f = sum_list] map_cong refl c)
  finally show ?thesis by simp
qed

lemma index_total:
  assumes "index_wf index" "holds_log content ms (look index)" "ch < 2"
  shows "total (\<lambda>e. sum_sizes (channels (last (instances (snd e))) ! ch)) index =
    of_nat (sum_list (map (\<lambda>t. length (channel_bytes ms ch t)) (tasks_of ms)))"
proof -
  have d: "distinct (map fst index)" using index_wf_sorted [OF assms(1)] strict_sorted_iff by blast
  have "sum_sizes (channels (last (instances (snd e))) ! ch) = of_nat (length (channel_bytes ms ch (fst e)))"
    if "e \<in> set index" for e
  proof -
    have "map_of index (fst e) = Some (snd e)" using that d by simp
    then have l: "last_info index (fst e) = last (instances (snd e))" by (simp add: last_info_def)
    have "holds_stream content ms (fst e) (last_of ms (fst e)) (last_info index (fst e))"
      using last_info_holds [OF assms(1,2)] that by blast
    then have "list_all2 (holds_chunk content) (channels (last (instances (snd e))) ! ch)
        (stream_data ms (fst e) (last_of ms (fst e)) ch)"
      unfolding l using assms(3) by (simp add: holds_stream_def)
    from sum_sizes_holds [OF this] show ?thesis by (simp only: channel_bytes_def)
  qed
  then have "total (\<lambda>e. sum_sizes (channels (last (instances (snd e))) ! ch)) index =
      total (\<lambda>e. of_nat (length (channel_bytes ms ch (fst e)))) index" by (rule total_cong)
  also have "\<dots> = of_nat (sum_list (map (\<lambda>t. length (channel_bytes ms ch t)) (map fst index)))"
    by (simp add: total_of_nat o_def)
  finally show ?thesis by (simp add: index_tasks [OF assms(1,2)])
qed

lemma has_instances_length:
  "has_instances index \<Longrightarrow> length index \<le> sum_list (map (\<lambda>e. length (instances (snd e))) index)"
proof (induction index)
  case (Cons e index)
  have "0 < length (instances (snd e))" using Cons.prems by (auto simp: has_instances_def)
  moreover have "length index \<le> sum_list (map (\<lambda>e. length (instances (snd e))) index)"
    using Cons by (simp add: has_instances_def)
  ultimately have "Suc (length index) \<le>
      length (instances (snd e)) + sum_list (map (\<lambda>e. length (instances (snd e))) index)" by linarith
  then show ?case by simp
qed simp

lemma index_all_finished:
  assumes "index_wf index" "holds_log content ms (look index)" "all_ended ms"
  shows "total (\<lambda>e. if stream_finished (last (instances (snd e))) then 0 else 1) index = 0"
proof -
  have d: "distinct (map fst index)" using index_wf_sorted [OF assms(1)] strict_sorted_iff by blast
  have "stream_finished (last (instances (snd e)))" if "e \<in> set index" for e
  proof -
    have "map_of index (fst e) = Some (snd e)" using that d by simp
    then have l: "last_info index (fst e) = last (instances (snd e))" by (simp add: last_info_def)
    have "holds_stream content ms (fst e) (last_of ms (fst e)) (last_info index (fst e))"
      using last_info_holds [OF assms(1,2)] that by blast
    then show ?thesis unfolding l by (rule all_ended_stream [OF assms(3)])
  qed
  then have "total (\<lambda>e. if stream_finished (last (instances (snd e))) then 0 else 1) index =
      total (\<lambda>e. 0) index" by (intro total_cong) simp
  then show ?thesis by (simp add: total_def)
qed

text \<open>
  The summary of a log whose streams were all closed counts its tasks, its streams, no open
  stream, the superseded streams as the difference without wrap-around, and the bytes of the last
  instances on each channel.
\<close>

theorem log_summary_counts:
  assumes "codec_ok c" "\<forall>n. io_failure e n = None" "complete_streams (map fst ms)"
    and "fs f = Some (w_disk (fst (writer_task c e ms)))"
  shows "\<exists>s. command_log c fs f LogSummary = Inr (PrintSummary s) \<and>
    sum_n_tasks s = of_nat (length (tasks_of (map fst ms))) \<and>
    n_streams s = of_nat (card (stream_of ` set (map fst ms))) \<and> n_opened s = 0 \<and>
    n_superseded s = of_nat (card (stream_of ` set (map fst ms)) - length (tasks_of (map fst ms))) \<and>
    stdout_size s = of_nat (sum_list (map (\<lambda>t. length (channel_bytes (map fst ms) 0 t)) (tasks_of (map fst ms)))) \<and>
    stderr_size s = of_nat (sum_list (map (\<lambda>t. length (channel_bytes (map fst ms) 1 t)) (tasks_of (map fst ms))))"
proof -
  obtain lf where o: "LogFile_open c fs f = Inr lf" "index_wf (lf_index lf)"
    "holds_log (lf_file lf) (map fst ms) (look (lf_index lf))"
    using log_opens [where fs = fs and f = f, OF assms(1-4)] .
  note i = index_wf_instances [OF o(2)]
  have t: "map fst (lf_index lf) = tasks_of (map fst ms)" by (rule index_tasks [OF o(2,3)])
  have l: "length (lf_index lf) = length (tasks_of (map fst ms))" unfolding t [symmetric] by simp
  have "length (lf_index lf) \<le> sum_list (map (\<lambda>e. length (instances (snd e))) (lf_index lf))"
    by (rule has_instances_length [OF i])
  then have le: "length (tasks_of (map fst ms)) \<le> card (stream_of ` set (map fst ms))"
    by (simp add: l index_streams [OF o(2,3)])
  have op: "total (\<lambda>e. if stream_finished (last (instances (snd e))) then 0 else 1) (lf_index lf) = 0"
    by (rule index_all_finished [OF o(2,3) complete_streamsD(2) [OF assms(3)]])
  show ?thesis
    using o(1) summary_ok [OF i]
    by (simp add: command_log_def refuses_as_def op total_of_nat index_streams [OF o(2,3)]
        index_total [OF o(2,3)] l of_nat_diff [OF le [unfolded set_map]])
qed

theorem log_summary_counts_witness:
  "\<exists>s. command_log big_endian (\<lambda>f. Some (w_disk (fst (writer_task big_endian ideal_file_env example_messages))))
     ''job.log'' LogSummary = Inr (PrintSummary s) \<and> n_streams s = 3 \<and> n_opened s = 0"
proof -
  have c: "complete_streams (map fst example_messages)"
    by (simp add: complete_streams_def example_messages_def)
  have "stream_of ` set (map fst example_messages) = set [(2, 0), (1, 0), (2, 1)]"
    by (auto simp: example_messages_def)
  then have n: "card (stream_of ` set (map fst example_messages)) = 3"
    by (simp only: card_set) simp
  from log_summary_counts [where e = ideal_file_env and f = "''job.log''"
        and fs = "\<lambda>f. Some (w_disk (fst (writer_task big_endian ideal_file_env example_messages)))",
        OF big_endian_ok _ c] n
  show ?thesis by (auto simp: ideal_file_env_def)
qed

end
