(* ===== verification/StreamServer.thy ===== *)
theory StreamServer
  imports LogRoundtrip
begin

text \<open>
  The stream server: \<^verbatim>\<open>src/src/stream/server/rpc.rs\<close> without the writer, which is in
  \<open>StreamLog\<close>. The state is changed by the control messages of the server, by connections of
  workers and by writers that end; the state machine interleaves them. The lemmas show that
  no run fails an assertion while the control messages follow their protocol, that the stream of
  a job always writes to the registered file, and that the messages of connections, however they
  break off and interleave, make a log that can be read back.

  A channel to a writer is its number in the list of spawned writers; a connection is its
  address. A received frame is a message, a message whose writer is gone, or broken data; opening
  the frame is the work of the Tako library.
\<close>

section \<open>State\<close>

record StreamServerState =
  streams :: "(JobId, nat) hmap"
  registrations :: "(JobId, path) hmap"
  connections :: "string list"
  files :: "path list"
  writers :: "path list"

definition StreamServerState_new :: StreamServerState where
  "StreamServerState_new =
     \<lparr>streams = [], registrations = [], connections = [], files = [], writers = []\<rparr>"

text \<open>
  A writer is spawned with the path of the registration; a path is in the set of files until its
  writer ends.
\<close>

definition get_stream :: "JobId \<Rightarrow> StreamServerState \<Rightarrow> string + (nat \<times> StreamServerState)" where
  "get_stream job_id st =
     (case map_of (streams st) job_id of
        Some s \<Rightarrow> Inr (s, st)
      | None \<Rightarrow>
          (case map_of (registrations st) job_id of
             Some path \<Rightarrow>
               (let sender = length (writers st)
                in Inr (sender, st\<lparr>streams := fst (hm_insert job_id sender (streams st)),
                                   files := List.insert path (files st),
                                   writers := writers st @ [path]\<rparr>))
           | None \<Rightarrow> Inl (''Job '' @ show_u32 job_id @ '' is not registered for streaming'')))"

definition writer_end :: "nat \<Rightarrow> StreamServerState \<Rightarrow> StreamServerState" where
  "writer_end sender st = st\<lparr>files := removeAll (writers st ! sender) (files st)\<rparr>"

section \<open>Connections\<close>

datatype frame =
    Received FromStreamerMessage
  | Undelivered FromStreamerMessage
  | Broken string

text \<open>The set \<open>opened_ids\<close> after a message.\<close>

fun track :: "FromStreamerMessage \<Rightarrow> (JobTaskId \<times> InstanceId) list \<Rightarrow> (JobTaskId \<times> InstanceId) list" where
  "track (Start t i) ids = List.insert (t, i) ids"
| "track (Data t i ch d) ids = ids"
| "track (End t i) ids = removeAll (t, i) ids"

text \<open>What the loop sends to the writer, the open ids when it ends, and its error.\<close>

fun receive_loop ::
  "'c \<Rightarrow> frame list \<Rightarrow> (JobTaskId \<times> InstanceId) list \<Rightarrow>
   'c StreamMessage list \<times> (JobTaskId \<times> InstanceId) list \<times> string option" where
  "receive_loop response_sender [] opened_ids = ([], opened_ids, None)"
| "receive_loop response_sender (Received m # frames) opened_ids =
     (case receive_loop response_sender frames (track m opened_ids) of
        (ms, ids, r) \<Rightarrow> ((m, Some response_sender) # ms, ids, r))"
| "receive_loop response_sender (Undelivered m # frames) opened_ids =
     ([], track m opened_ids, Some ''Fail to process streamed message'')"
| "receive_loop response_sender (Broken e # frames) opened_ids = ([], opened_ids, Some e)"

text \<open>
  The part of \<^verbatim>\<open>handle_connection\<close> behind the registration: the messages to the
  writer, with the ends of the ids that are still open, and the error sent back. When the send
  loop ends first, the frames are those received until then.
\<close>

definition connection_body :: "'c \<Rightarrow> frame list \<Rightarrow> 'c StreamMessage list \<times> 'c answers" where
  "connection_body sender frames =
     (case receive_loop sender frames [] of
        (ms, open_ids, r) \<Rightarrow>
          (ms @ map (\<lambda>(task, instance). (End task instance, None)) open_ids,
           (case r of Some e \<Rightarrow> send_error (Some sender) e | None \<Rightarrow> [])))"

datatype registration = NoRegistration | BrokenRegistration string | Registration StreamRegistration

text \<open>The result is the channel and the messages for it, or the error that is logged.\<close>

definition handle_connection ::
  "string \<Rightarrow> registration \<Rightarrow> frame list \<Rightarrow> StreamServerState \<Rightarrow>
   StreamServerState \<times> (string + (nat \<times> string StreamMessage list \<times> string answers))" where
  "handle_connection address first frames st =
     (case first of
        NoRegistration \<Rightarrow> (st, Inl ''Stream closed without registration'')
      | BrokenRegistration e \<Rightarrow> (st, Inl e)
      | Registration register \<Rightarrow>
          (case get_stream (reg_job register) st of
             Inl e \<Rightarrow> (st, Inl e)
           | Inr (stream, st) \<Rightarrow> (st, Inr (stream, connection_body address frames))))"

section \<open>The control loop\<close>

datatype control_answer = Registered | NoAnswer | Spawn string | StatsAnswer StreamStats

definition control_step ::
  "StreamServerControlMessage \<Rightarrow> StreamServerState \<Rightarrow> (StreamServerState \<times> control_answer) outcome" where
  "control_step m st =
     (case m of
        RegisterStream job_id path \<Rightarrow>
          (case hm_insert job_id path (registrations st) of
             (regs, None) \<Rightarrow> Inr (st\<lparr>registrations := regs\<rparr>, Registered)
           | (regs, Some _) \<Rightarrow> Inl Assert_failed)
      | UnregisterStream job_id \<Rightarrow>
          (case hm_remove job_id (registrations st) of
             (regs, Some _) \<Rightarrow>
               Inr (st\<lparr>registrations := regs, streams := fst (hm_remove job_id (streams st))\<rparr>, NoAnswer)
           | (regs, None) \<Rightarrow> Inl Assert_failed)
      | AddConnection address \<Rightarrow> Inr (st, Spawn address)
      | StreamStatsRequest \<Rightarrow>
          Inr (st, StatsAnswer
            \<lparr>ss_connections = connections st, ss_registrations = registrations st,
             ss_files = files st\<rparr>))"

text \<open>
  One atomic step of the server: a control message, the start of a spawned connection, its
  registration, its end, and the end of a writer.
\<close>

datatype stream_action =
    Control StreamServerControlMessage
  | ConnectionStart string
  | ConnectionRegister string registration "frame list"
  | ConnectionEnd string
  | WriterEnd nat

fun stream_step :: "stream_action \<Rightarrow> StreamServerState \<Rightarrow> StreamServerState outcome" where
  "stream_step (Control m) st = try_bind (control_step m st) (\<lambda>(st, _). Inr st)"
| "stream_step (ConnectionStart address) st =
     Inr (st\<lparr>connections := List.insert address (connections st)\<rparr>)"
| "stream_step (ConnectionRegister address first frames) st =
     Inr (fst (handle_connection address first frames st))"
| "stream_step (ConnectionEnd address) st =
     Inr (st\<lparr>connections := removeAll address (connections st)\<rparr>)"
| "stream_step (WriterEnd sender) st = Inr (writer_end sender st)"

section \<open>The invariant\<close>

text \<open>
  The protocol of control messages: a job is registered once at a time, and unregistered when it
  is registered. A writer that ends is one that was spawned.
\<close>

fun stream_allowed :: "stream_action \<Rightarrow> StreamServerState \<Rightarrow> bool" where
  "stream_allowed (Control (RegisterStream job_id path)) st = (job_id \<notin> fst ` set (registrations st))"
| "stream_allowed (Control (UnregisterStream job_id)) st = (job_id \<in> fst ` set (registrations st))"
| "stream_allowed (WriterEnd sender) st = (sender < length (writers st))"
| "stream_allowed _ st = True"

definition stream_inv :: "StreamServerState \<Rightarrow> bool" where
  "stream_inv st \<longleftrightarrow> distinct (map fst (streams st)) \<and> distinct (map fst (registrations st)) \<and>
     distinct (map snd (streams st)) \<and>
     (\<forall>(job_id, sender) \<in> set (streams st). sender < length (writers st) \<and>
        map_of (registrations st) job_id = Some (writers st ! sender)) \<and>
     set (files st) \<subseteq> set (writers st)"

lemma set_delete: "set (AList.delete k m) = {e \<in> set m. fst e \<noteq> k}"
  by (auto simp: AList.delete_eq)

lemma stream_inv_new: "stream_inv StreamServerState_new"
  by (simp add: stream_inv_def StreamServerState_new_def)

lemma stream_inv_streams:
  assumes "stream_inv st" "map_of (streams st) job_id = Some sender"
  shows "sender < length (writers st)" "map_of (registrations st) job_id = Some (writers st ! sender)"
  using assms by (auto simp: stream_inv_def dest!: map_of_SomeD)

lemma register_ok:
  assumes "stream_inv st" "job_id \<notin> fst ` set (registrations st)"
  shows "\<exists>st'. control_step (RegisterStream job_id p) st = Inr (st', Registered) \<and> stream_inv st'"
proof -
  have n: "map_of (registrations st) job_id = None" using assms(2) by (simp add: map_of_eq_None_iff)
  have "fst x \<noteq> job_id" if "x \<in> set (streams st)" for x
    using that assms(1) n by (cases x) (auto simp: stream_inv_def)
  with assms n show ?thesis
    by (auto simp: control_step_def hm_insert_def stream_inv_def update_new map_add_def)
qed

lemma unregister_ok:
  assumes "stream_inv st" "job_id \<in> fst ` set (registrations st)"
  shows "\<exists>st'. control_step (UnregisterStream job_id) st = Inr (st', NoAnswer) \<and> stream_inv st'"
proof -
  obtain p where "map_of (registrations st) job_id = Some p"
    using assms(2) by (metis map_of_eq_None_iff not_Some_eq)
  then have c: "control_step (UnregisterStream job_id) st =
      Inr (st\<lparr>registrations := AList.delete job_id (registrations st),
             streams := AList.delete job_id (streams st)\<rparr>, NoAnswer)"
    by (simp add: control_step_def hm_remove_def)
  have "distinct (map snd (AList.delete job_id (streams st)))"
    using assms(1) by (simp add: stream_inv_def AList.delete_eq distinct_map_filter)
  moreover have "sender < length (writers st) \<and>
      map_of (AList.delete job_id (registrations st)) j = Some (writers st ! sender)"
    if "(j, sender) \<in> set (AList.delete job_id (streams st))" for j sender
    using that assms(1) by (auto simp: stream_inv_def delete_conv' set_delete)
  ultimately have "stream_inv (st\<lparr>registrations := AList.delete job_id (registrations st),
      streams := AList.delete job_id (streams st)\<rparr>)"
    using assms(1) by (auto simp: stream_inv_def distinct_delete)
  with c show ?thesis by blast
qed

lemma get_stream_ok:
  assumes "stream_inv st" "get_stream job_id st = Inr (sender, st')"
  shows "stream_inv st' \<and> map_of (streams st') job_id = Some sender \<and>
    registrations st' = registrations st \<and> connections st' = connections st"
proof (cases "map_of (streams st) job_id")
  case (Some s)
  with assms show ?thesis by (simp add: get_stream_def)
next
  case None
  with assms(2) obtain p where p: "map_of (registrations st) job_id = Some p"
    by (auto simp: get_stream_def split: option.splits)
  have n: "job_id \<notin> fst ` set (streams st)" using None by (simp add: map_of_eq_None_iff)
  have e: "sender = length (writers st)"
    "st' = st\<lparr>streams := streams st @ [(job_id, length (writers st))],
              files := List.insert p (files st), writers := writers st @ [p]\<rparr>"
    using assms(2) None p n by (auto simp: get_stream_def hm_insert_def update_new Let_def)
  have "map_of (streams st') job_id = Some sender" using None by (simp add: e map_add_def)
  moreover have "length (writers st) \<notin> snd ` set (streams st)"
    using assms(1) by (force simp: stream_inv_def)
  with n assms(1) p have "stream_inv st'"
    by (auto simp: e stream_inv_def nth_append)
  ultimately show ?thesis by (simp add: e)
qed

lemma stream_step_ok:
  assumes "stream_inv st" "stream_allowed a st"
  shows "\<exists>st'. stream_step a st = Inr st' \<and> stream_inv st'"
proof (cases a)
  case (Control m)
  show ?thesis
  proof (cases m)
    case (RegisterStream j p)
    with register_ok [OF assms(1), of j p] assms(2) Control show ?thesis by auto
  next
    case (UnregisterStream j)
    with unregister_ok [OF assms(1), of j] assms(2) Control show ?thesis by auto
  qed (use assms(1) Control in \<open>simp_all add: control_step_def\<close>)
next
  case (ConnectionRegister address first frames)
  have "stream_inv (fst (handle_connection address first frames st))"
    using assms(1) get_stream_ok [OF assms(1)]
    by (auto simp: handle_connection_def split: registration.splits sum.splits)
  with ConnectionRegister show ?thesis by simp
next
  case (WriterEnd sender)
  with assms(1) show ?thesis by (auto simp: stream_inv_def writer_end_def)
qed (use assms(1) in \<open>auto simp: stream_inv_def\<close>)

interpretation stream_server: machine stream_step stream_allowed stream_inv
  by unfold_locales (rule stream_step_ok)



section \<open>Interleaved connections\<close>

text \<open>The life of one stream, and a run of messages of this stream.\<close>

datatype phase = Fresh | Opened | Closed

fun next_phase :: "phase \<Rightarrow> FromStreamerMessage \<Rightarrow> phase option" where
  "next_phase Fresh (Start t i) = Some Opened"
| "next_phase Opened (Data t i ch d) = (if unat ch < 2 \<and> length d < 2 ^ 32 then Some Opened else None)"
| "next_phase Opened (End t i) = Some Closed"
| "next_phase _ _ = None"

fun phase_run :: "phase \<Rightarrow> FromStreamerMessage list \<Rightarrow> phase option" where
  "phase_run p [] = Some p"
| "phase_run p (m # ms) = (case next_phase p m of Some p \<Rightarrow> phase_run p ms | None \<Rightarrow> None)"

definition projection :: "JobTaskId \<times> InstanceId \<Rightarrow> FromStreamerMessage list \<Rightarrow> FromStreamerMessage list" where
  "projection s ms = filter (\<lambda>m. stream_of m = s) ms"

definition phase_of :: "(JobTaskId \<times> InstanceId) list \<Rightarrow> (JobTaskId \<times> InstanceId) list \<Rightarrow>
    JobTaskId \<times> InstanceId \<Rightarrow> phase" where
  "phase_of seen opened s = (if s \<in> set opened then Opened else if s \<in> set seen then Closed else Fresh)"

definition closes :: "phase option \<Rightarrow> bool" where
  "closes p \<longleftrightarrow> p = Some Fresh \<or> p = Some Closed"

lemma projection_simps [simp]:
  "projection s [] = []"
  "projection s (m # ms) = (if stream_of m = s then m # projection s ms else projection s ms)"
  "projection s (ms @ ns) = projection s ms @ projection s ns"
  by (simp_all add: projection_def)

lemma closes_Cons:
  "(\<forall>s. closes (phase_run (ph s) (projection s (m # ms)))) \<longleftrightarrow>
   (\<exists>p. next_phase (ph (stream_of m)) m = Some p \<and>
     (\<forall>s. closes (phase_run ((ph(stream_of m := p)) s) (projection s ms))))"
proof (cases "next_phase (ph (stream_of m)) m")
  case None
  then have "\<not> closes (phase_run (ph (stream_of m)) (projection (stream_of m) (m # ms)))"
    by (simp add: closes_def)
  then have "\<not> (\<forall>s. closes (phase_run (ph s) (projection s (m # ms))))" by blast
  then show ?thesis unfolding None by blast
next
  case (Some p)
  have "phase_run (ph s) (projection s (m # ms)) =
      phase_run ((ph(stream_of m := p)) s) (projection s ms)" for s
    using Some by (cases "s = stream_of m") auto
  then show ?thesis unfolding Some by (simp only: option.inject ex_simps simp_thms)
qed

lemma stream_run_phases:
  assumes "set opened \<subseteq> set seen"
  shows "stream_run seen opened ms = Some [] \<longleftrightarrow>
    (\<forall>s. closes (phase_run (phase_of seen opened s) (projection s ms)))"
  using assms
proof (induction seen opened ms rule: stream_run.induct)
  case (1 seen opened)
  have "opened = [] \<longleftrightarrow> (\<forall>s. phase_of seen opened s \<noteq> Opened)"
    by (cases opened) (auto simp: phase_of_def)
  moreover have "closes (Some p) \<longleftrightarrow> p \<noteq> Opened" for p by (cases p) (simp_all add: closes_def)
  ultimately show ?case by simp
next
  case (2 seen opened t i ms)
  have u: "(phase_of seen opened)((t, i) := Opened) = phase_of ((t, i) # seen) ((t, i) # opened)"
    by (auto simp: phase_of_def fun_eq_iff)
  have n: "next_phase (phase_of seen opened (t, i)) (Start t i) =
      (if (t, i) \<in> set seen then None else Some Opened)"
    using 2(2) by (auto simp: phase_of_def)
  show ?case unfolding closes_Cons stream_of.simps n
    using 2(1) 2(2) by (cases "(t, i) \<in> set seen") (simp_all add: u subset_insertI2 del: fun_upd_apply)
next
  case (3 seen opened t i ch d ms)
  have n: "next_phase (phase_of seen opened (t, i)) (Data t i ch d) =
      (if (t, i) \<in> set opened \<and> unat ch < 2 \<and> length d < 2 ^ 32 then Some Opened else None)"
    by (auto simp: phase_of_def)
  have u: "(t, i) \<in> set opened \<Longrightarrow> (phase_of seen opened)((t, i) := Opened) = phase_of seen opened"
    by (auto simp: phase_of_def fun_eq_iff)
  show ?case unfolding closes_Cons stream_of.simps n
  proof (cases "(t, i) \<in> set opened \<and> unat ch < 2 \<and> length d < 2 ^ 32")
    case True
    from 3(1) [OF True 3(2)] True u
    show "(stream_run seen opened (Data t i ch d # ms) = Some []) =
      (\<exists>p. (if (t, i) \<in> set opened \<and> unat ch < 2 \<and> length d < 2 ^ 32 then Some Opened else None) = Some p \<and>
        (\<forall>s. closes (phase_run (((phase_of seen opened)((t, i) := p)) s) (projection s ms))))"
      by (simp only: if_True stream_run.simps option.inject simp_thms)
  qed auto
next
  case (4 seen opened t i ms)
  have n: "next_phase (phase_of seen opened (t, i)) (End t i) =
      (if (t, i) \<in> set opened then Some Closed else None)"
    by (auto simp: phase_of_def)
  have u: "(t, i) \<in> set opened \<Longrightarrow>
      (phase_of seen opened)((t, i) := Closed) = phase_of seen (removeAll (t, i) opened)"
    using 4(2) by (auto simp: phase_of_def fun_eq_iff)
  have "set (removeAll (t, i) opened) \<subseteq> set seen" using 4(2) by auto
  then show ?case unfolding closes_Cons stream_of.simps n
    using 4(1) by (cases "(t, i) \<in> set opened") (simp_all add: u del: fun_upd_apply)
qed

lemma complete_streams_iff:
  "complete_streams ms \<longleftrightarrow> (\<forall>s. closes (phase_run Fresh (projection s ms)))"
  using stream_run_phases [of "[]" "[]" ms] by (simp add: complete_streams_def phase_of_def)

text \<open>
  Messages that several senders put into one channel: the channel takes the next message of any
  of them.
\<close>

inductive interleaving :: "'a list list \<Rightarrow> 'a list \<Rightarrow> bool" where
  interleaving_done: "(\<And>xs. xs \<in> set xss \<Longrightarrow> xs = []) \<Longrightarrow> interleaving xss []"
| interleaving_step: "k < length xss \<Longrightarrow> xss ! k = x # xs \<Longrightarrow> interleaving (xss[k := xs]) ms \<Longrightarrow>
    interleaving xss (x # ms)"

text \<open>What a predicate selects from one sender only comes through in the order of this sender.\<close>

lemma interleaving_filter:
  assumes "interleaving xss ms" "k < length xss"
    and "\<And>j x. j < length xss \<Longrightarrow> j \<noteq> k \<Longrightarrow> x \<in> set (xss ! j) \<Longrightarrow> \<not> P x"
  shows "filter P ms = filter P (xss ! k)"
  using assms
proof (induction rule: interleaving.induct)
  case (interleaving_done xss)
  then have "xss ! k = []" using nth_mem by blast
  then show ?case by simp
next
  case (interleaving_step j xss x xs ms)
  have "filter P ms = filter P (xss[j := xs] ! k)"
  proof (rule interleaving_step.IH)
    show "k < length (xss[j := xs])" using interleaving_step.prems by simp
    fix j' y assume "j' < length (xss[j := xs])" "j' \<noteq> k" "y \<in> set (xss[j := xs] ! j')"
    then show "\<not> P y" using interleaving_step.prems(2) [of j' y] interleaving_step.hyps
      by (cases "j' = j") auto
  qed
  then show ?case
    using interleaving_step.hyps interleaving_step.prems(2) [of j x] by (cases "j = k") auto
qed

lemma interleaving_none:
  assumes "interleaving xss ms" "\<And>xs x. xs \<in> set xss \<Longrightarrow> x \<in> set xs \<Longrightarrow> \<not> P x"
  shows "filter P ms = []"
  using assms
proof (induction rule: interleaving.induct)
  case (interleaving_step j xss x xs ms)
  have m: "x # xs \<in> set xss" using interleaving_step.hyps(1,2) nth_mem by fastforce
  have "filter P ms = []"
  proof (rule interleaving_step.IH)
    fix ys y assume y: "ys \<in> set (xss[j := xs])" "y \<in> set ys"
    then have "ys = xs \<or> ys \<in> set xss" using set_update_subset_insert [of xss j xs] by auto
    with y(2) m show "\<not> P y" using interleaving_step.prems by (metis list.set_intros(2))
  qed
  moreover have "\<not> P x" using interleaving_step.prems [OF m] by simp
  ultimately show ?case by simp
qed simp

lemma interleaving_map: "interleaving xss ms \<Longrightarrow> interleaving (map (map f) xss) (map f ms)"
proof (induction rule: interleaving.induct)
  case (interleaving_done xss)
  have "interleaving (map (map f) xss) []"
  proof (rule interleaving.interleaving_done)
    fix ys assume "ys \<in> set (map (map f) xss)"
    with interleaving_done show "ys = []" by auto
  qed
  then show ?case by simp
next
  case (interleaving_step k xss x xs ms)
  have "interleaving (map (map f) xss) (f x # map f ms)"
  proof (rule interleaving.interleaving_step [of k _ "f x" "map f xs"])
    show "interleaving ((map (map f) xss)[k := map f xs]) (map f ms)"
      using interleaving_step.IH by (simp add: map_update)
  qed (simp_all add: interleaving_step.hyps)
  then show ?case by simp
qed

text \<open>Where every stream has one sender, its messages come through as this sender sent them.\<close>

lemma interleaving_own:
  assumes "interleaving xss ms"
    and "\<And>j k. j < length xss \<Longrightarrow> k < length xss \<Longrightarrow> j \<noteq> k \<Longrightarrow>
      stream_of ` set (xss ! j) \<inter> stream_of ` set (xss ! k) = {}"
    and k: "k < length xss" "s \<in> stream_of ` set (xss ! k)"
  shows "projection s ms = projection s (xss ! k)"
  unfolding projection_def
proof (rule interleaving_filter [OF assms(1) k(1)])
  fix j x assume j: "j < length xss" "j \<noteq> k" "x \<in> set (xss ! j)"
  have "stream_of x \<in> stream_of ` set (xss ! j)" using j(3) by simp
  with assms(2) [OF j(1) k(1) j(2)] k(2) show "stream_of x \<noteq> s" by blast
qed

lemma interleaving_other:
  assumes "interleaving xss ms" "\<forall>k < length xss. s \<notin> stream_of ` set (xss ! k)"
  shows "projection s ms = []"
  unfolding projection_def
proof (rule interleaving_none [OF assms(1)])
  fix xs x assume "xs \<in> set xss" "x \<in> set xs"
  then obtain k where k: "k < length xss" "x \<in> set (xss ! k)" by (metis in_set_conv_nth)
  then have "stream_of x \<in> stream_of ` set (xss ! k)" by simp
  with assms(2) k(1) show "stream_of x \<noteq> s" by blast
qed

text \<open>Senders that close their own streams make a complete log, whatever the interleaving.\<close>

lemma interleaving_complete:
  assumes "interleaving xss ms" "\<And>xs. xs \<in> set xss \<Longrightarrow> complete_streams xs"
    and "\<And>j k. j < length xss \<Longrightarrow> k < length xss \<Longrightarrow> j \<noteq> k \<Longrightarrow>
      stream_of ` set (xss ! j) \<inter> stream_of ` set (xss ! k) = {}"
  shows "complete_streams ms"
    and "k < length xss \<Longrightarrow> s \<in> stream_of ` set (xss ! k) \<Longrightarrow>
      projection s ms = projection s (xss ! k)"
    and "stream_of ` set ms = (\<Union>k<length xss. stream_of ` set (xss ! k))"
proof -
  have own: "projection s ms = projection s (xss ! k)"
    if "k < length xss" "s \<in> stream_of ` set (xss ! k)" for s k
    by (rule interleaving_own [OF assms(1) _ that]) (rule assms(3))
  note none = interleaving_other [OF assms(1)]
  show "k < length xss \<Longrightarrow> s \<in> stream_of ` set (xss ! k) \<Longrightarrow>
      projection s ms = projection s (xss ! k)" by (rule own)
  have "closes (phase_run Fresh (projection s ms))" for s
  proof (cases "\<exists>k < length xss. s \<in> stream_of ` set (xss ! k)")
    case True
    then obtain k where k: "k < length xss" "s \<in> stream_of ` set (xss ! k)" by blast
    have "complete_streams (xss ! k)" using assms(2) k(1) by simp
    then show ?thesis unfolding own [OF k] complete_streams_iff by blast
  next
    case False
    then show ?thesis using none by (simp add: closes_def)
  qed
  then show "complete_streams ms" by (simp add: complete_streams_iff)
  have p: "s \<in> stream_of ` set zs \<longleftrightarrow> projection s zs \<noteq> []" for s zs
    by (auto simp: projection_def filter_empty_conv)
  show "stream_of ` set ms = (\<Union>k<length xss. stream_of ` set (xss ! k))"
  proof (intro set_eqI)
    fix s
    show "s \<in> stream_of ` set ms \<longleftrightarrow> s \<in> (\<Union>k<length xss. stream_of ` set (xss ! k))"
    proof (cases "\<exists>k < length xss. s \<in> stream_of ` set (xss ! k)")
      case True
      then obtain k where k: "k < length xss" "s \<in> stream_of ` set (xss ! k)" by blast
      then have "projection s ms \<noteq> []" using own [OF k] p by metis
      with k p show ?thesis by blast
    next
      case False
      then have "s \<notin> stream_of ` set ms" using none p by blast
      moreover have "s \<notin> (\<Union>k<length xss. stream_of ` set (xss ! k))" using False by blast
      ultimately show ?thesis by blast
    qed
  qed
qed

section \<open>Connections that break off\<close>

fun delivers :: "frame list \<Rightarrow> bool" where
  "delivers [] = True"
| "delivers (Received m # frames) = delivers frames"
| "delivers (Undelivered m # frames) = False"
| "delivers (Broken e # frames) = True"

fun received :: "frame list \<Rightarrow> FromStreamerMessage list" where
  "received (Received m # frames) = m # received frames"
| "received _ = []"

abbreviation track_all ::
  "FromStreamerMessage list \<Rightarrow> (JobTaskId \<times> InstanceId) list \<Rightarrow> (JobTaskId \<times> InstanceId) list" where
  "track_all ms ids \<equiv> foldl (\<lambda>ids m. track m ids) ids ms"

lemma receive_loop_delivers:
  "delivers frames \<Longrightarrow> \<exists>r. receive_loop s frames ids =
     (map (\<lambda>m. (m, Some s)) (received frames), track_all (received frames) ids, r)"
  by (induction s frames ids rule: receive_loop.induct) auto

lemma stream_run_track:
  assumes "stream_run seen opened ms = Some opened'" "set ids = set opened" "distinct ids"
  shows "set (track_all ms ids) = set opened' \<and> distinct (track_all ms ids)"
  using assms
  by (induction seen opened ms arbitrary: ids rule: stream_run.induct)
    (auto split: if_splits simp: distinct_removeAll insert_absorb)

lemma stream_run_ends:
  "set ids = set opened \<Longrightarrow> distinct ids \<Longrightarrow> stream_run seen opened (map (\<lambda>(t, i). End t i) ids) = Some []"
proof (induction ids arbitrary: opened)
  case (Cons s ids)
  obtain t i where s: "s = (t, i)" by force
  have "set ids = set (removeAll (t, i) opened)" using Cons.prems s by auto
  from Cons.IH [OF this] Cons.prems s show ?case by auto
qed simp

lemma stream_run_close:
  assumes "stream_run seen opened ms = Some opened'" "set ids = set opened'" "distinct ids"
  shows "stream_run seen opened (ms @ map (\<lambda>(t, i). End t i) ids) = Some []"
  using assms
  by (induction seen opened ms rule: stream_run.induct)
    (auto split: if_splits simp: stream_run_ends)

lemma ends_streams: "stream_of ` set (map (\<lambda>(t, i). End t i) ids) = set ids"
  by (induction ids) auto

lemma connection_body_messages:
  assumes "delivers frames" "stream_run [] [] (received frames) \<noteq> None"
  shows "complete_streams (map fst (fst (connection_body s frames)))"
    and "map fst (fst (connection_body s frames)) =
      received frames @ map (\<lambda>(t, i). End t i) (track_all (received frames) [])"
    and "stream_of ` set (map fst (fst (connection_body s frames))) = stream_of ` set (received frames)"
proof -
  obtain r where r: "receive_loop s frames [] =
     (map (\<lambda>m. (m, Some s)) (received frames), track_all (received frames) [], r)"
    using receive_loop_delivers [OF assms(1), of s "[]"] by blast
  show m: "map fst (fst (connection_body s frames)) =
      received frames @ map (\<lambda>(t, i). End t i) (track_all (received frames) [])"
    by (simp add: connection_body_def r o_def case_prod_beta')
  obtain opened where o: "stream_run [] [] (received frames) = Some opened" using assms(2) by blast
  have t: "set (track_all (received frames) []) = set opened" "distinct (track_all (received frames) [])"
    using stream_run_track [OF o, of "[]"] by simp_all
  show "complete_streams (map fst (fst (connection_body s frames)))"
    unfolding m complete_streams_def by (rule stream_run_close [OF o t])
  have "set (track_all ms ids) \<subseteq> set ids \<union> stream_of ` set ms" for ms ids
  proof (induction ms arbitrary: ids)
    case (Cons m ms)
    have "set (track m ids) \<subseteq> insert (stream_of m) (set ids)" by (cases m) auto
    with Cons [of "track m ids"] show ?case by auto
  qed simp
  from this [of "[]" "received frames"]
  show "stream_of ` set (map fst (fst (connection_body s frames))) = stream_of ` set (received frames)"
    unfolding m set_append image_Un ends_streams by auto
qed

lemma stream_data_projection: "stream_data (projection (t, i) ms) t i ch = stream_data ms t i ch"
  by (induction ms) (auto simp: stream_data_def split: FromStreamerMessage.splits)

lemma stream_data_ends: "stream_data (ms @ map (\<lambda>(t, i). End t i) ids) t i ch = stream_data ms t i ch"
  by (induction ids) (auto simp: stream_data_def)

definition connections_ok :: "('c \<times> frame list) list \<Rightarrow> bool" where
  "connections_ok conns \<longleftrightarrow>
     list_all (\<lambda>(s, frames). delivers frames \<and> stream_run [] [] (received frames) \<noteq> None) conns \<and>
     (\<forall>j<length conns. \<forall>k<length conns. j \<noteq> k \<longrightarrow>
        stream_of ` set (received (snd (conns ! j))) \<inter> stream_of ` set (received (snd (conns ! k))) = {})"

lemma connections_complete:
  assumes "interleaving (map (\<lambda>(s, frames). fst (connection_body s frames)) conns) ms"
    and "connections_ok conns"
  shows "complete_streams (map fst ms)"
    and "k < length conns \<Longrightarrow> (t, i) \<in> stream_of ` set (received (snd (conns ! k))) \<Longrightarrow>
      stream_data (map fst ms) t i ch = stream_data (received (snd (conns ! k))) t i ch"
    and "stream_of ` set (map fst ms) = (\<Union>k<length conns. stream_of ` set (received (snd (conns ! k))))"
proof -
  let ?xss = "map (map fst) (map (\<lambda>(s, frames). fst (connection_body s frames)) conns)"
  have x: "?xss ! k = map fst (fst (connection_body (fst (conns ! k)) (snd (conns ! k))))"
    "delivers (snd (conns ! k))" "stream_run [] [] (received (snd (conns ! k))) \<noteq> None"
    if "k < length conns" for k
    using assms(2) that by (auto simp: connections_ok_def list_all_length case_prod_beta')
  have l: "length ?xss = length conns" by simp
  note body = connection_body_messages [OF x(2,3)]
  have c: "complete_streams xs" if "xs \<in> set ?xss" for xs
  proof -
    from that obtain k where k: "k < length conns" "xs = ?xss ! k"
      unfolding in_set_conv_nth l by auto
    show ?thesis unfolding k(2) x(1) [OF k(1)] by (rule body(1) [OF k(1) k(1)])
  qed
  have s: "stream_of ` set (?xss ! k) = stream_of ` set (received (snd (conns ! k)))"
    if "k < length conns" for k
    unfolding x(1) [OF that] by (rule body(3) [OF that that])
  have d: "stream_of ` set (?xss ! j) \<inter> stream_of ` set (?xss ! k) = {}"
    if "j < length ?xss" "k < length ?xss" "j \<noteq> k" for j k
    using assms(2) that unfolding l connections_ok_def by (simp only: s) blast
  note i = interleaving_complete [OF interleaving_map [OF assms(1)] c d]
  show "complete_streams (map fst ms)" by (rule i(1))
  have "stream_of ` set (map fst ms) = (\<Union>k<length ?xss. stream_of ` set (?xss ! k))" by (rule i(3))
  also have "\<dots> = (\<Union>k<length conns. stream_of ` set (received (snd (conns ! k))))"
    unfolding l by (intro SUP_cong refl s) simp
  finally show "stream_of ` set (map fst ms) =
      (\<Union>k<length conns. stream_of ` set (received (snd (conns ! k))))" .
  show "stream_data (map fst ms) t i ch = stream_data (received (snd (conns ! k))) t i ch"
    if k: "k < length conns" "(t, i) \<in> stream_of ` set (received (snd (conns ! k)))"
  proof -
    have "projection (t, i) (map fst ms) = projection (t, i) (?xss ! k)"
    proof (rule i(2))
      show "k < length ?xss" using k(1) l by simp
      show "(t, i) \<in> stream_of ` set (?xss ! k)" unfolding s [OF k(1)] by (rule k(2))
    qed
    then have "stream_data (map fst ms) t i ch = stream_data (?xss ! k) t i ch"
      by (metis stream_data_projection)
    then show ?thesis unfolding x(1) [OF k(1)] body(2) [OF k(1) k(1)] stream_data_ends .
  qed
qed



end
