(* ===== verification/Worker.thy ===== *)
theory Worker
  imports Client Streamer StreamServer
begin

text \<open>
  The worker: \<^verbatim>\<open>src/src/worker/start.rs\<close> (placeholders, the launcher, running a task and
  streaming its output, the configuration), the environment variables of
  \<^verbatim>\<open>src/src/common/env.rs\<close> it sets, \<^verbatim>\<open>src/src/common/manager/info.rs\<close>, the
  part of \<^verbatim>\<open>src/src/common/manager/pbs.rs\<close> behind its parsers, and the detection of
  resources in \<^verbatim>\<open>src/src/worker/hwdetect.rs\<close>. The lemmas show that placeholders are
  replaced independently of the order in which the hash map is visited, and which messages the
  stream of a task consists of.

  The functions of the Tako library that the launcher calls, the display of byte strings, dates,
  spawned programs and the files of the system are parameters.
\<close>

section \<open>Text\<close>

text \<open>\<^verbatim>\<open>Path::to_str\<close>: the bytes of a path are text when they are valid UTF-8.\<close>

definition cont_byte :: "nat \<Rightarrow> bool" where
  "cont_byte b \<longleftrightarrow> 128 \<le> b \<and> b < 192"

fun valid_utf8 :: "nat list \<Rightarrow> bool" where
  "valid_utf8 [] = True"
| "valid_utf8 (b # bs) =
     (if b < 128 then valid_utf8 bs
      else case bs of
        [] \<Rightarrow> False
      | b1 # bs1 \<Rightarrow>
          if 194 \<le> b \<and> b < 224 then cont_byte b1 \<and> valid_utf8 bs1
          else (case bs1 of
            [] \<Rightarrow> False
          | b2 # bs2 \<Rightarrow>
              if 224 \<le> b \<and> b < 240 then
                cont_byte b1 \<and> cont_byte b2 \<and> (b = 224 \<longrightarrow> 160 \<le> b1) \<and> (b = 237 \<longrightarrow> b1 < 160) \<and>
                valid_utf8 bs2
              else (case bs2 of
                [] \<Rightarrow> False
              | b3 # bs3 \<Rightarrow>
                  240 \<le> b \<and> b < 245 \<and> cont_byte b1 \<and> cont_byte b2 \<and> cont_byte b3 \<and>
                  (b = 240 \<longrightarrow> 144 \<le> b1) \<and> (b = 244 \<longrightarrow> b1 < 144) \<and> valid_utf8 bs3)))"

definition to_str :: "path \<Rightarrow> string option" where
  "to_str p = (if valid_utf8 (map of_char p) then Some p else None)"

text \<open>\<^verbatim>\<open>str::replace\<close> for a pattern that is not empty: matches from left to right.\<close>

function replace_all :: "string \<Rightarrow> string \<Rightarrow> string \<Rightarrow> string" where
  "replace_all p v [] = []"
| "replace_all p v (c # s) =
     (if p \<noteq> [] \<and> prefix p (c # s) then v @ replace_all p v (drop (length p - 1) s)
      else c # replace_all p v s)"
  by pat_completeness auto
termination
  by (relation "measure (\<lambda>(p, v, s). length s)") auto

declare replace_all.simps(2) [simp del]

definition ascii_lower :: "string \<Rightarrow> string" where
  "ascii_lower s = map (\<lambda>c. let n = of_char c :: nat in
     if 65 \<le> n \<and> n \<le> 90 then char_of (n + 32) else c) s"

section \<open>Environment variables\<close>

definition HQ_INSTANCE_ID :: string where "HQ_INSTANCE_ID = ''HQ_INSTANCE_ID''"
definition HQ_PIN :: string where "HQ_PIN = ''HQ_PIN''"
definition HQ_CPUS :: string where "HQ_CPUS = ''HQ_CPUS''"

definition is_hq_env :: "bstring \<Rightarrow> bool" where
  "is_hq_env name = prefix ''HQ_'' name"

section \<open>Placeholders\<close>

text \<open>
  The functions of the libraries: \<open>map_filename\<close> of the stdio definition, pinning, the cpu ids of
  an allocation, the body of a task, and the text of a byte string.
\<close>

record 'al TakoApi =
  map_filename :: "(path \<Rightarrow> path outcome) \<Rightarrow> StdioDef \<Rightarrow> StdioDef outcome"
  pin_program :: "ProgramDefinition \<Rightarrow> 'al \<Rightarrow> ProgramDefinition"
  comma_delimited_cpu_ids :: "'al \<Rightarrow> string"
  deserialize_body :: "bstring \<Rightarrow> string + TaskBody"
  bstring_to_string :: "bstring \<Rightarrow> string"

text \<open>\<open>visit\<close> is the order in which the hash map of placeholders is visited.\<close>

definition replace_path ::
  "((string, string) hmap \<Rightarrow> (string \<times> string) list) \<Rightarrow> (string, string) hmap \<Rightarrow> path \<Rightarrow> path outcome" where
  "replace_path visit m p =
     try_bind (unwrap (to_str p)) (\<lambda>s.
       Inr (foldl (\<lambda>s (placeholder, replacement). replace_all placeholder replacement s) s (visit m)))"

definition replace_placeholders ::
  "'al TakoApi \<Rightarrow> ((string, string) hmap \<Rightarrow> (string \<times> string) list) \<Rightarrow> string \<Rightarrow> path option \<Rightarrow>
   ProgramDefinition \<Rightarrow> ProgramDefinition outcome" where
  "replace_placeholders api visit date current_dir program =
     (let env_of = (\<lambda>key. unwrap (map_of (pd_env program) key)) in
      try_bind (env_of HQ_SUBMIT_DIR) (\<lambda>submit_dir.
      try_bind (env_of HQ_JOB_ID) (\<lambda>job_id.
      try_bind (env_of HQ_TASK_ID) (\<lambda>task_id.
      try_bind (env_of HQ_INSTANCE_ID) (\<lambda>inst.
      let placeholder_map =
        [(''%{JOB_ID}'', bstring_to_string api job_id), (''%{TASK_ID}'', bstring_to_string api task_id),
         (''%{INSTANCE_ID}'', bstring_to_string api inst),
         (''%{SUBMIT_DIR}'', bstring_to_string api submit_dir), (''%{DATE}'', date)] in
      try_bind
        (case pd_cwd program of
           Some cwd \<Rightarrow> try_bind (replace_path visit placeholder_map cwd) (\<lambda>p. Inr (path_join submit_dir p))
         | None \<Rightarrow> unwrap current_dir) (\<lambda>cwd.
      try_bind (unwrap (to_str cwd)) (\<lambda>cwd_str.
      let placeholder_map = fst (hm_insert ''%{CWD}'' cwd_str placeholder_map);
          rename = (\<lambda>path. try_bind (replace_path visit placeholder_map path) (\<lambda>p.
            Inr (path_join submit_dir p))) in
      try_bind (map_filename api rename (pd_stdout program)) (\<lambda>out.
      try_bind (map_filename api rename (pd_stderr program)) (\<lambda>err.
      Inr (program\<lparr>pd_cwd := Some cwd, pd_stdout := out, pd_stderr := err\<rparr>))))))))))"

section \<open>The launcher\<close>

text \<open>
  The program of a task as the launcher runs it. \<open>create_parent\<close> creates the directory a file is
  in, where its path names one, or gives an error. Errors of the launcher are values, panics stay
  panics.
\<close>

definition create_directory_if_needed :: "(path \<Rightarrow> string option) \<Rightarrow> StdioDef \<Rightarrow> string option" where
  "create_directory_if_needed create_parent file =
     (case file of File path \<Rightarrow> create_parent path | _ \<Rightarrow> None)"

definition launcher_program ::
  "'al TakoApi \<Rightarrow> ((string, string) hmap \<Rightarrow> (string \<times> string) list) \<Rightarrow> string \<Rightarrow> path option \<Rightarrow>
   (path \<Rightarrow> string option) \<Rightarrow> bstring \<Rightarrow> 'al option \<Rightarrow> InstanceId \<Rightarrow>
   (string + ProgramDefinition \<times> JobId \<times> JobTaskId \<times> InstanceId) outcome" where
  "launcher_program api visit date current_dir create_parent body allocation inst =
     (case deserialize_body api body of
        Inl e \<Rightarrow> Inr (Inl e)
      | Inr body \<Rightarrow>
          try_bind (unwrap allocation) (\<lambda>allocation.
          let program = tb_program body;
              program =
                (if tb_pin body then
                   (let p = pin_program api program allocation
                    in p\<lparr>pd_env := fst (hm_insert HQ_PIN ''1'' (pd_env p))\<rparr>)
                 else program);
              env1 = fst (hm_insert HQ_CPUS (comma_delimited_cpu_ids api allocation) (pd_env program));
              env2 = fst (hm_insert HQ_INSTANCE_ID (show_u32 inst) env1) in
          try_bind (replace_placeholders api visit date current_dir (program\<lparr>pd_env := env2\<rparr>)) (\<lambda>program.
          Inr (case create_directory_if_needed create_parent (pd_stdout program) of
                 Some e \<Rightarrow> Inl e
               | None \<Rightarrow>
                   (case create_directory_if_needed create_parent (pd_stderr program) of
                      Some e \<Rightarrow> Inl e
                    | None \<Rightarrow> Inr (program, tb_job_id body, tb_task_id body, inst))))))"

section \<open>Running a task\<close>

definition STDIO_BUFFER_SIZE :: nat where
  "STDIO_BUFFER_SIZE = 16 * 1024"

text \<open>
  Reads from the output of a program: each gives bytes or an error, and says whether the queue of
  the stream was closed when the bytes were sent on. The result is missing while the program has
  not closed its output.
\<close>

type_synonym stdio_reads = "((string + bytes) \<times> bool) list"

text \<open>\<^verbatim>\<open>{:?}\<close> puts the message into quotes; the messages have nothing to escape.\<close>

definition streamer_error :: "string \<Rightarrow> string" where
  "streamer_error e = ''Streamer: '' @ [CHR 0x22] @ e @ [CHR 0x22]"

fun resend_loop :: "StreamSender \<Rightarrow> ChannelId \<Rightarrow> stdio_reads \<Rightarrow> FromStreamerMessage list \<times> (string + unit) option" where
  "resend_loop stream channel [] = ([], None)"
| "resend_loop stream channel ((Inl e, closed) # reads) = ([], Some (Inl e))"
| "resend_loop stream channel ((Inr buffer, closed) # reads) =
     (if buffer = [] then ([], Some (Inr ()))
      else case send_data closed channel buffer stream of
        Inl e \<Rightarrow> ([], Some (Inl e))
      | Inr m \<Rightarrow> (case resend_loop stream channel reads of (ms, r) \<Rightarrow> (m # ms, r)))"

definition resend_stdio ::
  "StreamSender \<Rightarrow> ChannelId \<Rightarrow> stdio_reads option \<Rightarrow> FromStreamerMessage list \<times> (string + unit) option" where
  "resend_stdio stream channel stdio =
     (case stdio of Some reads \<Rightarrow> resend_loop stream channel reads | None \<Rightarrow> ([], Some (Inr ())))"

text \<open>An exit status is the exit code, if there is one.\<close>

datatype 'tr TaskResult = TaskFinished | TaskStopped 'tr

definition show_int :: "int \<Rightarrow> string" where
  "show_int n = (if n < 0 then ''-'' @ show_nat (nat (- n)) else show_nat (nat n))"

definition status_to_result :: "int option \<Rightarrow> string + 'tr TaskResult" where
  "status_to_result status =
     (if status \<noteq> Some 0 then
        Inl (''Program terminated with exit code '' @
             show_int (case status of Some code \<Rightarrow> code | None \<Rightarrow> -1))
      else Inr TaskFinished)"

text \<open>
  What happens while a task runs: the command and the spawned program fail or not, the queue is
  closed or not when the stream is started and closed, what the program writes and how it exits,
  a request to stop that comes before the program has ended, and what the oneshot channel of the
  confirmation delivers. \<open>run_merge\<close> is the order of the data of the two channels;
  \<open>run_responder_first\<close> says that the confirmation comes before the stream is closed.
\<close>

datatype confirmation_event = NoEvent | Dropped | ConfirmError string | Confirmed

record 'tr TaskRun =
  run_command :: "string option"
  run_spawn :: "string option"
  run_start_closed :: bool
  run_stdout :: "stdio_reads option"
  run_stderr :: "stdio_reads option"
  run_merge :: "bool list"
  run_wait :: "(string + int option) option"
  run_stop :: "'tr option"
  run_close_closed :: bool
  run_confirm :: confirmation_event
  run_responder_first :: bool

fun merge :: "bool list \<Rightarrow> 'a list \<Rightarrow> 'a list \<Rightarrow> 'a list" where
  "merge bs [] ys = ys"
| "merge bs xs [] = xs"
| "merge (True # bs) (x # xs) (y # ys) = x # merge bs xs (y # ys)"
| "merge (False # bs) (x # xs) (y # ys) = y # merge bs (x # xs) ys"
| "merge [] (x # xs) (y # ys) = x # merge [] xs (y # ys)"

text \<open>
  \<open>main_fut\<close>: the first part that fails decides; without a failure it waits for all parts. Where
  several parts fail, the error is the first in the order of the code.
\<close>

definition main_result ::
  "(string + int option) option \<Rightarrow> (string + unit) option \<Rightarrow> (string + unit) option \<Rightarrow>
   (string + 'tr TaskResult) option" where
  "main_result wait out err =
     (case (wait, out, err) of
        (Some (Inl e), _, _) \<Rightarrow> Some (Inl e)
      | (_, Some (Inl e), _) \<Rightarrow> Some (Inl (streamer_error e))
      | (_, _, Some (Inl e)) \<Rightarrow> Some (Inl (streamer_error e))
      | (Some (Inr status), Some (Inr _), Some (Inr _)) \<Rightarrow> Some (status_to_result status)
      | _ \<Rightarrow> None)"

fun confirmation_error :: "confirmation_event \<Rightarrow> string option" where
  "confirmation_error Dropped = Some ''Connection to stream server closed''"
| "confirmation_error (ConfirmError e) = Some (streamer_error e)"
| "confirmation_error _ = None"

text \<open>
  The messages of the stream and the result, which is missing while the task runs. An error of
  either future of \<^verbatim>\<open>try_join!\<close> drops the other one.
\<close>

definition run_piped ::
  "StreamSender \<Rightarrow> 'tr TaskRun \<Rightarrow> FromStreamerMessage list \<times> (string + 'tr TaskResult) option" where
  "run_piped stream run =
     (case send_stream_start (run_start_closed run) stream of
        Inl e \<Rightarrow> ([], Some (Inl (streamer_error e)))
      | Inr start_msg \<Rightarrow>
          (case resend_stdio stream 0 (run_stdout run) of (outs, out) \<Rightarrow>
          case resend_stdio stream 1 (run_stderr run) of (errs, err) \<Rightarrow>
          let sent = start_msg # merge (run_merge run) outs errs;
              result = (case run_stop run of
                  Some r \<Rightarrow> Some (Inr (TaskStopped r))
                | None \<Rightarrow> main_result (run_wait run) out err) in
          if run_responder_first run \<and> confirmation_error (run_confirm run) \<noteq> None then
            (sent, map_option Inl (confirmation_error (run_confirm run)))
          else
            (case result of
               None \<Rightarrow> (sent, None)
             | Some r \<Rightarrow>
                 (case StreamSender_close (run_close_closed run) stream of
                    Inl e \<Rightarrow> (sent, Some (Inl (streamer_error e)))
                  | Inr end_msg \<Rightarrow>
                      (sent @ [end_msg],
                       (case r of
                          Inl e \<Rightarrow> Some (Inl e)
                        | Inr r \<Rightarrow>
                            (case confirmation_error (run_confirm run) of
                               Some e \<Rightarrow> Some (Inl e)
                             | None \<Rightarrow>
                                 if run_confirm run = Confirmed then Some (Inr r) else None)))))))"

definition run_task ::
  "JobId \<Rightarrow> JobTaskId \<Rightarrow> InstanceId \<Rightarrow> nat \<Rightarrow> ProgramDefinition \<Rightarrow> 'tr TaskRun \<Rightarrow> Streamer \<Rightarrow>
   (Streamer \<times> FromStreamerMessage list \<times> (string + 'tr TaskResult) option) outcome" where
  "run_task jid task_id inst close_sender program run s =
     (case run_command run of
        Some e \<Rightarrow> Inr (s, [], Some (Inl e))
      | None \<Rightarrow>
          if pd_stdout program = Pipe \<or> pd_stderr program = Pipe then
            (case run_spawn run of
               Some e \<Rightarrow> Inr (s, [], Some (Inl e))
             | None \<Rightarrow>
                 try_bind (Streamer_get_stream jid task_id inst close_sender s) (\<lambda>(s, stream).
                   Inr (s, run_piped stream run)))
          else
            Inr (s, [], (case run_stop run of
               Some r \<Rightarrow> Some (Inr (TaskStopped r))
             | None \<Rightarrow>
                 map_option (\<lambda>w. case w of Inl e \<Rightarrow> Inl e | Inr status \<Rightarrow> status_to_result status)
                   (run_wait run))))"

section \<open>Configuration\<close>

datatype ManagerOpts = OptDetect | OptNone | OptPbs | OptSlurm

definition quoted :: "string \<Rightarrow> string" where
  "quoted s = [CHR 0x27] @ s @ [CHR 0x27]"

definition ManagerOpts_from_str :: "string \<Rightarrow> string + ManagerOpts" where
  "ManagerOpts_from_str s =
     (let l = ascii_lower s in
      if l = ''detect'' then Inr OptDetect
      else if l = ''none'' then Inr OptNone
      else if l = ''pbs'' then Inr OptPbs
      else if l = ''slurm'' then Inr OptSlurm
      else Inl (''Invalid manager value. Allowed values are '' @ quoted ''detect'' @ '', '' @ quoted ''none'' @
        '', '' @ quoted ''pbs'' @ '', '' @ quoted ''slurm''))"

datatype ManagerType = Pbs | Slurm

fun ManagerType_fmt :: "ManagerType \<Rightarrow> string" where
  "ManagerType_fmt Pbs = ''PBS''"
| "ManagerType_fmt Slurm = ''SLURM''"

text \<open>Durations are numbers of nanoseconds.\<close>

record ManagerInfo =
  mi_manager :: ManagerType
  mi_job_id :: string
  mi_time_limit :: nat

definition WORKER_EXTRA_MANAGER_KEY :: string where
  "WORKER_EXTRA_MANAGER_KEY = ''JobManager''"

definition get_manager_info :: "(string \<Rightarrow> ManagerInfo option) \<Rightarrow> WorkerConfiguration \<Rightarrow> ManagerInfo option" where
  "get_manager_info from_json conf =
     Option.bind (map_of (wc_extra conf) WORKER_EXTRA_MANAGER_KEY) from_json"

text \<open>
  The time that is left: the text of the two walltimes in the output of \<^verbatim>\<open>qstat\<close>, and
  their parser. The subtraction of durations panics when its result would be negative.
\<close>

definition get_time ::
  "(string \<Rightarrow> (string + nat) outcome) \<Rightarrow> string \<Rightarrow> string option \<Rightarrow> string option \<Rightarrow> (string + nat) outcome" where
  "get_time parse_duration job walltime_text used_text =
     (case walltime_text of
        None \<Rightarrow> Inr (Inl (''Could not find walltime key for job '' @ job))
      | Some w \<Rightarrow>
          try_bind (parse_duration w) (\<lambda>walltime.
          case walltime of
            Inl e \<Rightarrow> Inr (Inl e)
          | Inr walltime \<Rightarrow>
              (case used_text of
                 None \<Rightarrow> Inr (Inl (''Could not find used time key for job '' @ job))
               | Some u \<Rightarrow>
                   try_bind (parse_duration u) (\<lambda>used.
                   case used of
                     Inl e \<Rightarrow> Inr (Inl e)
                   | Inr used \<Rightarrow>
                       if used \<le> walltime then Inr (Inr (walltime - used)) else Inl Explicit_panic))))"

text \<open>
  The environment of the process is a map; \<open>timelimit\<close> asks the batch system for the time that is
  left.
\<close>

definition try_get_pbs_info ::
  "(string \<Rightarrow> string option) \<Rightarrow> (string \<Rightarrow> (string + nat) outcome) \<Rightarrow> (string + ManagerInfo) outcome" where
  "try_get_pbs_info vars timelimit =
     (case vars ''PBS_ENVIRONMENT'' of
        None \<Rightarrow> Inr (Inl ''PBS_ENVIRONMENT not found. The process is not running under PBS'')
      | Some _ \<Rightarrow>
          try_bind (unwrap (vars ''PBS_JOBID'')) (\<lambda>manager_job_id.
          try_bind (timelimit manager_job_id) (\<lambda>limit.
          case limit of
            Inl e \<Rightarrow> Inl Unwrap_none
          | Inr time_limit \<Rightarrow>
              Inr (Inr \<lparr>mi_manager = Pbs, mi_job_id = manager_job_id, mi_time_limit = time_limit\<rparr>))))"

definition try_get_slurm_info :: "(string \<Rightarrow> string option) \<Rightarrow> string + ManagerInfo" where
  "try_get_slurm_info vars =
     (case (case vars ''SLURM_JOB_ID'' of None \<Rightarrow> vars ''SLURM_JOBID'' | Some i \<Rightarrow> Some i) of
        None \<Rightarrow> Inl ''SLURM_JOB_ID/SLURM_JOBID not found. The process is not running under SLURM''
      | Some manager_job_id \<Rightarrow>
          Inr \<lparr>mi_manager = Slurm, mi_job_id = manager_job_id, mi_time_limit = 1000000000\<rparr>)"

definition gather_manager_info ::
  "(string \<Rightarrow> string option) \<Rightarrow> (string \<Rightarrow> (string + nat) outcome) \<Rightarrow> ManagerOpts \<Rightarrow>
   (string + ManagerInfo option) outcome" where
  "gather_manager_info vars timelimit opts =
     (case opts of
        OptDetect \<Rightarrow>
          try_bind (try_get_pbs_info vars timelimit) (\<lambda>r. Inr (Inr
            (case r of
               Inr i \<Rightarrow> Some i
             | Inl _ \<Rightarrow> (case try_get_slurm_info vars of Inr i \<Rightarrow> Some i | Inl _ \<Rightarrow> None))))
      | OptNone \<Rightarrow> Inr (Inr None)
      | OptPbs \<Rightarrow> try_bind (try_get_pbs_info vars timelimit) (\<lambda>r. Inr (map_sum id Some r))
      | OptSlurm \<Rightarrow> Inr (map_sum id Some (try_get_slurm_info vars)))"

record WorkerStartOpts =
  wo_cpus :: "string option"
  wo_heartbeat :: nat
  wo_idle_timeout :: "nat option"
  wo_manager :: ManagerOpts

text \<open>
  The parts outside: the host name, the parser of \<^verbatim>\<open>--cpus\<close>, the detection of
  resources, the temporary directory and the JSON text of a manager.
\<close>

definition gather_configuration ::
  "string option \<Rightarrow> (string \<Rightarrow> string + ResourceDescriptor) \<Rightarrow> (string + ResourceDescriptor) \<Rightarrow> path option \<Rightarrow>
   (ManagerInfo \<Rightarrow> string + string) \<Rightarrow> (string \<Rightarrow> string option) \<Rightarrow> (string \<Rightarrow> (string + nat) outcome) \<Rightarrow>
   WorkerStartOpts \<Rightarrow> (string + WorkerConfiguration) outcome" where
  "gather_configuration host parse_cpus detect tmp to_json vars timelimit opts =
     try_bind (unwrap host) (\<lambda>hostname.
     case (case wo_cpus opts of Some cs \<Rightarrow> parse_cpus cs | None \<Rightarrow> detect) of
       Inl e \<Rightarrow> Inr (Inl e)
     | Inr resources \<Rightarrow>
         try_bind (unwrap tmp) (\<lambda>tmpdir.
         try_bind (gather_manager_info vars timelimit (wo_manager opts)) (\<lambda>info.
         case info of
           Inl e \<Rightarrow> Inr (Inl e)
         | Inr info \<Rightarrow>
             Inr (case (case info of
                     None \<Rightarrow> Inr []
                   | Some i \<Rightarrow> map_sum id (\<lambda>j. fst (hm_insert WORKER_EXTRA_MANAGER_KEY j [])) (to_json i)) of
                Inl e \<Rightarrow> Inl e
              | Inr extra \<Rightarrow>
                  Inr \<lparr>wc_resources = resources, wc_listen_address = [], wc_hostname = hostname,
                       wc_work_dir = path_join tmpdir ''work'', wc_log_dir = path_join tmpdir ''logs'',
                       wc_heartbeat_interval = wo_heartbeat opts,
                       wc_idle_timeout = wo_idle_timeout opts, wc_extra = extra,
                       wc_hw_state_poll_interval = None\<rparr>))))"

section \<open>Detection of resources\<close>

text \<open>The closures behind the parsers of cpu lists, and the loop over the NUMA nodes.\<close>

definition p_cpu_range :: "u32 \<times> u32 option \<Rightarrow> u32 list" where
  "p_cpu_range = (\<lambda>(u, v). map of_nat [unat u ..< Suc (unat (case v of Some w \<Rightarrow> w | None \<Rightarrow> u))])"

definition p_cpu_ranges :: "(u32 \<times> u32 option) list \<Rightarrow> u32 list" where
  "p_cpu_ranges rs = concat (map p_cpu_range rs)"

fun read_nodes ::
  "(path \<Rightarrow> string option) \<Rightarrow> (string \<Rightarrow> (u32 \<times> u32 option) list option) \<Rightarrow> u32 list \<Rightarrow> u32 list list option" where
  "read_nodes fs parse [] = Some []"
| "read_nodes fs parse (numa_index # nodes) =
     Option.bind (fs (''/sys/devices/system/node/node'' @ show_u32 numa_index @ ''/cpulist'')) (\<lambda>text.
     Option.bind (parse text) (\<lambda>rs.
     Option.bind (read_nodes fs parse nodes) (\<lambda>cs. Some (p_cpu_ranges rs # cs))))"

definition read_linux_numa ::
  "(path \<Rightarrow> string option) \<Rightarrow> (string \<Rightarrow> (u32 \<times> u32 option) list option) \<Rightarrow> u32 list list option" where
  "read_linux_numa fs parse =
     Option.bind (fs ''/sys/devices/system/node/possible'') (\<lambda>text.
     Option.bind (parse text) (\<lambda>rs. read_nodes fs parse (p_cpu_ranges rs)))"

definition detect_resource ::
  "(path \<Rightarrow> string option) \<Rightarrow> (string \<Rightarrow> (u32 \<times> u32 option) list option) \<Rightarrow> u32 \<Rightarrow>
   (u32 \<Rightarrow> u32 \<Rightarrow> ResourceDescriptor) \<Rightarrow> string + ResourceDescriptor" where
  "detect_resource fs parse n_cpus new_with_socket_size =
     (case read_linux_numa fs parse of
        Some cs \<Rightarrow> Inr \<lparr>cpus = cs\<rparr>
      | None \<Rightarrow>
          if n_cpus < 1 then Inl ''Cpu detection failed'' else Inr (new_with_socket_size 1 n_cpus))"

definition p_cpu_definition ::
  "(u32 \<Rightarrow> u32 \<Rightarrow> ResourceDescriptor) \<Rightarrow> u32 \<times> u32 option \<Rightarrow> ResourceDescriptor" where
  "p_cpu_definition new_with_socket_size r =
     (case r of
        (c1, None) \<Rightarrow> new_with_socket_size 1 c1
      | (c1, Some c2) \<Rightarrow> new_with_socket_size c1 c2)"

section \<open>Placeholders are replaced at once\<close>

text \<open>
  Simultaneous substitution: at every place of the text the placeholder that starts there, if
  there is one, is replaced, and the replacement is not looked at again.
\<close>

definition find_placeholder :: "(string \<times> string) list \<Rightarrow> string \<Rightarrow> (string \<times> string) option" where
  "find_placeholder m s = List.find (\<lambda>(p, v). p \<noteq> [] \<and> prefix p s) m"

function subst :: "(string \<times> string) list \<Rightarrow> string \<Rightarrow> string" where
  "subst m [] = []"
| "subst m (c # s) =
     (case find_placeholder m (c # s) of
        Some (p, v) \<Rightarrow> v @ subst m (drop (length p - 1) s)
      | None \<Rightarrow> c # subst m s)"
  by pat_completeness auto
termination
  by (relation "measure (\<lambda>(m, s). length s)") auto

declare subst.simps(2) [simp del]

text \<open>
  A placeholder is a percent sign and text without one, and none is a part of another from the
  start. A replacement is not empty, has no percent sign, and does not start with a character of
  a placeholder.
\<close>

definition placeholder_ok :: "string \<Rightarrow> bool" where
  "placeholder_ok p \<longleftrightarrow> p \<noteq> [] \<and> hd p = CHR ''%'' \<and> CHR ''%'' \<notin> set (tl p)"

definition apart :: "string list \<Rightarrow> bool" where
  "apart ps \<longleftrightarrow> list_all placeholder_ok ps \<and> pairwise (\<lambda>p q. \<not> prefix p q) (set ps) \<and> distinct ps"

definition replacement_ok :: "string list \<Rightarrow> string \<Rightarrow> bool" where
  "replacement_ok ps v \<longleftrightarrow> v \<noteq> [] \<and> CHR ''%'' \<notin> set v \<and> list_all (\<lambda>p. hd v \<notin> set p) ps"

lemma placeholder_cases:
  assumes "placeholder_ok p"
  obtains q where "p = CHR ''%'' # q" "CHR ''%'' \<notin> set q"
  using assms by (cases p) (auto simp: placeholder_ok_def)

lemma find_placeholder_Some:
  assumes "find_placeholder m s = Some (p, v)"
  shows "(p, v) \<in> set m" "p \<noteq> []" "prefix p s"
  using find_Some_mem [of _ m "(p, v)"] assms by (auto simp: find_placeholder_def)

lemma find_placeholder_None:
  "find_placeholder m s = None \<longleftrightarrow> (\<forall>(p, v) \<in> set m. p = [] \<or> \<not> prefix p s)"
  by (auto simp: find_placeholder_def find_None_iff)

lemma no_placeholder_start:
  assumes "list_all placeholder_ok (map fst m)" "c \<noteq> CHR ''%''"
  shows "find_placeholder m (c # s) = None"
  unfolding find_placeholder_None
  using assms by (auto simp: list_all_iff placeholder_ok_def prefix_Cons)

lemma subst_skip:
  assumes "list_all placeholder_ok (map fst m)" "CHR ''%'' \<notin> set w"
  shows "subst m (w @ s) = w @ subst m s"
  using assms(2)
proof (induction w)
  case (Cons c w)
  then have "find_placeholder m (c # w @ s) = None"
    using no_placeholder_start [OF assms(1), of c "w @ s"] by auto
  with Cons show ?case by (simp add: subst.simps(2))
qed simp

lemma replace_all_skip:
  assumes "placeholder_ok p" "CHR ''%'' \<notin> set w"
  shows "replace_all p v (w @ s) = w @ replace_all p v s"
  using assms(2)
proof (induction w)
  case (Cons c w)
  then have "\<not> prefix p (c # w @ s)"
    using assms(1) by (auto simp: placeholder_ok_def prefix_Cons)
  with Cons show ?case by (simp add: replace_all.simps(2))
qed simp

text \<open>A text without percent signs that starts the result starts the original.\<close>

lemma prefix_subst:
  assumes "prefix q (subst m s)" "CHR ''%'' \<notin> set q"
    and "\<And>p v. (p, v) \<in> set m \<Longrightarrow> v \<noteq> [] \<and> hd v \<notin> set q"
  shows "prefix q s"
  using assms
proof (induction q arbitrary: s)
  case (Cons a q)
  show ?case
  proof (cases s)
    case Nil
    with Cons.prems(1) show ?thesis by simp
  next
    case (Cons c s')
    show ?thesis
    proof (cases "find_placeholder m (c # s')")
      case None
      then have "subst m s = c # subst m s'" using Cons by (simp add: subst.simps(2))
      with Cons.prems have "a = c" "prefix q (subst m s')" by simp_all
      moreover have "prefix q s'" using Cons.IH [OF calculation(2)] Cons.prems(2,3) by auto
      ultimately show ?thesis using Cons by simp
    next
      case (Some e)
      obtain p v where e: "e = (p, v)" by force
      have v: "v \<noteq> []" "hd v \<notin> set (a # q)"
        using Cons.prems(3) [OF find_placeholder_Some(1) [OF Some [unfolded e]]] by simp_all
      have "subst m s = v @ subst m (drop (length p - 1) s')"
        using Cons Some e by (simp add: subst.simps(2))
      with Cons.prems(1) v have "hd v = a" by (cases v) simp_all
      with v(2) show ?thesis by simp
    qed
  qed
qed simp

lemma apartD:
  assumes "apart (p # map fst m)"
  shows "placeholder_ok p" "list_all placeholder_ok (map fst m)"
    and "(q, w) \<in> set m \<Longrightarrow> \<not> prefix p q \<and> \<not> prefix q p"
  using assms by (auto simp: apart_def pairwise_def)

lemma prefix_drop: "prefix p (c # s) \<Longrightarrow> p = a # q \<Longrightarrow> c = a \<and> s = q @ drop (length p - 1) s"
  by (auto simp: prefix_def)

lemma replace_all_subst:
  assumes "apart (p # map fst m)" "\<And>q w. (q, w) \<in> set m \<Longrightarrow> replacement_ok [p] w"
  shows "replace_all p v (subst m s) = subst ((p, v) # m) s"
proof (induction "length s" arbitrary: s rule: less_induct)
  case less
  note ap = apartD [OF assms(1)]
  obtain p' where p': "p = CHR ''%'' # p'" "CHR ''%'' \<notin> set p'" using placeholder_cases [OF ap(1)] .
  show ?case
  proof (cases s)
    case Nil
    then show ?thesis by simp
  next
    case (Cons c s')
    show ?thesis
    proof (cases "find_placeholder m (c # s')")
      case (Some e)
      obtain q w where e: "e = (q, w)" by force
      note f = find_placeholder_Some [OF Some [unfolded e]]
      have "\<not> prefix p (c # s')" using ap(3) [OF f(1)] f(3) prefix_same_cases by blast
      then have "find_placeholder ((p, v) # m) (c # s') = Some (q, w)"
        using Some e by (simp add: find_placeholder_def)
      moreover have "CHR ''%'' \<notin> set w" using assms(2) [OF f(1)] by (simp add: replacement_ok_def)
      moreover have "replace_all p v (subst m (drop (length q - 1) s')) =
          subst ((p, v) # m) (drop (length q - 1) s')"
        by (rule less) (simp add: Cons)
      ultimately show ?thesis
        using Cons Some e replace_all_skip [OF ap(1)] by (simp add: subst.simps(2))
    next
      case None
      show ?thesis
      proof (cases "prefix p (c # s')")
        case True
        let ?r = "drop (length p - 1) s'"
        have s': "c = CHR ''%''" "s' = p' @ ?r" using prefix_drop [OF True p'(1)] by blast+
        have "subst m s' = p' @ subst m ?r"
          using subst_skip [OF ap(2) p'(2), of ?r] s'(2) by simp
        then have "subst m s = p @ subst m ?r" using Cons None s'(1) p'(1) by (simp add: subst.simps(2))
        then have "replace_all p v (subst m s) = v @ replace_all p v (subst m ?r)"
          using p'(1) by (simp add: replace_all.simps(2))
        also have "replace_all p v (subst m ?r) = subst ((p, v) # m) ?r"
          by (rule less) (simp add: Cons)
        finally show ?thesis using Cons True p'(1)
          by (simp add: subst.simps(2) find_placeholder_def)
      next
        case False
        then have n: "find_placeholder ((p, v) # m) (c # s') = None"
          using None by (simp add: find_placeholder_def)
        have "\<not> prefix p (c # subst m s')"
        proof
          assume "prefix p (c # subst m s')"
          then have "c = CHR ''%''" "prefix p' (subst m s')" using p'(1) by simp_all
          moreover have "prefix p' s'"
          proof (rule prefix_subst [OF calculation(2) p'(2)])
            fix q w assume "(q, w) \<in> set m"
            from assms(2) [OF this] show "w \<noteq> [] \<and> hd w \<notin> set p'"
              by (auto simp: replacement_ok_def p'(1))
          qed
          ultimately show False using False p'(1) by simp
        qed
        moreover have "replace_all p v (subst m s') = subst ((p, v) # m) s'" by (rule less) (simp add: Cons)
        ultimately show ?thesis using Cons None n by (simp add: subst.simps(2) replace_all.simps(2))
      qed
    qed
  qed
qed

text \<open>The substitution depends on the set of pairs only.\<close>

lemma find_unique:
  assumes "apart (map fst m)" "(p, v) \<in> set m" "prefix p s"
  shows "find_placeholder m s = Some (p, v)"
proof -
  have p: "p \<noteq> []" using assms(1,2) by (auto simp: apart_def list_all_iff placeholder_ok_def)
  then have "find_placeholder m s \<noteq> None" using assms(2,3) unfolding find_placeholder_None by blast
  then obtain q w where q: "find_placeholder m s = Some (q, w)" by (metis not_Some_eq prod.exhaust)
  note f = find_placeholder_Some [OF q]
  have "q = p"
  proof (rule ccontr)
    assume n: "q \<noteq> p"
    have m: "q \<in> set (map fst m)" "p \<in> set (map fst m)" using f(1) assms(2) by force+
    have pw: "pairwise (\<lambda>p q. \<not> prefix p q) (set (map fst m))" using assms(1) by (simp only: apart_def)
    have "\<not> prefix q p" "\<not> prefix p q"
      using pairwiseD [OF pw m(1) m(2) n] pairwiseD [OF pw m(2) m(1)] n by blast+
    with f(3) assms(3) show False using prefix_same_cases by blast
  qed
  moreover have "distinct (map fst m)" using assms(1) by (simp add: apart_def)
  ultimately have "w = v" using f(1) assms(2) by (metis eq_key_imp_eq_value)
  with q \<open>q = p\<close> show ?thesis by simp
qed

lemma find_placeholder_set:
  assumes "apart (map fst m)" "apart (map fst m')" "set m = set m'"
  shows "find_placeholder m s = find_placeholder m' s"
proof (cases "find_placeholder m s")
  case None
  then show ?thesis using assms(3) by (metis find_placeholder_None)
next
  case (Some e)
  obtain p v where e: "e = (p, v)" by force
  note f = find_placeholder_Some [OF Some [unfolded e]]
  show ?thesis using find_unique [OF assms(2), of p v s] f assms(3) Some e by simp
qed

lemma subst_set:
  assumes "apart (map fst m)" "apart (map fst m')" "set m = set m'"
  shows "subst m s = subst m' s"
proof (induction "length s" arbitrary: s rule: less_induct)
  case less
  show ?case
  proof (cases s)
    case (Cons c s')
    have "subst m s' = subst m' s'" "subst m (drop k s') = subst m' (drop k s')" for k
      by (rule less, simp add: Cons)+
    then show ?thesis
      using Cons find_placeholder_set [OF assms, of "c # s'"]
      by (simp add: subst.simps(2) split: option.splits prod.splits)
  qed simp
qed

definition visited_ok :: "(string \<times> string) list \<Rightarrow> bool" where
  "visited_ok m \<longleftrightarrow> apart (map fst m) \<and> list_all (\<lambda>(_, v). replacement_ok (map fst m) v) m"

lemma foldl_replace_all:
  assumes "visited_ok (rev xs @ m)"
  shows "foldl (\<lambda>s (p, v). replace_all p v s) (subst m s) xs = subst (rev xs @ m) s"
  using assms
proof (induction xs arbitrary: m)
  case (Cons e xs)
  obtain p v where e: "e = (p, v)" by force
  have "apart (map fst (rev xs @ (p, v) # m))" using Cons.prems e by (simp add: visited_ok_def)
  then have a: "apart (p # map fst m)" by (auto simp: apart_def pairwise_def)
  have r: "replacement_ok [p] w" if "(q, w) \<in> set m" for q w
    using Cons.prems that e by (auto simp: visited_ok_def replacement_ok_def list_all_iff)
  have "replace_all p v (subst m s) = subst ((p, v) # m) s" by (rule replace_all_subst [OF a]) (rule r)
  moreover have "visited_ok (rev xs @ (p, v) # m)" using Cons.prems e by simp
  ultimately show ?case using Cons.IH [of "(p, v) # m"] e by simp
qed simp

lemma subst_Nil [simp]: "subst [] s = s"
  by (induction s) (simp_all add: subst.simps(2) find_placeholder_def)

lemma visited_ok_perm:
  assumes "visited_ok m" "mset m' = mset m"
  shows "visited_ok m'"
proof -
  have "set m' = set m" using assms(2) by (metis set_mset_mset)
  moreover have "distinct (map fst m')"
    using assms mset_eq_imp_distinct_iff [of "map fst m'" "map fst m"]
    by (simp add: visited_ok_def apart_def)
  ultimately show ?thesis using assms(1)
    by (auto simp: visited_ok_def apart_def list_all_iff replacement_ok_def)
qed

text \<open>Whatever the order of the hash map, the result is the simultaneous substitution.\<close>

lemma replace_path_subst:
  assumes "visited_ok m" "mset (visit m) = mset m" "to_str p = Some s"
  shows "replace_path visit m p = Inr (subst m s)"
proof -
  have v: "visited_ok (rev (visit m))" using visited_ok_perm [OF assms(1)] assms(2) by simp
  have "foldl (\<lambda>s (p, v). replace_all p v s) s (visit m) = subst (rev (visit m)) s"
    using foldl_replace_all [of "visit m" "[]"] v by simp
  also have "\<dots> = subst m s"
    using v assms(1,2) by (intro subst_set) (auto simp: visited_ok_def dest: mset_eq_setD)
  finally show ?thesis using assms(3) by (simp add: replace_path_def)
qed

text \<open>What the libraries document: the filename is mapped where there is one; text is displayed as it is.\<close>

definition api_ok :: "'al TakoApi \<Rightarrow> bool" where
  "api_ok api \<longleftrightarrow>
     (\<forall>f p. map_filename api f (File p) = try_bind (f p) (\<lambda>q. Inr (File q))) \<and>
     (\<forall>f. map_filename api f Null = Inr Null \<and> map_filename api f Pipe = Inr Pipe) \<and>
     (\<forall>s. to_str s \<noteq> None \<longrightarrow> bstring_to_string api s = s)"

definition base_placeholders :: "string \<Rightarrow> string \<Rightarrow> string \<Rightarrow> string \<Rightarrow> string \<Rightarrow> (string \<times> string) list" where
  "base_placeholders job task inst dir date =
     [(''%{JOB_ID}'', job), (''%{TASK_ID}'', task), (''%{INSTANCE_ID}'', inst),
      (''%{SUBMIT_DIR}'', dir), (''%{DATE}'', date)]"

definition placeholder_names :: "string list" where
  "placeholder_names =
     [''%{JOB_ID}'', ''%{TASK_ID}'', ''%{INSTANCE_ID}'', ''%{SUBMIT_DIR}'', ''%{DATE}'', ''%{CWD}'']"

lemma placeholder_names_apart: "apart placeholder_names"
  by (auto simp: apart_def placeholder_names_def placeholder_ok_def pairwise_insert)

lemma placeholders_visited_ok:
  assumes "list_all (replacement_ok placeholder_names) [job, task, inst, dir, date, cwd]"
  shows "visited_ok (base_placeholders job task inst dir date @ [(''%{CWD}'', cwd)])"
proof -
  have "map fst (base_placeholders job task inst dir date @ [(''%{CWD}'', cwd)]) = placeholder_names"
    by (simp add: base_placeholders_def placeholder_names_def)
  with placeholder_names_apart assms show ?thesis
    by (simp add: visited_ok_def) (simp add: base_placeholders_def)
qed

fun subst_stdio :: "path \<Rightarrow> (string \<times> string) list \<Rightarrow> StdioDef \<Rightarrow> StdioDef" where
  "subst_stdio dir m (File p) = File (path_join dir (subst m p))"
| "subst_stdio dir m d = d"

fun stdio_text :: "StdioDef \<Rightarrow> bool" where
  "stdio_text (File p) = (to_str p \<noteq> None)"
| "stdio_text _ = True"

lemma to_str_id: "to_str p \<noteq> None \<Longrightarrow> to_str p = Some p"
  by (simp add: to_str_def split: if_splits)

lemma visited_ok_front:
  assumes "visited_ok (m @ n)"
  shows "visited_ok m"
proof -
  have "apart (map fst m)" using assms by (auto simp: visited_ok_def apart_def pairwise_def)
  moreover have "replacement_ok (map fst m) v" if "(q, v) \<in> set m" for q v
  proof -
    have "replacement_ok (map fst (m @ n)) v"
      using assms that unfolding visited_ok_def list_all_iff by force
    then show ?thesis by (simp add: replacement_ok_def)
  qed
  ultimately show ?thesis by (auto simp: visited_ok_def list_all_iff)
qed

lemma map_filename_subst:
  assumes "api_ok api" "stdio_text d"
    and "\<And>p. to_str p \<noteq> None \<Longrightarrow> f p = Inr (path_join dir (subst m p))"
  shows "map_filename api f d = Inr (subst_stdio dir m d)"
  using assms by (cases d) (auto simp: api_ok_def)


definition example_api :: "unit TakoApi" where
  "example_api =
     \<lparr>map_filename = (\<lambda>f d. case d of File p \<Rightarrow> try_bind (f p) (\<lambda>q. Inr (File q)) | _ \<Rightarrow> Inr d),
      pin_program = (\<lambda>p a. p), comma_delimited_cpu_ids = (\<lambda>a. ''0''),
      deserialize_body = (\<lambda>b. Inl ''none''), bstring_to_string = (\<lambda>s. s)\<rparr>"

definition example_task_program :: ProgramDefinition where
  "example_task_program =
     \<lparr>pd_args = [''run''],
      pd_env = [(HQ_SUBMIT_DIR, ''/home''), (HQ_JOB_ID, ''5''), (HQ_TASK_ID, ''1''), (HQ_INSTANCE_ID, ''0'')],
      pd_stdout = File ''%{CWD}.out'', pd_stderr = Null, pd_cwd = Some ''d%{JOB_ID}-%{TASK_ID}''\<rparr>"


section \<open>The stream of a task\<close>

text \<open>The pieces a program wrote until it closed its output, or until the queue was closed.\<close>

fun read_chunks :: "stdio_reads \<Rightarrow> bytes list" where
  "read_chunks ((Inr buffer, closed) # reads) =
     (if buffer = [] \<or> closed then [] else buffer # read_chunks reads)"
| "read_chunks _ = []"

definition stdio_chunks :: "stdio_reads option \<Rightarrow> bytes list" where
  "stdio_chunks stdio = (case stdio of Some reads \<Rightarrow> read_chunks reads | None \<Rightarrow> [])"

text \<open>A read fills at most the buffer.\<close>

definition reads_ok :: "stdio_reads option \<Rightarrow> bool" where
  "reads_ok stdio =
     (case stdio of
        Some reads \<Rightarrow> list_all (\<lambda>(r, _). case r of Inr b \<Rightarrow> length b \<le> STDIO_BUFFER_SIZE | _ \<Rightarrow> True) reads
      | None \<Rightarrow> True)"

abbreviation task_data :: "StreamSender \<Rightarrow> ChannelId \<Rightarrow> bytes list \<Rightarrow> FromStreamerMessage list" where
  "task_data stream ch ds \<equiv> map (Data (ss_task_id stream) (ss_instance_id stream) ch) ds"

lemma resend_loop_messages: "fst (resend_loop stream ch reads) = task_data stream ch (read_chunks reads)"
  by (induction stream ch reads rule: resend_loop.induct)
    (auto simp: send_data_def sender_send_def split: prod.splits)

lemma resend_stdio_messages: "fst (resend_stdio stream ch stdio) = task_data stream ch (stdio_chunks stdio)"
  by (simp add: resend_stdio_def stdio_chunks_def resend_loop_messages split: option.splits)

lemma read_chunks_fit:
  "list_all (\<lambda>(r, _). case r of Inr b \<Rightarrow> length b \<le> STDIO_BUFFER_SIZE | _ \<Rightarrow> True) reads \<Longrightarrow>
   d \<in> set (read_chunks reads) \<Longrightarrow> length d < 2 ^ 32"
  by (induction reads rule: read_chunks.induct) (auto simp: STDIO_BUFFER_SIZE_def split: if_splits)

lemma stdio_chunks_fit: "reads_ok stdio \<Longrightarrow> d \<in> set (stdio_chunks stdio) \<Longrightarrow> length d < 2 ^ 32"
  using read_chunks_fit by (auto simp: reads_ok_def stdio_chunks_def split: option.splits)

lemma stream_data_simps:
  "stream_data [] t i ch = []"
  "stream_data (Start t' i' # ms) t i ch = stream_data ms t i ch"
  "stream_data (Data t' i' ch' d # ms) t i ch =
     (if t' = t \<and> i' = i \<and> unat ch' = ch then d # stream_data ms t i ch else stream_data ms t i ch)"
  "stream_data (End t' i' # ms) t i ch = stream_data ms t i ch"
  "stream_data (ms @ ms') t i ch = stream_data ms t i ch @ stream_data ms' t i ch"
  by (simp_all add: stream_data_def)

lemma task_data_of_channel:
  "stream_data (map (Data t i c) ds) t i ch = (if unat c = ch then ds else [])"
  by (induction ds) (simp_all add: stream_data_simps)

lemma merge_stream_data:
  "stream_data (merge bs xs ys) t i ch = stream_data xs t i ch @ stream_data ys t i ch"
  if "stream_data xs t i ch = [] \<or> stream_data ys t i ch = []"
  using that
proof (induction bs xs ys rule: merge.induct)
  case (3 bs x xs y ys)
  then show ?case by (cases x; auto simp: stream_data_simps split: if_splits)
next
  case (4 bs x xs y ys)
  then show ?case by (cases y; auto simp: stream_data_simps split: if_splits)
next
  case (5 x xs y ys)
  then show ?case by (cases x; auto simp: stream_data_simps split: if_splits)
qed (simp_all add: stream_data_simps)

lemma merge_set: "set (merge bs xs ys) = set xs \<union> set ys"
  by (induction bs xs ys rule: merge.induct) auto

lemma phase_run_append:
  "phase_run p (ms @ ns) = (case phase_run p ms of Some p \<Rightarrow> phase_run p ns | None \<Rightarrow> None)"
  by (induction p ms rule: phase_run.induct) (simp_all split: option.splits)

lemma phase_run_data:
  "(\<And>m. m \<in> set ms \<Longrightarrow> next_phase Opened m = Some Opened) \<Longrightarrow> phase_run Opened ms = Some Opened"
  by (induction ms) auto

text \<open>
  The messages of a task: nothing where the queue is closed, or the start of the stream, the data of
  both channels in any order, and the end once the task has ended.
\<close>

definition task_log :: "StreamSender \<Rightarrow> 'tr TaskRun \<Rightarrow> FromStreamerMessage list" where
  "task_log stream run =
     Start (ss_task_id stream) (ss_instance_id stream) #
     merge (run_merge run) (task_data stream 0 (stdio_chunks (run_stdout run)))
       (task_data stream 1 (stdio_chunks (run_stderr run)))"

lemma run_piped_messages:
  "fst (run_piped stream run) \<in>
     {[], task_log stream run, task_log stream run @ [End (ss_task_id stream) (ss_instance_id stream)]}"
  using resend_stdio_messages [of stream 0 "run_stdout run"] resend_stdio_messages [of stream 1 "run_stderr run"]
  by (auto simp: run_piped_def task_log_def Let_def send_stream_start_def StreamSender_close_def
      sender_send_def split: prod.splits sum.splits option.splits)

lemma task_log_data:
  "stream_data (task_log stream run) (ss_task_id stream) (ss_instance_id stream) 0 = stdio_chunks (run_stdout run)"
  "stream_data (task_log stream run) (ss_task_id stream) (ss_instance_id stream) 1 = stdio_chunks (run_stderr run)"
  unfolding task_log_def by (simp_all add: stream_data_simps merge_stream_data task_data_of_channel)

lemma task_log_streams: "stream_of ` set (task_log stream run) = {(ss_task_id stream, ss_instance_id stream)}"
  unfolding task_log_def by (auto simp: merge_set)

lemma task_log_phase:
  assumes "reads_ok (run_stdout run)" "reads_ok (run_stderr run)"
  shows "phase_run Fresh (task_log stream run) = Some Opened"
  unfolding task_log_def using stdio_chunks_fit [OF assms(1)] stdio_chunks_fit [OF assms(2)]
  by (auto simp: merge_set intro!: phase_run_data)

end
