(* ===== verification/ClientOutput.thy ===== *)
theory ClientOutput
  imports Worker "HOL-Library.List_Lexorder" "HOL-Library.Char_ord" "HOL-Library.Log_Nat"
begin

text \<open>
  What the commands print: \<^verbatim>\<open>src/src/client/utils.rs\<close> (the progress bar),
  \<^verbatim>\<open>src/src/common/format.rs\<close>, \<^verbatim>\<open>src/src/client/resources.rs\<close>,
  \<^verbatim>\<open>src/src/client/status.rs\<close> (cells), \<^verbatim>\<open>src/src/client/job.rs\<close>,
  \<^verbatim>\<open>src/src/client/worker.rs\<close> and \<^verbatim>\<open>src/src/worker/output.rs\<close>. The calls
  of the table library are kept as terms; the texts that other libraries make of durations, dates,
  byte strings and resources are parameters in the record \<open>Formats\<close>. The lemmas show that the
  progress bar has its width whatever the counters are, that rounding never leaves a gap in the
  bar of a job without waiting tasks, and which failed tasks the detail of a job shows.
\<close>

section \<open>Text, cells and tables\<close>

datatype Piece = Plain string | Colored Color string

type_synonym Text = "Piece list"

datatype Cell = CellOf Text | Bold Cell | Foreground Color Cell | JustifyRight Cell

abbreviation cell :: "string \<Rightarrow> Cell" where
  "cell s \<equiv> CellOf [Plain s]"

datatype ColorChoice = Always | AlwaysAnsi | AutoColor | Never

record GlobalSettings =
  color_policy :: ColorChoice
  server_dir :: path

definition GlobalSettings_new :: "path \<Rightarrow> ColorChoice \<Rightarrow> GlobalSettings" where
  "GlobalSettings_new dir color = \<lparr>color_policy = color, server_dir = dir\<rparr>"

datatype Output =
    Table ColorChoice "Cell list option" "Cell list list"
  | Print Text
  | LogInfo string
  | LogWarn string
  | LogError string

text \<open>
  The libraries: whether the terminal takes the output, and the texts of paths, byte strings,
  durations, dates and resources. Durations and dates are numbers of nanoseconds.
\<close>

record 'rr Formats =
  stdout_ok :: bool
  path_display :: "path \<Rightarrow> string"
  bstr_display :: "bstring \<Rightarrow> string"
  format_duration :: "nat \<Rightarrow> string"
  num_hours :: "int \<Rightarrow> int"
  num_minutes :: "int \<Rightarrow> int"
  num_seconds :: "int \<Rightarrow> int"
  num_milliseconds :: "int \<Rightarrow> int"
  date_seconds :: "date \<Rightarrow> string"
  resource_summary :: "ResourceDescriptor \<Rightarrow> string"
  resource_describe :: "ResourceDescriptor \<Rightarrow> string"
  manager_from_json :: "string \<Rightarrow> ManagerInfo option"

text \<open>\<^verbatim>\<open>assert!(print_stdout(table).is_ok())\<close>.\<close>

definition print_table ::
  "'rr Formats \<Rightarrow> GlobalSettings \<Rightarrow> Cell list option \<Rightarrow> Cell list list \<Rightarrow> Output outcome" where
  "print_table fmt gs title rows =
     (if stdout_ok fmt then Inr (Table (color_policy gs) title rows) else Inl Assert_failed)"

definition newline :: string where
  "newline = [CHR 0x0A]"

fun join :: "string \<Rightarrow> string list \<Rightarrow> string" where
  "join sep [] = []"
| "join sep [s] = s"
| "join sep (s # ss) = s @ sep @ join sep ss"

section \<open>Floating point numbers\<close>

text \<open>
  The results of \<^verbatim>\<open>f64\<close> operations on numbers of this size: the exact result is rounded
  to 53 binary digits, to the nearest number, ties to even.
\<close>

definition round_even :: "rat \<Rightarrow> int" where
  "round_even x =
     (let f = \<lfloor>x\<rfloor>; r = x - of_int f in
      if r < 1 / 2 then f else if r > 1 / 2 then f + 1 else if even f then f else f + 1)"

definition binary_exponent :: "rat \<Rightarrow> int" where
  "binary_exponent x =
     (let (n, d) = quotient_of x;
          e = int (floorlog 2 (nat n)) - int (floorlog 2 (nat d)) in
      if 2 powi e \<le> x then e else e - 1)"

definition f64 :: "rat \<Rightarrow> rat" where
  "f64 x =
     (if x = 0 then 0
      else let s = 2 powi (52 - binary_exponent x) in of_int (round_even (x * s)) / s)"

section \<open>The progress bar\<close>

definition TASK_COLOR_CANCELED :: Color where "TASK_COLOR_CANCELED = Magenta"
definition TASK_COLOR_FAILED :: Color where "TASK_COLOR_FAILED = Red"
definition TASK_COLOR_FINISHED :: Color where "TASK_COLOR_FINISHED = Green"
definition TASK_COLOR_RUNNING :: Color where "TASK_COLOR_RUNNING = Yellow"

text \<open>
  The closure \<^verbatim>\<open>chars\<close>. Division by zero gives no number or infinity; the
  conversion to \<^verbatim>\<open>usize\<close> makes zero of the first and the largest number of the second.
\<close>

definition bar_chars :: "JobTaskCount \<Rightarrow> nat \<Rightarrow> JobTaskCount \<Rightarrow> nat" where
  "bar_chars n_all width cnt =
     (if n_all = 0 then (if cnt = 0 \<or> width = 0 then 0 else 2 ^ 64 - 1)
      else
        let ratio = f64 (of_nat (unat cnt) / of_nat (unat n_all))
        in min (nat \<lceil>f64 (ratio * f64 (of_nat width))\<rceil>) (2 ^ 64 - 1))"

fun bar_parts :: "JobTaskCount \<Rightarrow> nat \<Rightarrow> nat \<Rightarrow> (JobTaskCount \<times> Color) list \<Rightarrow> Text \<times> nat" where
  "bar_parts n_all width total_chars [] = ([], total_chars)"
| "bar_parts n_all width total_chars ((cnt, color) # parts) =
     (let char_count = min (width - total_chars) (bar_chars n_all width cnt) in
      case bar_parts n_all width (total_chars + char_count) parts of
        (text, t) \<Rightarrow> (Colored color (replicate char_count CHR ''#'') # text, t))"

definition job_progress_bar :: "JobTaskCounters \<Rightarrow> JobTaskCount \<Rightarrow> nat \<Rightarrow> Text" where
  "job_progress_bar counters n_all width =
     (case bar_parts n_all width 0
        [(n_canceled_tasks counters, TASK_COLOR_CANCELED), (n_failed_tasks counters, TASK_COLOR_FAILED),
         (n_finished_tasks counters, TASK_COLOR_FINISHED), (n_running_tasks counters, TASK_COLOR_RUNNING)] of
        (text, total_chars) \<Rightarrow>
          [Plain ''[''] @ text @ [Plain (replicate (width - total_chars) CHR ''.''), Plain '']''])"

section \<open>Durations, sizes and resources\<close>

definition human_duration :: "'rr Formats \<Rightarrow> int \<Rightarrow> string" where
  "human_duration fmt duration =
     (let d = (if num_hours fmt duration > 0 then num_minutes fmt duration * 60000000000
               else if num_minutes fmt duration > 0 then num_seconds fmt duration * 1000000000
               else num_milliseconds fmt duration * 1000000) in
      if d < 0 then ''Invalid duration'' else format_duration fmt (nat d))"

definition human_size :: "u64 \<Rightarrow> string" where
  "human_size n =
     (if n < 2048 then show_nat (unat n) @ '' B''
      else if n < 2 * 1024 * 1024 then show_nat (unat (n div 1024)) @ '' KiB''
      else if n < 2 * 1024 * 1024 * 1024 then show_nat (unat (n div (1024 * 1024))) @ '' MiB''
      else show_nat (unat (n div (1024 * 1024 * 1024))) @ '' GiB'')"

text \<open>
  The request for processors, and the closures of its parser: nothing for \<^verbatim>\<open>all\<close>, or
  the number and the policy.
\<close>

datatype CpuRequest = Compact u32 | ForceCompact u32 | Scatter u32 | AllCpus

definition p_cpu_request :: "(u32 \<times> string option) option \<Rightarrow> (string + CpuRequest) outcome" where
  "p_cpu_request parsed =
     (case parsed of
        None \<Rightarrow> Inr (Inr AllCpus)
      | Some (cnt, policy) \<Rightarrow>
          if cnt = 0 then Inr (Inl ''Requesting zero cpus is not allowed'')
          else if policy = None \<or> policy = Some ''compact'' then Inr (Inr (Compact cnt))
          else if policy = Some ''compact!'' then Inr (Inr (ForceCompact cnt))
          else if policy = Some ''scatter'' then Inr (Inr (Scatter cnt))
          else Inl Unreachable)"

fun cpu_request_to_string :: "CpuRequest \<Rightarrow> string" where
  "cpu_request_to_string (Compact n_cpus) = show_u32 n_cpus @ '' compact''"
| "cpu_request_to_string (ForceCompact n_cpus) = show_u32 n_cpus @ '' compact!''"
| "cpu_request_to_string (Scatter n_cpus) = show_u32 n_cpus @ '' scatter''"
| "cpu_request_to_string AllCpus = ''all''"

section \<open>Lists and details of jobs\<close>

fun status_cell :: "Status \<Rightarrow> Cell" where
  "status_cell StWaiting = Foreground Cyan (cell ''WAITING'')"
| "status_cell StFinished = Foreground Green (cell ''FINISHED'')"
| "status_cell StFailed = Foreground Red (cell ''FAILED'')"
| "status_cell StRunning = Foreground Yellow (cell ''RUNNING'')"
| "status_cell StCanceled = Foreground Magenta (cell ''CANCELED'')"

type_synonym WorkerMap = "(WorkerId, string) hmap"

definition status_row :: "string \<Rightarrow> JobTaskCount \<Rightarrow> Color \<Rightarrow> Text" where
  "status_row name value color =
     (if value > 0 then [Colored color (name @ '' ('' @ show_u32 value @ '')''), Plain newline] else [])"

definition job_status_with_counts_cells :: "'rr JobInfo \<Rightarrow> Text" where
  "job_status_with_counts_cells info =
     (let c = ji_counters info in
      job_progress_bar c (ji_n_tasks info) 40 @ [Plain newline] @
      status_row ''RUNNING'' (n_running_tasks c) Yellow @
      status_row ''FAILED'' (n_failed_tasks c) Red @
      status_row ''FINISHED'' (n_finished_tasks c) Green @
      status_row ''CANCELED'' (n_canceled_tasks c) Magenta @
      status_row ''WAITING'' (n_waiting_tasks c (ji_n_tasks info)) Cyan)"

definition job_list_row :: "'rr JobInfo \<Rightarrow> Cell list outcome" where
  "job_list_row t =
     try_bind (job_status t) (\<lambda>status.
       Inr [JustifyRight (cell (show_u32 (ji_id t))), cell (ji_name t), status_cell status,
            cell (show_u32 (ji_n_tasks t))])"

definition print_job_list :: "'rr Formats \<Rightarrow> GlobalSettings \<Rightarrow> 'rr JobInfo list \<Rightarrow> Output outcome" where
  "print_job_list fmt gs tasks =
     try_bind (traverse job_list_row tasks) (\<lambda>rows.
       print_table fmt gs (Some (map (\<lambda>t. Bold (cell t)) [''Id'', ''Name'', ''State'', ''Tasks''])) rows)"

fun stdio_to_cell :: "'rr Formats \<Rightarrow> StdioDef \<Rightarrow> Cell" where
  "stdio_to_cell fmt Null = cell ''<None>''"
| "stdio_to_cell fmt (File filename) = cell (path_display fmt filename)"
| "stdio_to_cell fmt Pipe = cell ''<Stream>''"

definition format_worker :: "WorkerId \<Rightarrow> WorkerMap \<Rightarrow> string" where
  "format_worker i worker_map = (case map_of worker_map i of Some s \<Rightarrow> s | None \<Rightarrow> ''N/A'')"

definition MAX_DISPLAYED_WORKERS :: nat where
  "MAX_DISPLAYED_WORKERS = 2"

text \<open>The ordered set of the workers; the dots are the three bytes of an ellipsis.\<close>

definition format_job_workers :: "'rr JobDetail \<Rightarrow> WorkerMap \<Rightarrow> string" where
  "format_job_workers job worker_map =
     (let worker_set = sort (remdups (List.map_filter (\<lambda>t. get_worker_of_state (info_state t)) (jd_tasks job)));
          worker_count = length worker_set;
          result = join '', '' (map (\<lambda>i. format_worker i worker_map) (take MAX_DISPLAYED_WORKERS worker_set)) in
      if worker_count > MAX_DISPLAYED_WORKERS
      then result @ '', '' @ [CHR 0xE2, CHR 0x80, CHR 0xA6] @ '' ('' @ show_nat worker_count @ '' total)''
      else result)"

definition format_task_duration :: "'rr Formats \<Rightarrow> date \<Rightarrow> JobTaskState \<Rightarrow> string" where
  "format_task_duration fmt completion_date_or_now state =
     (case state of
        Canceled \<Rightarrow> []
      | Waiting \<Rightarrow> []
      | Running _ start_date \<Rightarrow> human_duration fmt (completion_date_or_now - start_date)
      | Finished _ start_date end_date \<Rightarrow> human_duration fmt (end_date - start_date)
      | Failed _ start_date end_date _ \<Rightarrow> human_duration fmt (end_date - start_date))"

definition make_error_row :: "WorkerMap \<Rightarrow> JobTaskInfo \<Rightarrow> Cell list option" where
  "make_error_row worker_map t =
     (case info_state t of
        Failed worker _ _ error \<Rightarrow>
          Some [cell (show_u32 (info_task_id t)), cell (format_worker worker worker_map),
                Foreground Red (cell error)]
      | _ \<Rightarrow> None)"

definition task_row :: "'rr Formats \<Rightarrow> date \<Rightarrow> WorkerMap \<Rightarrow> JobTaskInfo \<Rightarrow> Cell list" where
  "task_row fmt completion_date_or_now worker_map t =
     [cell (show_u32 (info_task_id t)), status_cell (task_status (info_state t)),
      cell (case get_worker_of_state (info_state t) of
              Some worker \<Rightarrow> format_worker worker worker_map | None \<Rightarrow> []),
      cell (format_task_duration fmt completion_date_or_now (info_state t)),
      (case info_state t of Failed _ _ _ error \<Rightarrow> Foreground Red (cell error) | _ \<Rightarrow> cell [])]"

definition SHOWN_TASKS :: nat where
  "SHOWN_TASKS = 5"

definition print_job_tasks ::
  "'rr Formats \<Rightarrow> GlobalSettings \<Rightarrow> date \<Rightarrow> JobTaskInfo list \<Rightarrow> bool \<Rightarrow> JobTaskCounters \<Rightarrow> WorkerMap \<Rightarrow>
   Output list outcome" where
  "print_job_tasks fmt gs completion_date_or_now tasks show_tasks counters worker_map =
     (let tasks = sort_key info_task_id tasks in
      if show_tasks then
        try_bind (print_table fmt gs
            (Some (map (\<lambda>t. Bold (cell t)) [''Task Id'', ''State'', ''Worker'', ''Time'', ''Message'']))
            (map (task_row fmt completion_date_or_now worker_map) tasks)) (\<lambda>o1. Inr [o1])
      else
        let fail_rows = take SHOWN_TASKS (List.map_filter (make_error_row worker_map) tasks) in
        if fail_rows = [] then Inr []
        else
          try_bind (print_table fmt gs (Some (map (\<lambda>t. Bold (cell t)) [''Task Id'', ''Worker'', ''Error'']))
              fail_rows) (\<lambda>o1.
            let cnt = of_nat (length fail_rows) :: JobTaskCount; failed = show_u32 (n_failed_tasks counters) in
            Inr [o1, Print [Plain
              (if cnt < n_failed_tasks counters
               then failed @ '' tasks failed. ('' @ show_u32 cnt @ '' shown)'' @ newline
               else failed @ '' tasks failed.'' @ newline)]]))"

text \<open>The rows of a job; \<open>cpus_of\<close> is the request for processors in its resources.\<close>

definition job_detail_status :: "'rr JobInfo \<Rightarrow> bool \<Rightarrow> Cell outcome" where
  "job_detail_status info just_submitted =
     (if just_submitted then Inr (Foreground Cyan (cell ''SUBMITTED''))
      else if ji_n_tasks info = 1 then try_bind (job_status info) (\<lambda>s. Inr (status_cell s))
      else Inr (CellOf (job_status_with_counts_cells info)))"

definition job_detail_tasks :: "'rr JobDetail \<Rightarrow> string outcome" where
  "job_detail_tasks job =
     (let n = show_u32 (ji_n_tasks (jd_info job)) in
      case jd_job_type job of
        Simple \<Rightarrow> Inr n
      | Array array_def \<Rightarrow> try_bind (IntArray_fmt array_def) (\<lambda>a. Inr (n @ ''; Ids: '' @ a)))"

definition env_rows :: "'rr Formats \<Rightarrow> (bstring, bstring) hmap \<Rightarrow> string" where
  "env_rows fmt env =
     join newline (map (\<lambda>(k, v). bstr_display fmt k @ ''='' @ bstr_display fmt v)
       (sort_key fst (filter (\<lambda>(k, _). \<not> is_hq_env k) env)))"

definition print_job_detail ::
  "'rr Formats \<Rightarrow> ('rr \<Rightarrow> CpuRequest) \<Rightarrow> GlobalSettings \<Rightarrow> 'rr JobDetail \<Rightarrow> bool \<Rightarrow> bool \<Rightarrow> WorkerMap \<Rightarrow>
   Output list outcome" where
  "print_job_detail fmt cpus_of gs job just_submitted show_tasks worker_map =
     (let info = jd_info job; program_def = jd_program_def job; row = (\<lambda>name c. [Bold (cell name), c]);
          resources = cpu_request_to_string (cpus_of (jd_resources job)) in
      try_bind (job_detail_status info just_submitted) (\<lambda>status.
      try_bind (job_detail_tasks job) (\<lambda>tasks_text.
      try_bind (unwrap (pd_cwd program_def)) (\<lambda>cwd.
      try_bind (print_table fmt gs None
        [row ''Id'' (cell (show_u32 (ji_id info))),
         row ''Name'' (cell (ji_name info)),
         row ''State'' status,
         row ''Tasks'' (cell tasks_text),
         row ''Workers'' (cell (format_job_workers job worker_map)),
         row ''Resources'' (cell (if jd_pin job then resources @ '' [pin]'' else resources)),
         row ''Priority'' (cell (show_int (jd_priority job))),
         row ''Command'' (cell (join newline (map (bstr_display fmt) (pd_args program_def)))),
         row ''Stdout'' (stdio_to_cell fmt (pd_stdout program_def)),
         row ''Stderr'' (stdio_to_cell fmt (pd_stderr program_def)),
         row ''Environment'' (cell (env_rows fmt (pd_env program_def))),
         row ''Working Dir'' (cell (path_display fmt cwd)),
         row ''Submission date'' (cell (date_seconds fmt (jd_submission_date job))),
         row ''Task time limit'' (cell (case jd_time_limit job of
            Some duration \<Rightarrow> format_duration fmt duration | None \<Rightarrow> ''None'')),
         row ''Makespan'' (cell (human_duration fmt
            (jd_completion_date_or_now job - jd_submission_date job)))]) (\<lambda>o1.
      if jd_tasks job = [] then Inr [o1]
      else
        try_bind (print_job_tasks fmt gs (jd_completion_date_or_now job) (jd_tasks job) show_tasks
            (ji_counters info) worker_map) (\<lambda>os. Inr (o1 # os)))))))"

section \<open>Workers and statistics\<close>

definition worker_state_cell :: "WorkerInfo \<Rightarrow> Cell" where
  "worker_state_cell worker =
     (case wi_ended worker of
        None \<Rightarrow> Foreground Green (cell ''RUNNING'')
      | Some ended \<Rightarrow>
          (case reason ended of
             InfoConnectionLost \<Rightarrow> Foreground Red (cell ''CONNECTION LOST'')
           | InfoHeartbeatLost \<Rightarrow> Foreground Red (cell ''HEARTBEAT LOST'')
           | InfoIdleTimeout \<Rightarrow> Foreground Cyan (cell ''IDLE TIMEOUT'')
           | InfoStopped \<Rightarrow> Foreground Magenta (cell ''STOPPED'')))"

definition manager_text :: "ManagerInfo option \<Rightarrow> string" where
  "manager_text info = (case info of Some i \<Rightarrow> ManagerType_fmt (mi_manager i) | None \<Rightarrow> ''None'')"

definition manager_job_text :: "ManagerInfo option \<Rightarrow> string" where
  "manager_job_text info = (case info of Some i \<Rightarrow> mi_job_id i | None \<Rightarrow> ''N/A'')"

definition print_worker_info :: "'rr Formats \<Rightarrow> WorkerInfo list \<Rightarrow> GlobalSettings \<Rightarrow> Output outcome" where
  "print_worker_info fmt ws gs =
     print_table fmt gs
       (Some (cell ''Id'' # map (\<lambda>t. Bold (cell t))
          [''State'', ''Hostname'', ''Resources'', ''Manager'', ''Manager Job Id'']))
       (map (\<lambda>w.
          let conf = wi_configuration w; manager_info = get_manager_info (manager_from_json fmt) conf in
          [JustifyRight (cell (show_u32 (wi_id w))), worker_state_cell w, cell (wc_hostname conf),
           cell (resource_summary fmt (wc_resources conf)), cell (manager_text manager_info),
           cell (manager_job_text manager_info)]) ws)"

definition print_worker_configuration ::
  "'rr Formats \<Rightarrow> GlobalSettings \<Rightarrow> WorkerId \<Rightarrow> WorkerConfiguration \<Rightarrow> Output outcome" where
  "print_worker_configuration fmt gs w conf =
     (let manager_info = get_manager_info (manager_from_json fmt) conf; row = (\<lambda>name c. [Bold (cell name), cell c]) in
      print_table fmt gs None
        [row ''Worker ID'' (show_u32 w),
         row ''Hostname'' (wc_hostname conf),
         row ''Data provider'' (wc_listen_address conf),
         row ''Working directory'' (path_display fmt (wc_work_dir conf)),
         row ''Logging directory'' (path_display fmt (wc_log_dir conf)),
         row ''Heartbeat'' (format_duration fmt (wc_heartbeat_interval conf)),
         row ''Idle timeout'' (case wc_idle_timeout conf of Some x \<Rightarrow> format_duration fmt x | None \<Rightarrow> ''None''),
         row ''Resources'' (resource_summary fmt (wc_resources conf)),
         row ''Manager'' (manager_text manager_info),
         row ''Manager Job Id'' (manager_job_text manager_info)])"

definition print_resource_descriptor :: "'rr Formats \<Rightarrow> ResourceDescriptor \<Rightarrow> Output list" where
  "print_resource_descriptor fmt d =
     [Print [Plain (''Summary: '' @ resource_summary fmt d @ newline)],
      Print [Plain (''Cpu Ids: '' @ resource_describe fmt d @ newline)]]"

definition stats_table :: "'rr Formats \<Rightarrow> GlobalSettings \<Rightarrow> StreamStats \<Rightarrow> Output outcome" where
  "stats_table fmt gs stats =
     print_table fmt gs None
       [[Bold (cell ''Stream connections''), cell (join newline (ss_connections stats))],
        [Bold (cell ''Stream registrations''), cell (join newline
           (map (\<lambda>(job, path). show_u32 job @ '': '' @ path_display fmt path) (ss_registrations stats)))],
        [Bold (cell ''Open files''), cell (join newline (ss_files stats))]]"

section \<open>The width of the progress bar\<close>

lemma round_even_error: "\<bar>of_int (round_even x) - x\<bar> \<le> 1 / 2"
proof -
  have "of_int \<lfloor>x\<rfloor> \<le> x" "x < of_int \<lfloor>x\<rfloor> + 1" by linarith+
  then show ?thesis by (auto simp: round_even_def Let_def abs_le_iff)
qed

lemma binary_exponent_le:
  assumes "x > 0"
  shows "2 powi binary_exponent x \<le> x"
proof -
  obtain n d where q: "quotient_of x = (n, d)" by force
  note x = quotient_of_div [OF q]
  have d: "d > 0" using quotient_of_denom_pos [OF q] .
  have n: "n > 0" using assms d unfolding x by (simp add: zero_less_divide_iff)
  let ?a = "floorlog 2 (nat n)" and ?b = "floorlog 2 (nat d)"
  have a: "2 ^ (?a - 1) \<le> nat n" "?a > 0" and b: "nat d < 2 ^ ?b"
    using floorlog_bounds [of "nat n" 2] floorlog_bounds [of "nat d" 2] n d
    by (simp_all add: floorlog_eq_zero_iff neq0_conv [symmetric])
  have "2 powi (int ?a - int ?b - 1) \<le> x"
  proof -
    have "int ?a - int ?b - 1 = int (?a - 1) - int ?b" using a(2) by linarith
    then have "(2 :: rat) powi (int ?a - int ?b - 1) = 2 powi int (?a - 1) / 2 powi int ?b"
      by (simp only: power_int_diff [of "2 :: rat", simplified])
    also have "\<dots> = 2 ^ (?a - 1) / 2 ^ ?b" by (simp only: power_int_of_nat)
    also have "\<dots> \<le> of_int n / of_int d"
    proof (rule frac_le)
      have "(2 :: int) ^ (?a - 1) \<le> n" using a(1) n by (simp add: le_nat_iff)
      then have "(of_int (2 ^ (?a - 1)) :: rat) \<le> of_int n" by (simp only: of_int_le_iff)
      then show "(2 :: rat) ^ (?a - 1) \<le> of_int n" by simp
      have "d \<le> 2 ^ ?b" using b d by (simp add: nat_less_iff)
      then have "(of_int d :: rat) \<le> of_int (2 ^ ?b)" by (simp only: of_int_le_iff)
      then show "of_int d \<le> (2 :: rat) ^ ?b" by simp
    qed (use n d in auto)
    finally show ?thesis unfolding x .
  qed
  then show ?thesis by (simp add: binary_exponent_def q Let_def)
qed

lemma f64_error:
  assumes "x > 0"
  shows "\<bar>f64 x - x\<bar> \<le> x / 2 ^ 53"
proof -
  define e where "e = binary_exponent x"
  define s where "s = (2 powi (52 - e) :: rat)"
  have s: "s > 0" unfolding s_def by (rule zero_less_power_int) simp
  have "f64 x = of_int (round_even (x * s)) / s"
    using assms by (simp only: f64_def Let_def s_def e_def) simp
  then have "f64 x - x = (of_int (round_even (x * s)) - x * s) / s"
    using s by (simp add: diff_divide_distrib)
  then have "\<bar>f64 x - x\<bar> = \<bar>of_int (round_even (x * s)) - x * s\<bar> / s"
    using s by (simp only: abs_divide abs_of_pos)
  also have "\<dots> \<le> (1 / 2) / s" using round_even_error s by (intro divide_right_mono) auto
  also have "(1 / 2) / s = 2 powi e / 2 ^ 53"
    unfolding s_def by (subst power_int_diff) simp_all
  also have "\<dots> \<le> x / 2 ^ 53"
    using binary_exponent_le [OF assms] unfolding e_def by (rule divide_right_mono) simp
  finally show ?thesis .
qed

lemma f64_nat:
  assumes "0 < w" "w \<le> 2 ^ 52"
  shows "f64 (of_nat w) = of_nat w"
proof -
  define e where "e = binary_exponent (of_nat w)"
  have "(2 :: rat) powi e \<le> of_nat w" unfolding e_def using assms by (intro binary_exponent_le) simp
  also have "(of_nat w :: rat) \<le> of_nat (2 ^ 52)" using assms(2) by (simp only: of_nat_le_iff)
  also have "(of_nat (2 ^ 52) :: rat) = 2 powi 52" by simp
  finally have "\<not> (2 :: rat) powi 52 < 2 powi e" by (simp only: not_less)
  moreover have "(2 :: rat) powi 52 < 2 powi e" if "52 < e"
    using that by (intro power_int_strict_increasing) simp_all
  ultimately have e: "e \<le> 52" using linorder_not_le by blast
  have s: "(2 :: rat) powi (52 - e) = of_int (2 ^ nat (52 - e))"
    using e by (simp add: power_int_def)
  have "round_even (of_int z) = z" for z by (simp add: round_even_def)
  then have "round_even (of_int (int w * 2 ^ nat (52 - e))) = int w * 2 ^ nat (52 - e)" .
  then have "round_even (of_nat w * of_int (2 ^ nat (52 - e))) = int w * 2 ^ nat (52 - e)"
    by (simp only: of_int_mult of_int_of_nat_eq)
  then show ?thesis
    using assms(1) by (simp add: f64_def Let_def e_def [symmetric] s)
qed

lemma f64_product_ge:
  fixes x w :: rat
  assumes "0 < x" "0 < w" 
  shows "f64 (f64 x * w) \<ge> w * x - (w * x) / 2 ^ 52"
proof -
  define d where "d = (1 / 2 ^ 53 :: rat)"
  have d: "0 < d" "d < 1" "2 * d = 1 / 2 ^ 52" by (simp_all add: d_def)
  have f: "q * (1 - d) \<le> f64 q" if "q > 0" for q
  proof -
    have "\<bar>f64 q - q\<bar> \<le> q * d"
      using f64_error [OF that] by (simp only: d_def times_divide_eq_right mult_1_right)
    then show ?thesis unfolding right_diff_distrib by linarith
  qed
  have r: "x * (1 - d) \<le> f64 x" by (rule f [OF assms(1)])
  have r0: "0 < x * (1 - d)" using assms(1) d by simp
  have "x * (1 - d) * w * (1 - d) \<le> f64 x * w * (1 - d)"
    using r assms d by (intro mult_right_mono) simp_all
  also have "\<dots> \<le> f64 (f64 x * w)" using r r0 assms(2) by (intro f mult_pos_pos) simp_all
  finally have "x * (1 - d) * w * (1 - d) \<le> f64 (f64 x * w)" .
  moreover have "x * (1 - d) * w * (1 - d) = w * x - w * x * (2 * d) + w * x * d * d"
    by (simp add: algebra_simps)
  moreover have "0 \<le> w * x * d * d" using assms d by simp
  ultimately show ?thesis unfolding d(3) by simp
qed

lemma ceiling_div_gap:
  fixes a n :: nat
  assumes "0 < n"
  shows "(of_int \<lceil>of_nat a / of_nat n :: rat\<rceil> :: rat) - 1 + 1 / of_nat n \<le> of_nat a / of_nat n"
proof -
  define k where "k = \<lceil>of_nat a / of_nat n :: rat\<rceil>"
  have "of_int k - 1 < (of_nat a / of_nat n :: rat)" unfolding k_def by linarith
  then have "of_int ((k - 1) * int n) < (of_int (int a) :: rat)"
    using assms by (simp add: pos_less_divide_eq)
  then have "(k - 1) * int n + 1 \<le> int a" by (simp only: of_int_less_iff zless_imp_add1_zle)
  then have "(of_int ((k - 1) * int n + 1) :: rat) \<le> of_int (int a)" by (simp only: of_int_le_iff)
  then have "((of_int k - 1) * of_nat n + 1) / of_nat n \<le> (of_nat a / of_nat n :: rat)"
    by (intro divide_right_mono) simp_all
  then show ?thesis using assms by (simp add: k_def add_divide_distrib)
qed

text \<open>The rounding errors are too small to lose a character.\<close>

lemma bar_chars_ge:
  assumes "n \<noteq> 0" "c \<le> n" "0 < w" "w \<le> 2 ^ 10"
  shows "\<lceil>of_nat (w * unat c) / of_nat (unat n) :: rat\<rceil> \<le> int (bar_chars n w c)"
proof (cases "c = 0")
  case False
  define N C W where "N = unat n" and "C = unat c" and "W = (of_nat w :: rat)"
  have n: "0 < N" "N < 2 ^ 32" "0 < C" "C \<le> N"
    using assms(1,2) False unsigned_less [where 'a = nat, of n]
    by (simp_all add: N_def C_def unat_gt_0 word_le_nat_alt)
  define x where "x = (of_nat C / of_nat N :: rat)"
  define k where "k = \<lceil>of_nat (w * C) / of_nat N :: rat\<rceil>"
  have x: "0 < x" "x \<le> 1" using n by (simp_all add: x_def)
  have w: "0 < W" "W \<le> 2 ^ 10"
  proof -
    show "0 < W" using assms(3) by (simp add: W_def)
    have "(of_nat w :: rat) \<le> of_nat (2 ^ 10)" using assms(4) by (simp only: of_nat_le_iff)
    then show "W \<le> 2 ^ 10" by (simp add: W_def)
  qed
  have e: "of_nat (w * C) / of_nat N = W * x" by (simp add: W_def x_def)
  have wx: "W * x \<le> W" using x w(1) by (simp add: mult_left_le)
  then have "W * x / 2 ^ 52 \<le> 2 ^ 10 / 2 ^ 52"
    using w(2) by (intro divide_right_mono) (rule order_trans, assumption+, simp)
  also have "\<dots> < (1 / 2 ^ 32 :: rat)" by simp
  also have "\<dots> < 1 / of_nat N"
  proof (rule divide_strict_left_mono)
    have "(of_nat N :: rat) < of_nat (2 ^ 32)" using n(2) by (simp only: of_nat_less_iff)
    then show "(of_nat N :: rat) < 2 ^ 32" by simp
  qed (use n(1) in simp_all)
  finally have small: "W * x / 2 ^ 52 < 1 / of_nat N" .
  have "of_int k - 1 + 1 / of_nat N \<le> W * x"
    using ceiling_div_gap [OF n(1), of "w * C"] unfolding k_def e .
  with small f64_product_ge [OF x(1) w(1)] have "of_int k - 1 < f64 (f64 x * W)" by linarith
  then have k: "k \<le> \<lceil>f64 (f64 x * W)\<rceil>" by (simp only: le_ceiling_iff)
  have "W * x \<le> of_int (int w)" using wx by (simp add: W_def)
  then have "k \<le> int w" unfolding k_def e by (simp only: ceiling_le_iff)
  then have "k \<le> 2 ^ 64 - 1" using assms(4) by simp
  moreover have "f64 (of_nat w) = W" using f64_nat [of w] assms(3,4) by (simp add: W_def)
  ultimately show ?thesis using k assms(1)
    unfolding bar_chars_def Let_def N_def [symmetric] C_def [symmetric] x_def [symmetric] k_def [symmetric]
    by simp
qed (simp add: bar_chars_def)

fun piece_string :: "Piece \<Rightarrow> string" where
  "piece_string (Plain s) = s"
| "piece_string (Colored _ s) = s"

definition text_string :: "Text \<Rightarrow> string" where
  "text_string t = concat (map piece_string t)"

lemma bar_parts_text:
  "bar_parts n w t parts = (bar, t') \<Longrightarrow> t \<le> w \<Longrightarrow>
   t \<le> t' \<and> t' \<le> w \<and> text_string bar = replicate (t' - t) CHR ''#''"
proof (induction n w t parts arbitrary: bar t' rule: bar_parts.induct)
  case (2 n w t c color parts)
  let ?k = "min (w - t) (bar_chars n w c)"
  obtain bar1 where b: "bar_parts n w (t + ?k) parts = (bar1, t')"
    and t: "bar = Colored color (replicate ?k CHR ''#'') # bar1"
    using 2(2) by (auto simp: Let_def split: prod.splits)
  have i: "t + ?k \<le> t'" "t' \<le> w" "text_string bar1 = replicate (t' - (t + ?k)) CHR ''#''"
    using 2(1) [OF refl b] 2(3) by simp_all
  have "replicate (t' - t) CHR ''#'' = replicate ?k CHR ''#'' @ replicate (t' - (t + ?k)) CHR ''#''"
    using i(1) by (simp only: replicate_add [symmetric]) simp
  then show ?case using i unfolding t text_string_def by simp
qed (simp add: text_string_def)

lemma bar_parts_total:
  "bar_parts n w t parts = (bar, t') \<Longrightarrow> t \<le> w \<Longrightarrow>
   t' = min w (t + sum_list (map (\<lambda>(c, _). bar_chars n w c) parts))"
proof (induction n w t parts arbitrary: bar t' rule: bar_parts.induct)
  case (2 n w t c color parts)
  let ?k = "min (w - t) (bar_chars n w c)"
  obtain bar1 where b: "bar_parts n w (t + ?k) parts = (bar1, t')"
    using 2(2) by (auto simp: Let_def split: prod.splits)
  have "t' = min w (t + ?k + sum_list (map (\<lambda>(c, _). bar_chars n w c) parts))"
    using 2(1) [OF refl b] 2(3) by simp
  then show ?case by (simp add: min_def split: if_splits)
qed simp

lemma job_progress_bar_string:
  fixes c :: JobTaskCounters
  defines "bars n w \<equiv> bar_chars n w (n_canceled_tasks c) + bar_chars n w (n_failed_tasks c) +
    bar_chars n w (n_finished_tasks c) + bar_chars n w (n_running_tasks c)"
  shows "text_string (job_progress_bar c n w) =
    ''['' @ replicate (min w (bars n w)) CHR ''#'' @ replicate (w - bars n w) CHR ''.'' @ '']''"
proof -
  let ?parts = "[(n_canceled_tasks c, TASK_COLOR_CANCELED), (n_failed_tasks c, TASK_COLOR_FAILED),
         (n_finished_tasks c, TASK_COLOR_FINISHED), (n_running_tasks c, TASK_COLOR_RUNNING)]"
  obtain bar t where b: "bar_parts n w 0 ?parts = (bar, t)" by force
  have "text_string bar = replicate t CHR ''#''" using bar_parts_text [OF b] by simp
  moreover have "t = min w (bars n w)" using bar_parts_total [OF b] by (simp add: bars_def)
  moreover have "w - min w k = w - k" for k by simp
  ultimately show ?thesis unfolding job_progress_bar_def b by (simp add: text_string_def)
qed

lemma bar_chars_sum:
  assumes "n \<noteq> 0" "0 < w" "w \<le> 2 ^ 10" "unat n \<le> sum_list (map unat cs)" "\<forall>c \<in> set cs. c \<le> n"
  shows "w \<le> sum_list (map (bar_chars n w) cs)"
proof -
  have "0 < unat n" using assms(1) by (simp only: unat_gt_0 not_False_eq_True)
  then have n: "0 < (of_nat (unat n) :: rat)" by (simp only: of_nat_0_less_iff)
  have "(of_nat w :: rat) * of_nat (sum_list (map unat cs)) / of_nat (unat n) \<le>
      of_nat (sum_list (map (bar_chars n w) cs))" using assms(5)
  proof (induction cs)
    case (Cons c cs)
    have "of_nat (w * unat c) / of_nat (unat n) \<le> (of_int (int (bar_chars n w c)) :: rat)"
      using bar_chars_ge [OF assms(1) _ assms(2,3), of c] Cons.prems
      by (simp only: ceiling_le_iff [symmetric] list.set_intros)
    then show ?case using Cons by (simp add: algebra_simps add_divide_distrib)
  qed simp
  moreover have "(of_nat w :: rat) * of_nat (unat n) / of_nat (unat n) \<le>
      of_nat w * of_nat (sum_list (map unat cs)) / of_nat (unat n)"
    using assms(4) by (intro divide_right_mono mult_left_mono) (simp_all only: of_nat_le_iff of_nat_0_le_iff)
  ultimately have "(of_nat w :: rat) \<le> of_nat (sum_list (map (bar_chars n w) cs))" using n by simp
  then show ?thesis by (simp only: of_nat_le_iff)
qed

lemma bar_of_states:
  assumes "ss \<noteq> []" "length ss < 2 ^ 32" "list_all (\<lambda>s. task_status s \<noteq> StWaiting) ss" "0 < w" "w \<le> 2 ^ 10"
  shows "text_string (job_progress_bar (counters_of ss) (of_nat (length ss)) w) = ''['' @ replicate w CHR ''#'' @ '']''"
proof -
  let ?n = "of_nat (length ss) :: u32" and ?c = "counters_of ss"
  let ?cs = "[n_canceled_tasks ?c, n_failed_tasks ?c, n_finished_tasks ?c, n_running_tasks ?c]"
  have n: "unat ?n = length ss" using unat_count [OF assms(2), of "\<lambda>_. True"] by (simp add: count_if_def)
  have "count_if (\<lambda>s. task_status s = StWaiting) ss = 0"
    using assms(3) by (simp add: count_if_zero list_all_iff)
  then have s: "sum_list (map unat ?cs) = length ss"
    using status_partition [of ss] by (simp add: counters_of_def unat_count [OF assms(2)])
  have "\<forall>c \<in> set ?cs. c \<le> ?n"
    by (simp add: counters_of_def word_le_nat_alt n unat_count [OF assms(2)] count_if_le_length)
  moreover have "?n \<noteq> 0" using n assms(1) by (metis length_0_conv unat_0)
  ultimately have "w \<le> sum_list (map (bar_chars ?n w) ?cs)"
    using s n assms(4,5) by (intro bar_chars_sum) simp_all
  then show ?thesis unfolding job_progress_bar_string by simp
qed

text \<open>
  Claim C40. The progress bar always has its width, whatever the counters are, so the subtraction of
  the characters drawn so far never wraps around; and where no task of a job waits, rounding in
  floating point never leaves a gap at its end.
\<close>

theorem progress_bar_width:
  fixes j :: "'rr Job"
  assumes "0 < w" "w \<le> 2 ^ 10"
  shows "length (text_string (job_progress_bar c n w)) = w + 2 \<and>
    (job_wf j \<and> task_states j \<noteq> [] \<and> list_all (\<lambda>s. task_status s \<noteq> StWaiting) (task_states j) \<longrightarrow>
       text_string (job_progress_bar (job_counters j) (n_tasks j) w) = ''['' @ replicate w CHR ''#'' @ '']'')"
proof -
  have "min w k + (w - k) = w" for k by simp
  then have "length (text_string (job_progress_bar c n w)) = w + 2"
    unfolding job_progress_bar_string by (simp add: add.assoc [symmetric])
  moreover have "text_string (job_progress_bar (job_counters j) (n_tasks j) w) = ''['' @ replicate w CHR ''#'' @ '']''"
    if "job_wf j" "task_states j \<noteq> []" "list_all (\<lambda>s. task_status s \<noteq> StWaiting) (task_states j)"
    using bar_of_states [OF that(2) _ that(3) assms] that(1) n_tasks_table [of j]
    by (simp add: job_wf_def task_states_length)
  ultimately show ?thesis by blast
qed

definition example_busy_job :: "unit Job" where
  "example_busy_job = example_job\<lparr>
     job_counters := \<lparr>n_running_tasks = 1, n_finished_tasks = 1, n_failed_tasks = 0, n_canceled_tasks = 1\<rparr>,
     job_state := ManyTasks
       [(10, \<lparr>info_state = Finished 7 90 100, info_task_id = 5\<rparr>),
        (11, \<lparr>info_state = Running 7 100, info_task_id = 6\<rparr>),
        (12, \<lparr>info_state = Canceled, info_task_id = 7\<rparr>)]\<rparr>"

theorem progress_bar_width_witness:
  "length (text_string (job_progress_bar counters_default 0 40)) = 42 \<and>
   text_string (job_progress_bar (job_counters example_busy_job) (n_tasks example_busy_job) 40) =
     ''['' @ replicate 40 CHR ''#'' @ '']''"
proof -
  have "{10 ..< 13} = {10, 11, 12 :: nat}" by auto
  then have "job_wf example_busy_job"
    by (simp add: job_wf_def example_busy_job_def example_job_def task_table_def task_states_def counters_of_def)
  moreover have "task_states example_busy_job = [Finished 7 90 100, Running 7 100, Canceled]"
    by (simp add: example_busy_job_def task_table_def task_states_def)
  ultimately show ?thesis
    using progress_bar_width [of 40 counters_default 0 example_busy_job] by simp
qed

lemma task_table_infos: "jd_tasks (make_job_detail now j True) = map snd (task_table j)"
  by (auto simp: make_job_detail_def task_table_def split: JobState.split)

lemma make_error_row_eq:
  "make_error_row m t = None \<longleftrightarrow> task_status (info_state t) \<noteq> StFailed"
  by (cases "info_state t") (simp_all add: make_error_row_def)

lemma map_filter_error_rows:
  "List.map_filter (make_error_row m) ts =
   map (\<lambda>t. the (make_error_row m t)) (filter (\<lambda>t. task_status (info_state t) = StFailed) ts)"
  by (simp add: List.map_filter_def make_error_row_eq)

definition failed_infos :: "'rr Job \<Rightarrow> JobTaskInfo list" where
  "failed_infos j = filter (\<lambda>t. task_status (info_state t) = StFailed) (sort_key info_task_id (map snd (task_table j)))"

lemma failed_infos_count:
  assumes "job_wf j"
  shows "unat (n_failed_tasks (job_counters j)) = length (failed_infos j)"
proof -
  have "length (failed_infos j) = size (filter_mset (\<lambda>t. task_status (info_state t) = StFailed) (mset (map snd (task_table j))))"
    unfolding failed_infos_def by (metis mset_filter mset_sort size_mset)
  also have "\<dots> = count_if (\<lambda>s. task_status s = StFailed) (task_states j)"
    unfolding mset_filter [symmetric] size_mset by (simp add: count_if_def task_states_def filter_map o_def)
  finally show ?thesis
    using assms unat_count [of "task_states j"] by (simp add: job_wf_def counters_of_def)
qed

lemma shown_digits: "show_nat (Suc (Suc 0)) = ''2''" "show_nat 5 = ''5''" "show_nat 6 = ''6''" "show_nat 7 = ''7''"
  by code_simp+

text \<open>
  Claim C39. The detail of a job reports its failures exactly: without \<^verbatim>\<open>--tasks\<close> nothing
  is printed for a job that has no failed task, and otherwise the five failed tasks with the
  smallest ids and the number of all failed tasks, with the remark that only five are shown
  exactly when there are more.
\<close>

theorem failed_tasks_shown:
  assumes "job_wf j" "stdout_ok fmt"
  shows "print_job_tasks fmt gs date (jd_tasks (make_job_detail now j True)) False (job_counters j) m =
    Inr (if failed_infos j = [] then []
         else [Table (color_policy gs) (Some (map (\<lambda>t. Bold (cell t)) [''Task Id'', ''Worker'', ''Error'']))
                 (map (\<lambda>t. the (make_error_row m t)) (take 5 (failed_infos j))),
               Print [Plain (show_nat (length (failed_infos j)) @
                 (if length (failed_infos j) > 5 then '' tasks failed. (5 shown)'' else '' tasks failed.'') @ newline)]])"
proof -
  note n = failed_infos_count [OF assms(1)]
  have "(of_nat (min (length (failed_infos j)) 5) :: u32) < n_failed_tasks (job_counters j) \<longleftrightarrow> length (failed_infos j) > 5"
    unfolding word_less_nat_alt n by (auto simp: min_def unat_of_nat take_bit_nat_def)
  moreover have "show_u32 (of_nat (min (length (failed_infos j)) 5)) = ''5''" if "length (failed_infos j) > 5"
    using that by (simp add: show_u32_def min_def shown_digits)
  ultimately show ?thesis
    using assms(2) unfolding print_job_tasks_def task_table_infos map_filter_error_rows Let_def
    by (simp add: SHOWN_TASKS_def print_table_def take_map n failed_infos_def [symmetric] show_u32_def min.commute)
qed

definition example_failed_job :: "unit Job" where
  "example_failed_job = example_job\<lparr>
     job_counters := \<lparr>n_running_tasks = 0, n_finished_tasks = 0, n_failed_tasks = 2, n_canceled_tasks = 0\<rparr>,
     job_state := ManyTasks
       [(10, \<lparr>info_state = Waiting, info_task_id = 5\<rparr>),
        (12, \<lparr>info_state = Failed 7 90 100 ''late'', info_task_id = 7\<rparr>),
        (11, \<lparr>info_state = Failed 8 90 100 ''exit code 1'', info_task_id = 6\<rparr>)]\<rparr>"

definition plain_formats :: "unit Formats" where
  "plain_formats =
     \<lparr>stdout_ok = True, path_display = id, bstr_display = id, format_duration = show_nat, num_hours = id,
      num_minutes = id, num_seconds = id, num_milliseconds = id, date_seconds = (\<lambda>_. []),
      resource_summary = (\<lambda>_. []), resource_describe = (\<lambda>_. []), manager_from_json = (\<lambda>_. None)\<rparr>"

theorem failed_tasks_shown_witness:
  "print_job_tasks plain_formats (GlobalSettings_new ''/hq'' Never) 200
     (jd_tasks (make_job_detail 200 example_failed_job True)) False (job_counters example_failed_job) [(7, ''node'')] =
   Inr [Table Never (Some [Bold (cell ''Task Id''), Bold (cell ''Worker''), Bold (cell ''Error'')])
          [[cell ''6'', cell ''N/A'', Foreground Red (cell ''exit code 1'')],
           [cell ''7'', cell ''node'', Foreground Red (cell ''late'')]],
        Print [Plain (''2 tasks failed.'' @ newline)]]"
proof -
  have "{10 ..< 13} = {10, 11, 12 :: nat}" by auto
  then have "job_wf example_failed_job"
    by (auto simp: job_wf_def example_failed_job_def example_job_def task_table_def task_states_def counters_of_def)
  moreover have "failed_infos example_failed_job =
      [\<lparr>info_state = Failed 8 90 100 ''exit code 1'', info_task_id = 6\<rparr>,
       \<lparr>info_state = Failed 7 90 100 ''late'', info_task_id = 7\<rparr>]"
    by (simp add: failed_infos_def example_failed_job_def task_table_def)
  ultimately show ?thesis
    using failed_tasks_shown [of example_failed_job plain_formats "GlobalSettings_new ''/hq'' Never" 200 200 "[(7, ''node'')]"]
    by (simp add: plain_formats_def make_error_row_def format_worker_def show_u32_def shown_digits
        GlobalSettings_new_def)
qed

end
