(* ===== verification/ClientCommands.thy ===== *)
theory ClientCommands
  imports ClientOutput
begin

text \<open>
  The commands of the client: \<^verbatim>\<open>src/src/client/commands/jobs.rs\<close>,
  \<^verbatim>\<open>worker.rs\<close>, \<^verbatim>\<open>stats.rs\<close>, \<^verbatim>\<open>stop.rs\<close>, the macro \<^verbatim>\<open>rpc_call\<close> of
  \<^verbatim>\<open>src/src/client/utils.rs\<close>, \<^verbatim>\<open>get_worker_map\<close> of
  \<^verbatim>\<open>src/src/client/job.rs\<close> and the errors of \<^verbatim>\<open>src/src/common/error.rs\<close>.
  A command runs on a connection \<open>'c\<close> whose only operation is to send a request and to receive the
  answer; it yields what it prints and a value or an error, or it panics.
\<close>

section \<open>Errors and requests\<close>

datatype HqError =
    IoError string
  | SerializationError string
  | TakoError string
  | GenericError string

fun HqError_fmt :: "HqError \<Rightarrow> string" where
  "HqError_fmt (IoError e) = e"
| "HqError_fmt (SerializationError e) = ''Serialization error: '' @ e"
| "HqError_fmt (TakoError e) = ''Tako error: '' @ e"
| "HqError_fmt (GenericError e) = ''Error: '' @ e"

definition hq_error :: "string \<Rightarrow> HqError + 'a" where
  "hq_error message = Inl (GenericError message)"

text \<open>
  What a command uses from outside: the connection, the text \<^verbatim>\<open>{:?}\<close> of a message, the
  display functions, the settings, the parts of a resource request, the files and the directory of
  the process.
\<close>

record ('c, 'rr) ClientEnv =
  ce_call :: "'c \<Rightarrow> 'rr FromClientMessage \<Rightarrow> 'c \<times> (HqError + 'rr ToClientMessage)"
  ce_send :: "'c \<Rightarrow> 'rr FromClientMessage \<Rightarrow> 'c \<times> (HqError + unit)"
  ce_debug :: "'rr ToClientMessage \<Rightarrow> string"
  ce_formats :: "'rr Formats"
  ce_settings :: GlobalSettings
  ce_new_request :: "CpuRequest \<Rightarrow> 'rr"
  ce_cpus :: "'rr \<Rightarrow> CpuRequest"
  ce_validate :: "'rr \<Rightarrow> string option"
  ce_files :: "path \<Rightarrow> string + bytes"
  ce_current_dir :: "path option"

text \<open>The sequencing of commands: an error ends a command, a panic the process.\<close>

type_synonym ('c, 'a) cmd = "'c \<Rightarrow> ('c \<times> Output list \<times> (string + 'a)) outcome"

definition cmd_return :: "'a \<Rightarrow> ('c, 'a) cmd" where
  "cmd_return a = (\<lambda>c. Inr (c, [], Inr a))"

definition cmd_fail :: "string \<Rightarrow> ('c, 'a) cmd" where
  "cmd_fail e = (\<lambda>c. Inr (c, [], Inl e))"

definition cmd_print :: "Output list \<Rightarrow> ('c, unit) cmd" where
  "cmd_print os = (\<lambda>c. Inr (c, os, Inr ()))"

definition cmd_lift :: "'a outcome \<Rightarrow> ('c, 'a) cmd" where
  "cmd_lift r = (\<lambda>c. try_bind r (\<lambda>a. Inr (c, [], Inr a)))"

definition cmd_bind :: "('c, 'a) cmd \<Rightarrow> ('a \<Rightarrow> ('c, 'b) cmd) \<Rightarrow> ('c, 'b) cmd" where
  "cmd_bind m f =
     (\<lambda>c. try_bind (m c) (\<lambda>(c1, o1, r).
        case r of
          Inl e \<Rightarrow> Inr (c1, o1, Inl e)
        | Inr a \<Rightarrow> try_bind (f a c1) (\<lambda>(c2, o2, r2). Inr (c2, o1 @ o2, r2))))"

definition cmd_outputs :: "Output list outcome \<Rightarrow> ('c, unit) cmd" where
  "cmd_outputs r = cmd_bind (cmd_lift r) cmd_print"

definition rpc_call ::
  "('c, 'rr) ClientEnv \<Rightarrow> 'rr FromClientMessage \<Rightarrow> ('rr ToClientMessage \<Rightarrow> 'r option) \<Rightarrow> ('c, 'r) cmd" where
  "rpc_call env message matcher =
     (\<lambda>c. case ce_call env c message of
        (c, Inl e) \<Rightarrow> Inr (c, [], Inl (HqError_fmt e))
      | (c, Inr msg) \<Rightarrow>
          (case matcher msg of
             Some r \<Rightarrow> Inr (c, [], Inr r)
           | None \<Rightarrow>
               Inr (c, [], Inl (HqError_fmt (GenericError (''Received an invalid message '' @ ce_debug env msg))))))"

fun as_job_info :: "'rr ToClientMessage \<Rightarrow> 'rr JobInfo list option" where
  "as_job_info (JobInfoResponse r) = Some r"
| "as_job_info _ = None"

fun as_job_detail :: "'rr ToClientMessage \<Rightarrow> (JobId \<times> 'rr JobDetail option) list option" where
  "as_job_detail (JobDetailResponse r) = Some r"
| "as_job_detail _ = None"

fun as_submit :: "'rr ToClientMessage \<Rightarrow> 'rr JobDetail option" where
  "as_submit (SubmitResponse r) = Some r"
| "as_submit _ = None"

fun as_worker_list :: "'rr ToClientMessage \<Rightarrow> WorkerInfo list option" where
  "as_worker_list (WorkerListResponse r) = Some r"
| "as_worker_list _ = None"

fun as_worker_info :: "'rr ToClientMessage \<Rightarrow> WorkerInfo option option" where
  "as_worker_info (WorkerInfoResponse r) = Some r"
| "as_worker_info _ = None"

fun as_stats :: "'rr ToClientMessage \<Rightarrow> StreamStats option" where
  "as_stats (StatsResponse r) = Some r"
| "as_stats _ = None"

fun as_stop_worker :: "'rr ToClientMessage \<Rightarrow> (WorkerId \<times> StopWorkerResponse) list option" where
  "as_stop_worker (StopWorkerResponses r) = Some r"
| "as_stop_worker _ = None"

fun as_cancel :: "'rr ToClientMessage \<Rightarrow> (JobId \<times> CancelJobResponse) list option" where
  "as_cancel (CancelJobResponses r) = Some r"
| "as_cancel _ = None"

section \<open>Jobs\<close>

definition get_worker_map :: "('c, 'rr) ClientEnv \<Rightarrow> ('c, WorkerMap) cmd" where
  "get_worker_map env =
     cmd_bind (rpc_call env WorkerList as_worker_list) (\<lambda>ws.
       cmd_return (foldl (\<lambda>m w. fst (hm_insert (wi_id w) (wc_hostname (wi_configuration w)) m)) [] ws))"

definition get_last_job_id :: "('c, 'rr) ClientEnv \<Rightarrow> ('c, JobId option) cmd" where
  "get_last_job_id env =
     cmd_bind (rpc_call env (JobInfoReq (LastN 1)) as_job_info) (\<lambda>jobs.
       cmd_return (if jobs = [] then None else Some (ji_id (last jobs))))"

definition get_job_ids :: "('c, 'rr) ClientEnv \<Rightarrow> ('c, JobId list option) cmd" where
  "get_job_ids env =
     cmd_bind (rpc_call env (JobInfoReq All) as_job_info) (\<lambda>jobs. cmd_return (Some (map ji_id jobs)))"

definition retain_status :: "Status list \<Rightarrow> 'rr JobInfo list \<Rightarrow> 'rr JobInfo list outcome" where
  "retain_status job_filters infos =
     (if job_filters = [] then Inr infos
      else try_bind (traverse (\<lambda>j. try_bind (job_status j) (\<lambda>s. Inr (j, s))) infos) (\<lambda>js.
        Inr (map fst (filter (\<lambda>(j, s). s \<in> set job_filters) js))))"

definition output_job_list :: "('c, 'rr) ClientEnv \<Rightarrow> Status list \<Rightarrow> ('c, unit) cmd" where
  "output_job_list env job_filters =
     cmd_bind (rpc_call env (JobInfoReq All) as_job_info) (\<lambda>jobs.
     cmd_bind (cmd_lift (retain_status job_filters jobs)) (\<lambda>jobs.
     cmd_bind (cmd_lift (print_job_list (ce_formats env) (ce_settings env) (sort_key ji_id jobs))) (\<lambda>out.
     cmd_print [out])))"

fun print_details :: "('c, 'rr) ClientEnv \<Rightarrow> bool \<Rightarrow> (JobId \<times> 'rr JobDetail option) list \<Rightarrow> ('c, unit) cmd" where
  "print_details env show_tasks [] = cmd_return ()"
| "print_details env show_tasks ((i, detail) # responses) =
     cmd_bind
       (case detail of
          Some job \<Rightarrow>
            cmd_bind (get_worker_map env) (\<lambda>m.
              cmd_outputs (print_job_detail (ce_formats env) (ce_cpus env) (ce_settings env) job False show_tasks m))
        | None \<Rightarrow> cmd_print [LogError (''Job '' @ show_u32 i @ '' not found'')])
       (\<lambda>_. print_details env show_tasks responses)"

definition output_job_detail :: "('c, 'rr) ClientEnv \<Rightarrow> Selector \<Rightarrow> bool \<Rightarrow> ('c, unit) cmd" where
  "output_job_detail env selector show_tasks =
     (if selector = All then
        cmd_print [LogWarn (''Job detail doesn'' @ [CHR 0x27] @ ''t support --all specifier, did you mean: job list?'')]
      else
        cmd_bind (rpc_call env (JobDetailReq selector True) as_job_detail) (print_details env show_tasks))"

fun cancel_output :: "JobId \<times> CancelJobResponse \<Rightarrow> Output" where
  "cancel_output (i, CjCanceled canceled already_finished) =
     (if canceled \<noteq> [] then
        LogInfo (''Job '' @ show_u32 i @ '' canceled ('' @ show_nat (length canceled) @ '' tasks canceled, '' @
          show_u32 already_finished @ '' tasks already finished)'')
      else LogError (''Canceling job '' @ show_u32 i @ '' failed; all tasks are already finished''))"
| "cancel_output (i, CjInvalidJob) = LogError (''Canceling job '' @ show_u32 i @ '' failed; job not found'')"
| "cancel_output (i, CjFailed msg) = LogError (''Canceling job '' @ show_u32 i @ '' failed; '' @ msg)"

definition client_cancel_job :: "('c, 'rr) ClientEnv \<Rightarrow> Selector \<Rightarrow> ('c, unit) cmd" where
  "client_cancel_job env selector =
     cmd_bind (rpc_call env (Cancel selector) as_cancel) (\<lambda>responses.
       cmd_print ((if responses = [] then [LogInfo ''There is nothing to cancel''] else []) @
         map cancel_output (sort_key fst responses)))"

section \<open>Workers, statistics and the end of the server\<close>

definition get_worker_list :: "('c, 'rr) ClientEnv \<Rightarrow> bool \<Rightarrow> bool \<Rightarrow> ('c, WorkerInfo list) cmd" where
  "get_worker_list env get_online get_offline =
     cmd_bind (rpc_call env WorkerList as_worker_list) (\<lambda>ws.
       cmd_return (filter (\<lambda>w. if wi_ended w = None then get_online else get_offline) (sort_key wi_id ws)))"

definition get_worker_info :: "('c, 'rr) ClientEnv \<Rightarrow> WorkerId \<Rightarrow> ('c, WorkerInfo option) cmd" where
  "get_worker_info env w = rpc_call env (WorkerInfoReq w) as_worker_info"

fun stop_output :: "WorkerId \<times> StopWorkerResponse \<Rightarrow> Output" where
  "stop_output (i, SwFailed e) = LogError (''Stopping worker '' @ show_u32 i @ '' failed; '' @ e)"
| "stop_output (i, SwInvalidWorker) = LogError (''Stopping worker '' @ show_u32 i @ '' failed; worker not found'')"
| "stop_output (i, SwAlreadyStopped) =
     LogWarn (''Stopping worker '' @ show_u32 i @ '' failed; worker is already stopped'')"
| "stop_output (i, SwStopped) = LogInfo (''Worker '' @ show_u32 i @ '' stopped'')"

definition client_stop_worker :: "('c, 'rr) ClientEnv \<Rightarrow> Selector \<Rightarrow> ('c, unit) cmd" where
  "client_stop_worker env selector =
     cmd_bind (rpc_call env (StopWorkerReq selector) as_stop_worker) (\<lambda>responses.
       cmd_print (map stop_output (sort_key fst responses)))"

definition print_server_stats :: "('c, 'rr) ClientEnv \<Rightarrow> ('c, unit) cmd" where
  "print_server_stats env =
     cmd_bind (rpc_call env Stats as_stats) (\<lambda>stats.
     cmd_bind (cmd_lift (stats_table (ce_formats env) (ce_settings env) stats)) (\<lambda>out. cmd_print [out]))"

definition stop_server :: "('c, 'rr) ClientEnv \<Rightarrow> ('c, unit) cmd" where
  "stop_server env =
     (\<lambda>c. case ce_send env c Stop of
        (c, Inl e) \<Rightarrow> Inr (c, [], Inl (HqError_fmt e))
      | (c, Inr _) \<Rightarrow> Inr (c, [LogInfo ''Stopping server''], Inr ()))"

end
