(* ===== verification/Connection.thy ===== *)
theory Connection
  imports ClientCommands
begin

text \<open>
  Connections between clients and the server: \<^verbatim>\<open>src/src/transfer/connection.rs\<close>. Frames on
  the socket, the serialization of messages, and sealing and opening them are parameters; the
  state of the two ciphers is part of a connection. The lemmas show that a call over a connection
  whose ciphers are in step is a call of the handler of the server.
\<close>

section \<open>Messages on the wire\<close>

text \<open>
  The library functions for messages \<open>'m\<close> that are sent and \<open>'r\<close> that are received:
  serialization, sealing with the state \<open>'s\<close> of a cipher, opening (and deserializing) with the
  state \<open>'o\<close>.
\<close>

record ('s, 'o, 'm, 'r) WireApi =
  wire_serialize :: "'m \<Rightarrow> HqError + bytes"
  seal_message :: "'s option \<Rightarrow> bytes \<Rightarrow> 's option \<times> bytes"
  open_message :: "'o option \<Rightarrow> bytes \<Rightarrow> 'o option \<times> (HqError + 'r)"

definition serialize_message ::
  "('s, 'o, 'm, 'r) WireApi \<Rightarrow> 'm \<Rightarrow> 's option \<Rightarrow> 's option \<times> (HqError + bytes)" where
  "serialize_message api item sealer =
     (case wire_serialize api item of
        Inl e \<Rightarrow> (sealer, Inl e)
      | Inr data \<Rightarrow> (case seal_message api sealer data of (sealer, b) \<Rightarrow> (sealer, Inr b)))"

definition deserialize_message ::
  "('s, 'o, 'm, 'r) WireApi \<Rightarrow> string + bytes \<Rightarrow> 'o option \<Rightarrow> 'o option \<times> (HqError + 'r)" where
  "deserialize_message api message opener =
     (case message of
        Inl e \<Rightarrow> (opener, Inl (IoError e))
      | Inr m \<Rightarrow> open_message api opener m)"

section \<open>The connection\<close>

text \<open>The socket \<open>'t\<close>: sending a frame, which may fail, and the next frame, if there is one.\<close>

record 't Socket =
  socket_send :: "'t \<Rightarrow> bytes \<Rightarrow> 't \<times> string option"
  socket_next :: "'t \<Rightarrow> 't \<times> (string + bytes) option"

record ('t, 's, 'o) HqConnection =
  hc_socket :: 't
  hc_sealer :: "'s option"
  hc_opener :: "'o option"

definition HqConnection_send ::
  "('s, 'o, 'm, 'r) WireApi \<Rightarrow> 't Socket \<Rightarrow> 'm \<Rightarrow> ('t, 's, 'o) HqConnection \<Rightarrow>
   ('t, 's, 'o) HqConnection \<times> (HqError + unit)" where
  "HqConnection_send api sock item c =
     (case serialize_message api item (hc_sealer c) of
        (sealer, Inl e) \<Rightarrow> (c\<lparr>hc_sealer := sealer\<rparr>, Inl e)
      | (sealer, Inr data) \<Rightarrow>
          (case socket_send sock (hc_socket c) data of
             (t, Some e) \<Rightarrow> (c\<lparr>hc_sealer := sealer, hc_socket := t\<rparr>, Inl (IoError e))
           | (t, None) \<Rightarrow> (c\<lparr>hc_sealer := sealer, hc_socket := t\<rparr>, Inr ())))"

definition HqConnection_receive ::
  "('s, 'o, 'm, 'r) WireApi \<Rightarrow> 't Socket \<Rightarrow> ('t, 's, 'o) HqConnection \<Rightarrow>
   ('t, 's, 'o) HqConnection \<times> (HqError + 'r) option" where
  "HqConnection_receive api sock c =
     (case socket_next sock (hc_socket c) of
        (t, None) \<Rightarrow> (c\<lparr>hc_socket := t\<rparr>, None)
      | (t, Some (Inl e)) \<Rightarrow> (c\<lparr>hc_socket := t\<rparr>, Some (Inl (IoError e)))
      | (t, Some (Inr m)) \<Rightarrow>
          (case deserialize_message api (Inr m) (hc_opener c) of
             (opener, r) \<Rightarrow> (c\<lparr>hc_socket := t, hc_opener := opener\<rparr>, Some r)))"

definition HqConnection_send_and_receive ::
  "('s, 'o, 'm, 'r) WireApi \<Rightarrow> 't Socket \<Rightarrow> ('t, 's, 'o) HqConnection \<Rightarrow> 'm \<Rightarrow>
   ('t, 's, 'o) HqConnection \<times> (HqError + 'r)" where
  "HqConnection_send_and_receive api sock c item =
     (case HqConnection_send api sock item c of
        (c, Inl e) \<Rightarrow> (c, Inl e)
      | (c, Inr _) \<Rightarrow>
          (case HqConnection_receive api sock c of
             (c, Some msg) \<Rightarrow> (c, msg)
           | (c, None) \<Rightarrow> (c, hq_error ''Expected response was not received'')))"

text \<open>
  Authentication gives the two ciphers: the roles of the two sides are exchanged on the client.
  \<open>authenticate\<close> is the protocol of the Tako library, by version, roles and key.
\<close>

definition COMM_PROTOCOL :: u32 where "COMM_PROTOCOL = 0"

definition HqConnection_init ::
  "(u32 \<Rightarrow> string \<Rightarrow> string \<Rightarrow> 'k \<Rightarrow> 't \<Rightarrow> 't \<times> (HqError + 's option \<times> 'o option)) \<Rightarrow> 't \<Rightarrow> bool \<Rightarrow> 'k \<Rightarrow>
   HqError + ('t, 's, 'o) HqConnection" where
  "HqConnection_init authenticate socket server key =
     (let (my_role, peer_role) =
        (if server then (''hq-server'', ''hq-client'') else (''hq-client'', ''hq-server'')) in
      case authenticate COMM_PROTOCOL my_role peer_role key socket of
        (t, Inl e) \<Rightarrow> Inl e
      | (t, Inr (sealer, opener)) \<Rightarrow> Inr \<lparr>hc_socket = t, hc_sealer = sealer, hc_opener = opener\<rparr>)"

definition accept_client ::
  "(u32 \<Rightarrow> string \<Rightarrow> string \<Rightarrow> 'k \<Rightarrow> 't \<Rightarrow> 't \<times> (HqError + 's option \<times> 'o option)) \<Rightarrow> 't \<Rightarrow> 'k \<Rightarrow>
   HqError + ('t, 's, 'o) HqConnection" where
  "accept_client authenticate socket key = HqConnection_init authenticate socket True key"

section \<open>Messages arrive in order\<close>

text \<open>
  Ciphers in step: what one side seals the other opens, and the ciphers stay in step. This is the
  promise of an authenticated stream cipher for frames that arrive in order.
\<close>

definition channel_ok ::
  "('s, 'o1, 'm, 'r1) WireApi \<Rightarrow> ('s2, 'o, 'm2, 'm) WireApi \<Rightarrow> ('s option \<Rightarrow> 'o option \<Rightarrow> bool) \<Rightarrow> bool" where
  "channel_ok out_api in_api in_step \<longleftrightarrow>
     (\<forall>m s o1 data. in_step s o1 \<and> wire_serialize out_api m = Inr data \<longrightarrow>
        (\<exists>o2. open_message in_api o1 (snd (seal_message out_api s data)) = (o2, Inr m) \<and>
          in_step (fst (seal_message out_api s data)) o2))"

lemma channel_message:
  assumes "channel_ok out_api in_api in_step" "in_step s o1" "wire_serialize out_api m = Inr data"
  obtains s' b o2 where "serialize_message out_api m s = (s', Inr b)"
    "deserialize_message in_api (Inr b) o1 = (o2, Inr m)" "in_step s' o2"
proof -
  from assms obtain o2 where "open_message in_api o1 (snd (seal_message out_api s data)) = (o2, Inr m)"
    "in_step (fst (seal_message out_api s data)) o2" unfolding channel_ok_def by blast
  with assms(3) that show thesis
    by (cases "seal_message out_api s data") (simp add: serialize_message_def deserialize_message_def)
qed

section \<open>A call is a call of the handler\<close>

text \<open>
  The socket of a client whose other end is the server: a frame that arrives is opened, handled,
  and its answer sealed and queued. A request without an answer, or an unreadable one, queues
  nothing more than its error.
\<close>

record ('rr, 'q, 's, 'o) Served =
  sv_state :: "('rr, 'q) State"
  sv_sealer :: "'s option"
  sv_opener :: "'o option"
  sv_replies :: "bytes list"

definition queue_reply ::
  "('s, 'o, 'rr ToClientMessage, 'rr FromClientMessage) WireApi \<Rightarrow> 'rr ToClientMessage \<Rightarrow>
   ('rr, 'q, 's, 'o) Served \<Rightarrow> ('rr, 'q, 's, 'o) Served" where
  "queue_reply api r sv =
     (case serialize_message api r (sv_sealer sv) of
        (s, Inl _) \<Rightarrow> sv\<lparr>sv_sealer := s\<rparr>
      | (s, Inr b) \<Rightarrow> sv\<lparr>sv_sealer := s, sv_replies := sv_replies sv @ [b]\<rparr>)"

definition serve_frame ::
  "('s, 'o, 'rr ToClientMessage, 'rr FromClientMessage) WireApi \<Rightarrow> ('rr, 'q) Env \<Rightarrow> date \<Rightarrow>
   ('rr, 'q, 's, 'o) Served \<Rightarrow> bytes \<Rightarrow> ('rr, 'q, 's, 'o) Served \<times> string option" where
  "serve_frame api env now sv frame =
     (case deserialize_message api (Inr frame) (sv_opener sv) of
        (opener, Inl e) \<Rightarrow>
          (queue_reply api (ErrorResponse (''Cannot parse message: '' @ HqError_fmt e)) (sv\<lparr>sv_opener := opener\<rparr>), None)
      | (opener, Inr msg) \<Rightarrow>
          ((case handle_message env now msg (sv_state sv) of
              Some (Inr (st, r, _)) \<Rightarrow> queue_reply api r (sv\<lparr>sv_opener := opener, sv_state := st\<rparr>)
            | _ \<Rightarrow> sv\<lparr>sv_opener := opener\<rparr>), None))"

definition next_reply :: "('rr, 'q, 's, 'o) Served \<Rightarrow> ('rr, 'q, 's, 'o) Served \<times> (string + bytes) option" where
  "next_reply sv =
     (case sv_replies sv of [] \<Rightarrow> (sv, None) | b # bs \<Rightarrow> (sv\<lparr>sv_replies := bs\<rparr>, Some (Inr b)))"

definition server_socket ::
  "('s, 'o, 'rr ToClientMessage, 'rr FromClientMessage) WireApi \<Rightarrow> ('rr, 'q) Env \<Rightarrow> date \<Rightarrow>
   ('rr, 'q, 's, 'o) Served Socket" where
  "server_socket api env now = \<lparr>socket_send = serve_frame api env now, socket_next = next_reply\<rparr>"

definition linked ::
  "('s1 option \<Rightarrow> 'o1 option \<Rightarrow> bool) \<Rightarrow> ('s2 option \<Rightarrow> 'o2 option \<Rightarrow> bool) \<Rightarrow>
   (('rr, 'q, 's2, 'o1) Served, 's1, 'o2) HqConnection \<Rightarrow> bool" where
  "linked up down c \<longleftrightarrow>
     up (hc_sealer c) (sv_opener (hc_socket c)) \<and> down (sv_sealer (hc_socket c)) (hc_opener c) \<and>
     sv_replies (hc_socket c) = []"

text \<open>
  Claim C13. A call over a connection is a call of the server: with ciphers in step in both directions and
  no answer on the way, sending a request and receiving its answer gives exactly the answer of the
  handler on the state of the server, moves the server to the state of the handler, and leaves the
  connection ready for the next call; a request that the server does not answer gives an error.
\<close>

theorem rpc_over_connection:
  assumes "channel_ok capi sapi up" "channel_ok sapi capi down"
    and "linked up down c" "wire_serialize capi msg = Inr data"
    and "\<forall>st r ms. handle_message env now msg (sv_state (hc_socket c)) = Some (Inr (st, r, ms)) \<longrightarrow>
      (\<exists>data. wire_serialize sapi r = Inr data)"
  shows "\<exists>c'. HqConnection_send_and_receive capi (server_socket sapi env now) c msg =
      (c', case handle_message env now msg (sv_state (hc_socket c)) of
             Some (Inr (_, r, _)) \<Rightarrow> Inr r
           | _ \<Rightarrow> Inl (GenericError ''Expected response was not received'')) \<and>
    linked up down c' \<and>
    sv_state (hc_socket c') = (case handle_message env now msg (sv_state (hc_socket c)) of
             Some (Inr (st, _, _)) \<Rightarrow> st
           | _ \<Rightarrow> sv_state (hc_socket c))"
proof -
  let ?sv = "hc_socket c"
  have l: "up (hc_sealer c) (sv_opener ?sv)" "down (sv_sealer ?sv) (hc_opener c)" "sv_replies ?sv = []"
    using assms(3) by (simp_all add: linked_def)
  obtain s1 b1 o1 where m: "serialize_message capi msg (hc_sealer c) = (s1, Inr b1)"
    "deserialize_message sapi (Inr b1) (sv_opener ?sv) = (o1, Inr msg)" "up s1 o1"
    by (rule channel_message [OF assms(1) l(1) assms(4)])
  show ?thesis
  proof (cases "\<exists>st r ms. handle_message env now msg (sv_state ?sv) = Some (Inr (st, r, ms))")
    case True
    then obtain st r ms where h: "handle_message env now msg (sv_state ?sv) = Some (Inr (st, r, ms))" by blast
    obtain data' where "wire_serialize sapi r = Inr data'" using assms(5) h by blast
    then obtain s2 b2 o2 where a: "serialize_message sapi r (sv_sealer ?sv) = (s2, Inr b2)"
      "deserialize_message capi (Inr b2) (hc_opener c) = (o2, Inr r)" "down s2 o2"
      by (rule channel_message [OF assms(2) l(2)])
    show ?thesis using m a l h
      by (simp add: HqConnection_send_and_receive_def HqConnection_send_def HqConnection_receive_def
          server_socket_def serve_frame_def queue_reply_def next_reply_def linked_def)
  next
    case False
    then have n: "(case handle_message env now msg (sv_state ?sv) of Some (Inr (st, r, ms)) \<Rightarrow> f st r ms | _ \<Rightarrow> x) = x" for f x
      by (auto split: option.split sum.split)
    show ?thesis using m l
      by (simp add: HqConnection_send_and_receive_def HqConnection_send_def HqConnection_receive_def
          server_socket_def serve_frame_def next_reply_def linked_def n hq_error_def)
  qed
qed

text \<open>Ciphers that number the frames; the client asks for the workers.\<close>

definition example_seal :: "nat option \<Rightarrow> bytes \<Rightarrow> nat option \<times> bytes" where
  "example_seal s data = (case s of None \<Rightarrow> (None, data) | Some n \<Rightarrow> (Some (Suc n), of_nat n # data))"

definition example_open :: "(bytes \<Rightarrow> HqError + 'r) \<Rightarrow> nat option \<Rightarrow> bytes \<Rightarrow> nat option \<times> (HqError + 'r)" where
  "example_open decode s b =
     (case (s, b) of
        (Some n, k # data) \<Rightarrow> if k = of_nat n then (Some (Suc n), decode data) else (s, Inl (TakoError ''order''))
      | _ \<Rightarrow> (s, Inl (TakoError ''empty'')))"

abbreviation example_worker_list :: "unit ToClientMessage" where
  "example_worker_list \<equiv> handle_worker_list example_server"

definition example_client_wire :: "(nat, nat, unit FromClientMessage, unit ToClientMessage) WireApi" where
  "example_client_wire =
     \<lparr>wire_serialize = (\<lambda>m. if m = WorkerList then Inr [1] else Inl (SerializationError ''?'')),
      seal_message = example_seal,
      open_message = example_open (\<lambda>d. if d = [2] then Inr example_worker_list else Inl (SerializationError ''?''))\<rparr>"

definition example_server_wire :: "(nat, nat, unit ToClientMessage, unit FromClientMessage) WireApi" where
  "example_server_wire =
     \<lparr>wire_serialize = (\<lambda>m. if m = example_worker_list then Inr [2] else Inl (SerializationError ''?'')),
      seal_message = example_seal,
      open_message = example_open (\<lambda>d. if d = [1] then Inr WorkerList else Inl (SerializationError ''?''))\<rparr>"

definition example_connection :: "((unit, unit, nat, nat) Served, nat, nat) HqConnection" where
  "example_connection =
     \<lparr>hc_socket = \<lparr>sv_state = example_server, sv_sealer = Some 5, sv_opener = Some 3, sv_replies = []\<rparr>,
      hc_sealer = Some 3, hc_opener = Some 5\<rparr>"

theorem rpc_over_connection_witness:
  "\<exists>c'. HqConnection_send_and_receive example_client_wire (server_socket example_server_wire example_env 500)
       example_connection WorkerList = (c', Inr example_worker_list) \<and>
     sv_state (hc_socket c') = example_server"
proof -
  let ?step = "\<lambda>s c. s = c \<and> s \<noteq> (None :: nat option)"
  have c: "channel_ok example_client_wire example_server_wire ?step"
    "channel_ok example_server_wire example_client_wire ?step"
    by (auto simp: channel_ok_def example_client_wire_def example_server_wire_def example_seal_def
        example_open_def split: if_splits)
  have h: "handle_message example_env 500 WorkerList (sv_state (hc_socket example_connection)) =
      Some (Inr (example_server, example_worker_list, []))"
    by (simp add: handle_message_def example_connection_def)
  have "linked ?step ?step example_connection" by (simp add: linked_def example_connection_def)
  from rpc_over_connection [OF c this, of WorkerList "[1]" example_env 500] h
  show ?thesis by (auto simp: example_client_wire_def example_server_wire_def)
qed

end
