(* ===== verification/ServerDirectory.thy ===== *)
theory ServerDirectory
  imports Connection
begin

text \<open>
  The directory through which clients and workers find a server, and the start of the server:
  \<^verbatim>\<open>src/src/common/serverdir.rs\<close>, \<^verbatim>\<open>src/src/common/fsutils.rs\<close>,
  \<^verbatim>\<open>src/src/transfer/auth.rs\<close> and \<^verbatim>\<open>src/src/server/bootstrap.rs\<close>. The file
  system is a map from paths to nodes with the calls of the standard library that the code uses;
  the JSON text of a record, dates, hexadecimal text and sockets are parameters. The lemmas show
  that a started server is found again, and when a link that was left behind prevents a start.
\<close>

section \<open>The file system\<close>

text \<open>
  Paths are absolute and have no doubled or trailing separators; only the last component of a path
  is followed when it is a link.
\<close>

datatype Node = DirNode | FileNode string u32 | LinkNode path

type_synonym fs = "path \<Rightarrow> Node option"

type_synonym ('e, 'a) fs_cmd = "fs \<Rightarrow> (fs \<times> ('e + 'a)) outcome"

definition fs_return :: "'a \<Rightarrow> ('e, 'a) fs_cmd" where
  "fs_return a = (\<lambda>fs. Inr (fs, Inr a))"

definition fs_error :: "'e \<Rightarrow> ('e, 'a) fs_cmd" where
  "fs_error e = (\<lambda>fs. Inr (fs, Inl e))"

definition fs_bind :: "('e, 'a) fs_cmd \<Rightarrow> ('a \<Rightarrow> ('e, 'b) fs_cmd) \<Rightarrow> ('e, 'b) fs_cmd" where
  "fs_bind m f =
     (\<lambda>fs. try_bind (m fs) (\<lambda>(fs, r). case r of Inl e \<Rightarrow> Inr (fs, Inl e) | Inr a \<Rightarrow> f a fs))"

text \<open>The kernel follows at most forty links.\<close>

fun fs_resolve :: "nat \<Rightarrow> fs \<Rightarrow> path \<Rightarrow> path option" where
  "fs_resolve 0 fs p = None"
| "fs_resolve (Suc n) fs p =
     (case fs p of None \<Rightarrow> None | Some (LinkNode t) \<Rightarrow> fs_resolve n fs t | Some _ \<Rightarrow> Some p)"

definition canonicalize :: "fs \<Rightarrow> path \<Rightarrow> path option" where
  "canonicalize fs p = fs_resolve 41 fs p"

definition path_exists :: "fs \<Rightarrow> path \<Rightarrow> bool" where
  "path_exists fs p \<longleftrightarrow> canonicalize fs p \<noteq> None"

definition is_dir :: "fs \<Rightarrow> path \<Rightarrow> bool" where
  "is_dir fs p \<longleftrightarrow> Option.bind (canonicalize fs p) fs = Some DirNode"

definition dir_prefixes :: "path \<Rightarrow> path list" where
  "dir_prefixes p =
     filter (\<lambda>q. q \<noteq> []) (map (\<lambda>n. take n p) (filter (\<lambda>n. n = length p \<or> p ! n = CHR ''/'') [0..<Suc (length p)]))"

definition parent_dir :: "path \<Rightarrow> path" where
  "parent_dir p =
     (let d = rev (dropWhile (\<lambda>ch. ch \<noteq> CHR ''/'') (rev p)) in if length d \<le> 1 then d else butlast d)"

definition EEXIST :: HqError where "EEXIST = IoError ''File exists (os error 17)''"
definition ENOENT :: HqError where "ENOENT = IoError ''No such file or directory (os error 2)''"
definition EISDIR :: HqError where "EISDIR = IoError ''Is a directory (os error 21)''"

fun make_dirs :: "path list \<Rightarrow> (HqError, unit) fs_cmd" where
  "make_dirs [] = fs_return ()"
| "make_dirs (q # qs) =
     (\<lambda>fs. if is_dir fs q then make_dirs qs fs
           else if fs q \<noteq> None then fs_error EEXIST fs
           else make_dirs qs (fs(q \<mapsto> DirNode)))"

definition create_dir_all :: "path \<Rightarrow> (HqError, unit) fs_cmd" where
  "create_dir_all p = make_dirs (dir_prefixes p)"

definition create_new_file :: "path \<Rightarrow> u32 \<Rightarrow> string \<Rightarrow> (HqError, unit) fs_cmd" where
  "create_new_file p mode content =
     (\<lambda>fs. if fs p \<noteq> None then fs_error EEXIST fs
           else if \<not> is_dir fs (parent_dir p) then fs_error ENOENT fs
           else fs_return () (fs(p \<mapsto> FileNode content mode)))"

text \<open>A directory can be opened, but there is nothing to be read from it.\<close>

definition open_file :: "path \<Rightarrow> (HqError, string option) fs_cmd" where
  "open_file p =
     (\<lambda>fs. case Option.bind (canonicalize fs p) fs of
        Some (FileNode content _) \<Rightarrow> fs_return (Some content) fs
      | Some _ \<Rightarrow> fs_return None fs
      | None \<Rightarrow> fs_error ENOENT fs)"

definition remove_file :: "path \<Rightarrow> (HqError, unit) fs_cmd" where
  "remove_file p =
     (\<lambda>fs. case fs p of
        None \<Rightarrow> fs_error ENOENT fs
      | Some DirNode \<Rightarrow> fs_error EISDIR fs
      | Some _ \<Rightarrow> fs_return () (fs(p := None)))"

definition symlink :: "path \<Rightarrow> path \<Rightarrow> (HqError, unit) fs_cmd" where
  "symlink target p =
     (\<lambda>fs. if fs p \<noteq> None then fs_error EEXIST fs
           else if \<not> is_dir fs (parent_dir p) then fs_error ENOENT fs
           else fs_return () (fs(p \<mapsto> LinkNode target)))"

section \<open>Helpers on paths\<close>

definition absolute_path :: "path option \<Rightarrow> path \<Rightarrow> path outcome" where
  "absolute_path cwd p =
     (if take 1 p = ''/'' then Inr p else try_bind (unwrap cwd) (\<lambda>env. Inr (path_join env p)))"

definition create_symlink :: "path \<Rightarrow> path \<Rightarrow> (HqError, unit) fs_cmd" where
  "create_symlink symlink_path target =
     (\<lambda>fs. fs_bind (if path_exists fs symlink_path then remove_file symlink_path else fs_return ())
        (\<lambda>_. symlink target symlink_path) fs)"

section \<open>Keys and access records\<close>

text \<open>A key is its bytes; \<open>hex_encode\<close>, \<open>hex_decode\<close> and \<open>from_slice\<close> are library functions.\<close>

type_synonym SecretKey = bytes

definition KEY_SIZE :: nat where "KEY_SIZE = 32"

definition serialize_key :: "(bytes \<Rightarrow> string) \<Rightarrow> SecretKey \<Rightarrow> string" where
  "serialize_key hex_encode key = hex_encode key"

definition deserialize_key ::
  "(string \<Rightarrow> bytes option) \<Rightarrow> (bytes \<Rightarrow> SecretKey option) \<Rightarrow> string \<Rightarrow> string + SecretKey" where
  "deserialize_key hex_decode from_slice key =
     (case hex_decode key of
        None \<Rightarrow> Inl ''Could not deserialize secret key''
      | Some data \<Rightarrow>
          (case from_slice data of
             None \<Rightarrow> Inl ''Could not create secret key from slice''
           | Some k \<Rightarrow> Inr k))"

record AccessRecord =
  ar_version :: string
  ar_host :: string
  ar_pid :: u32
  ar_server_port :: u16
  ar_worker_port :: u16
  ar_start_date :: date
  ar_hq_secret_key :: SecretKey
  ar_tako_secret_key :: SecretKey

text \<open>
  The parts outside: the version the program was built as, the JSON text of records, the format of
  dates, the text \<^verbatim>\<open>{:?}\<close> of paths and the directory of the process.
\<close>

record ServerDirApi =
  pkg_version :: string
  record_to_json :: "AccessRecord \<Rightarrow> string"
  record_from_json :: "string \<Rightarrow> string + AccessRecord"
  date_format :: "date \<Rightarrow> string"
  date_display :: "date \<Rightarrow> string"
  path_debug :: "path \<Rightarrow> string"
  process_dir :: "path option"

definition AccessRecord_new ::
  "ServerDirApi \<Rightarrow> date \<Rightarrow> u32 \<Rightarrow> string \<Rightarrow> u16 \<Rightarrow> u16 \<Rightarrow> SecretKey \<Rightarrow> SecretKey \<Rightarrow> AccessRecord" where
  "AccessRecord_new api now pid host server_port worker_port hq_key tako_key =
     \<lparr>ar_version = pkg_version api, ar_host = host, ar_pid = pid, ar_server_port = server_port,
      ar_worker_port = worker_port, ar_start_date = now, ar_hq_secret_key = hq_key,
      ar_tako_secret_key = tako_key\<rparr>"

definition store_access_record :: "ServerDirApi \<Rightarrow> AccessRecord \<Rightarrow> path \<Rightarrow> (HqError, unit) fs_cmd" where
  "store_access_record api record p = create_new_file p 256 (record_to_json api record)"

definition load_access_file :: "ServerDirApi \<Rightarrow> path \<Rightarrow> (HqError, AccessRecord) fs_cmd" where
  "load_access_file api p =
     fs_bind (open_file p) (\<lambda>file.
       case file of
         None \<Rightarrow> fs_error (SerializationError ''Is a directory (os error 21)'')
       | Some content \<Rightarrow>
           (case record_from_json api content of
              Inl e \<Rightarrow> fs_error (SerializationError e)
            | Inr r \<Rightarrow> fs_return r))"

section \<open>The server directory\<close>

record ServerDir =
  sd_path :: path

definition SYMLINK_PATH :: path where "SYMLINK_PATH = ''hq-current''"
definition ACCESS_FILE :: path where "ACCESS_FILE = ''access.json''"

definition resolve_active_directory :: "fs \<Rightarrow> path \<Rightarrow> path" where
  "resolve_active_directory fs p =
     (case canonicalize fs (path_join p SYMLINK_PATH) of
        Some q \<Rightarrow> if is_dir fs q then q else p
      | None \<Rightarrow> p)"

definition ServerDir_open :: "ServerDirApi \<Rightarrow> path \<Rightarrow> (HqError, ServerDir) fs_cmd" where
  "ServerDir_open api directory =
     (\<lambda>fs. let p = resolve_active_directory fs directory in
        if \<not> is_dir fs p then fs_error (GenericError (path_debug api p @ '' is not a directory'')) fs
        else try_bind (absolute_path (process_dir api) p) (\<lambda>q. fs_return \<lparr>sd_path = q\<rparr> fs))"

definition access_filename :: "ServerDir \<Rightarrow> path" where
  "access_filename sd = path_join (sd_path sd) ACCESS_FILE"

definition ServerDir_create :: "ServerDirApi \<Rightarrow> path \<Rightarrow> AccessRecord \<Rightarrow> (HqError, ServerDir) fs_cmd" where
  "ServerDir_create api directory record =
     (let dir_path = path_join directory (date_format api (ar_start_date record)) in
      fs_bind (create_dir_all dir_path) (\<lambda>_.
      fs_bind (ServerDir_open api dir_path) (\<lambda>server_dir.
      fs_bind (store_access_record api record (access_filename server_dir)) (\<lambda>_.
      fs_bind (create_symlink (path_join directory SYMLINK_PATH) dir_path) (\<lambda>_.
      fs_return server_dir)))))"

definition read_access_record :: "ServerDirApi \<Rightarrow> ServerDir \<Rightarrow> (HqError, AccessRecord) fs_cmd" where
  "read_access_record api sd =
     fs_bind (load_access_file api (access_filename sd)) (\<lambda>record.
       if ar_version record \<noteq> pkg_version api then
         fs_error (GenericError (''Hyperqueue version mismatch detected.'' @ newline @
           ''Server was started with version '' @ ar_version record @ '', but the current version is '' @
           pkg_version api @ ''.''))
       else fs_return record)"

section \<open>Starting and finding a server\<close>

text \<open>An error of \<^verbatim>\<open>anyhow\<close> is the chain of its contexts, the outermost first.\<close>

type_synonym anyhow = "string list"

definition with_context :: "('e \<Rightarrow> string list) \<Rightarrow> ('e, 'a) fs_cmd \<Rightarrow> (anyhow, 'a) fs_cmd" where
  "with_context f m =
     (\<lambda>fs. try_bind (m fs) (\<lambda>(fs, r). Inr (fs, case r of Inl e \<Rightarrow> Inl (f e) | Inr a \<Rightarrow> Inr a)))"

definition lift_outcome :: "'a outcome \<Rightarrow> ('e, 'a) fs_cmd" where
  "lift_outcome r = (\<lambda>fs. try_bind r (\<lambda>a. Inr (fs, Inr a)))"

definition connect_to_server ::
  "(string \<Rightarrow> string + 't) \<Rightarrow>
   (u32 \<Rightarrow> string \<Rightarrow> string \<Rightarrow> SecretKey \<Rightarrow> 't \<Rightarrow> 't \<times> (HqError + 's option \<times> 'o option)) \<Rightarrow> AccessRecord \<Rightarrow>
   HqError + ('t, 's, 'o) HqConnection" where
  "connect_to_server tcp_connect authenticate record =
     (case tcp_connect (ar_host record @ '':'' @ show_nat (unat (ar_server_port record))) of
        Inl e \<Rightarrow> Inl (IoError e)
      | Inr socket \<Rightarrow> HqConnection_init authenticate socket False (ar_hq_secret_key record))"

datatype ServerStatus = Offline AccessRecord | Online AccessRecord

definition get_server_status ::
  "ServerDirApi \<Rightarrow> (AccessRecord \<Rightarrow> HqError + 'c) \<Rightarrow> path \<Rightarrow> (HqError, ServerStatus) fs_cmd" where
  "get_server_status api connect server_directory =
     fs_bind (ServerDir_open api server_directory) (\<lambda>sd.
     fs_bind (read_access_record api sd) (\<lambda>record.
     fs_return (case connect record of Inl _ \<Rightarrow> Offline record | Inr _ \<Rightarrow> Online record)))"

definition get_client_connection ::
  "ServerDirApi \<Rightarrow> (AccessRecord \<Rightarrow> HqError + 'c) \<Rightarrow> path \<Rightarrow> (anyhow, 'c) fs_cmd" where
  "get_client_connection api connect server_directory =
     fs_bind (with_context (\<lambda>e. [''Invalid server directory'', HqError_fmt e]) (ServerDir_open api server_directory)) (\<lambda>sd.
     fs_bind (with_context (\<lambda>e. [''No running instance of HQ found (cannot read access record from '' @
          path_debug api (access_filename sd) @ '')'', HqError_fmt e]) (read_access_record api sd)) (\<lambda>access_record.
     case connect access_record of
       Inl e \<Rightarrow> fs_error [''Cannot connect to HQ server at port '' @ ar_host access_record @ '':'' @
          show_nat (unat (ar_server_port access_record)), HqError_fmt e]
     | Inr connection \<Rightarrow> fs_return connection))"

definition print_access_record ::
  "ServerDirApi \<Rightarrow> 'rr Formats \<Rightarrow> GlobalSettings \<Rightarrow> path \<Rightarrow> AccessRecord \<Rightarrow> Output outcome" where
  "print_access_record api fmt gs dir record =
     (let row = (\<lambda>name c. [Bold (cell name), cell c]) in
      print_table fmt gs None
        [row ''Server directory'' (path_display fmt dir),
         row ''Host'' (ar_host record),
         row ''Pid'' (show_u32 (ar_pid record)),
         row ''HQ port'' (show_nat (unat (ar_server_port record))),
         row ''Workers port'' (show_nat (unat (ar_worker_port record))),
         row ''Start date'' (date_display api (ar_start_date record)),
         row ''Version'' (ar_version record)])"

record ServerConfig =
  sc_host :: string
  sc_idle_timeout :: "nat option"
  sc_autoalloc_interval :: "nat option"

definition DEFAULT_AUTOALLOC_REFRESH_INTERVAL :: nat where
  "DEFAULT_AUTOALLOC_REFRESH_INTERVAL = 5 * 1000000000"

text \<open>
  What a start finds outside: the port of the client socket, two generated keys, the port of the
  started task backend, the time and the process.
\<close>

record Startup =
  up_client_port :: "string + u16"
  up_keys :: "SecretKey \<times> SecretKey"
  up_worker_port :: "HqError + u16"
  up_now :: date
  up_pid :: u32

definition initialize_server ::
  "ServerDirApi \<Rightarrow> 'rr Formats \<Rightarrow> GlobalSettings \<Rightarrow> ServerConfig \<Rightarrow> Startup \<Rightarrow>
   (anyhow, ('rr, 'q) State \<times> AccessRecord \<times> Output) fs_cmd" where
  "initialize_server api fmt gs cfg up =
     (case up_client_port up of
        Inl e \<Rightarrow> fs_error [''Cannot create HQ server socket'', e]
      | Inr server_port \<Rightarrow>
          let state = StateRef_new (case sc_autoalloc_interval cfg of
                Some i \<Rightarrow> i | None \<Rightarrow> DEFAULT_AUTOALLOC_REFRESH_INTERVAL) in
          case up_worker_port up of
            Inl e \<Rightarrow> fs_error [HqError_fmt e]
          | Inr worker_port \<Rightarrow>
              let record = AccessRecord_new api (up_now up) (up_pid up) (sc_host cfg) server_port worker_port
                    (fst (up_keys up)) (snd (up_keys up)) in
              fs_bind (with_context (\<lambda>e. [HqError_fmt e]) (ServerDir_create api (server_dir gs) record)) (\<lambda>_.
              fs_bind (lift_outcome (print_access_record api fmt gs (server_dir gs) record)) (\<lambda>out.
              fs_return (state, record, out))))"

text \<open>How the server ends: the first of its futures that is ready.\<close>

datatype ServerEnd = Interrupted | StopCommand | ClientsEnded | AutoallocEnded | TakoEnded "string option"

fun server_result :: "ServerEnd \<Rightarrow> anyhow + unit" where
  "server_result (TakoEnded (Some e)) = Inl [e]"
| "server_result _ = Inr ()"

definition start_server ::
  "ServerDirApi \<Rightarrow> 'rr Formats \<Rightarrow> GlobalSettings \<Rightarrow> ServerConfig \<Rightarrow> Startup \<Rightarrow>
   (('rr, 'q) State \<Rightarrow> ServerEnd) \<Rightarrow> (anyhow, Output) fs_cmd" where
  "start_server api fmt gs cfg up run =
     fs_bind (initialize_server api fmt gs cfg up) (\<lambda>(state, record, out).
       case server_result (run state) of
         Inl e \<Rightarrow> fs_error e
       | Inr _ \<Rightarrow> (\<lambda>fs. try_bind (remove_file (path_join (server_dir gs) SYMLINK_PATH) fs) (\<lambda>(fs, _).
           fs_return out fs)))"

definition init_hq_server ::
  "ServerDirApi \<Rightarrow> (AccessRecord \<Rightarrow> HqError + 'c) \<Rightarrow> 'rr Formats \<Rightarrow> GlobalSettings \<Rightarrow> ServerConfig \<Rightarrow> Startup \<Rightarrow>
   (('rr, 'q) State \<Rightarrow> ServerEnd) \<Rightarrow> (anyhow, Output list) fs_cmd" where
  "init_hq_server api connect fmt gs cfg up run =
     (\<lambda>fs. try_bind (get_server_status api connect (server_dir gs) fs) (\<lambda>(fs, status).
        case status of
          Inr (Online _) \<Rightarrow>
            fs_error [''Server at '' @ path_display fmt (server_dir gs) @
              '' is already online, please stop it first using `hq stop --server-dir '' @
              path_display fmt (server_dir gs) @ ''`''] fs
        | _ \<Rightarrow>
            fs_bind (start_server api fmt gs cfg up run) (\<lambda>out.
              fs_return [LogInfo ''No online server found, starting a new server'', out]) fs))"

definition print_server_info ::
  "ServerDirApi \<Rightarrow> (AccessRecord \<Rightarrow> HqError + 'c) \<Rightarrow> 'rr Formats \<Rightarrow> GlobalSettings \<Rightarrow> (anyhow, Output) fs_cmd" where
  "print_server_info api connect fmt gs =
     (\<lambda>fs. try_bind (get_server_status api connect (server_dir gs) fs) (\<lambda>(fs, status).
        case status of
          Inr (Online record) \<Rightarrow> lift_outcome (print_access_record api fmt gs (server_dir gs) record) fs
        | _ \<Rightarrow> fs_error [''No online server found''] fs))"

section \<open>A started server is found\<close>

lemma canonicalize_simps:
  "fs p = None \<Longrightarrow> canonicalize fs p = None"
  "fs p = Some DirNode \<Longrightarrow> canonicalize fs p = Some p"
  "fs p = Some (FileNode c m) \<Longrightarrow> canonicalize fs p = Some p"
  "fs p = Some (LinkNode t) \<Longrightarrow> fs t = Some DirNode \<Longrightarrow> canonicalize fs p = Some t"
  "fs p = Some (LinkNode t) \<Longrightarrow> fs t = None \<Longrightarrow> canonicalize fs p = None"
  by (simp_all add: canonicalize_def eval_nat_numeral)

lemma is_dir_simps:
  "fs p = Some DirNode \<Longrightarrow> is_dir fs p" "fs p = None \<Longrightarrow> \<not> is_dir fs p"
  by (simp_all add: is_dir_def canonicalize_simps)

lemma fs_resolve_mono: "fs_resolve n f p = Some q \<Longrightarrow> f \<subseteq>\<^sub>m g \<Longrightarrow> fs_resolve n g p = Some q"
proof (induction n f p rule: fs_resolve.induct)
  case (2 n f p)
  have "p \<in> dom f" using 2(2) by (cases "f p") auto
  then have "g p = f p" using 2(3) by (simp add: map_le_def)
  then show ?case using 2 by (auto split: option.splits Node.splits)
qed simp

lemma path_exists_mono: "path_exists f p \<Longrightarrow> f \<subseteq>\<^sub>m g \<Longrightarrow> path_exists g p"
  unfolding path_exists_def canonicalize_def using fs_resolve_mono by (metis not_None_eq)

lemma fs_bind_simps [simp]:
  "m fs = Inr (fs', Inr a) \<Longrightarrow> fs_bind m f fs = f a fs'"
  "m fs = Inr (fs', Inl e) \<Longrightarrow> fs_bind m f fs = Inr (fs', Inl e)"
  by (simp_all add: fs_bind_def)

text \<open>Directories that are free or there already are made, and nothing else changes.\<close>

definition with_dirs :: "path set \<Rightarrow> fs \<Rightarrow> fs" where
  "with_dirs A fs = (\<lambda>p. if p \<in> A then Some DirNode else fs p)"

lemma make_dirs_ok:
  "(\<forall>q \<in> set qs. fs q = None \<or> fs q = Some DirNode) \<Longrightarrow>
   make_dirs qs fs = Inr (with_dirs (set qs) fs, Inr ())"
proof (induction qs arbitrary: fs)
  case (Cons q qs)
  have "with_dirs (set qs) (fs(q \<mapsto> DirNode)) = with_dirs (set (q # qs)) fs"
    by (auto simp: with_dirs_def fun_eq_iff)
  moreover have "fs(q \<mapsto> DirNode) = fs" if "fs q = Some DirNode" using that by (simp add: fun_upd_idem)
  moreover have "\<forall>p \<in> set qs. (fs(q \<mapsto> DirNode)) p = None \<or> (fs(q \<mapsto> DirNode)) p = Some DirNode"
    using Cons.prems by simp
  ultimately show ?case using Cons.IH [of "fs(q \<mapsto> DirNode)"] Cons.prems
    by (cases "fs q") (simp_all add: is_dir_simps del: fun_upd_apply)
qed (simp add: fs_return_def with_dirs_def)

definition dir_ok :: "path \<Rightarrow> bool" where
  "dir_ok d \<longleftrightarrow> take 1 d = ''/'' \<and> last d \<noteq> CHR ''/''"

definition name_ok :: "string \<Rightarrow> bool" where
  "name_ok x \<longleftrightarrow> x \<noteq> [] \<and> CHR ''/'' \<notin> set x"

lemma dir_ok_nonempty: "dir_ok d \<Longrightarrow> d \<noteq> []"
  by (auto simp: dir_ok_def)

lemma path_join_ok: "dir_ok d \<Longrightarrow> name_ok x \<Longrightarrow> path_join d x = d @ ''/'' @ x"
  using dir_ok_nonempty by (cases x) (auto simp: path_join_def dir_ok_def name_ok_def)

lemma dir_ok_join: "dir_ok d \<Longrightarrow> name_ok x \<Longrightarrow> dir_ok (d @ ''/'' @ x)"
proof -
  assume d: "dir_ok d" and x: "name_ok x"
  have "last x \<noteq> CHR ''/''" using x last_in_set [of x] unfolding name_ok_def by metis
  then show ?thesis using d x dir_ok_nonempty [of d] by (cases d) (auto simp: dir_ok_def name_ok_def)
qed

lemma parent_dir_join:
  assumes "d \<noteq> []" "name_ok x"
  shows "parent_dir (d @ ''/'' @ x) = d"
proof -
  have "dropWhile (\<lambda>ch. ch \<noteq> CHR ''/'') (rev x @ CHR ''/'' # rev d) = CHR ''/'' # rev d"
    using assms(2) by (subst dropWhile_append2) (auto simp: name_ok_def)
  then show ?thesis using assms(1) by (simp add: parent_dir_def Let_def)
qed

lemma dir_prefixes_self: "p \<noteq> [] \<Longrightarrow> p \<in> set (dir_prefixes p)"
  by (auto simp: dir_prefixes_def intro!: image_eqI [of _ _ "length p"])

lemma dir_prefixes_join:
  assumes "q \<in> set (dir_prefixes (d @ ''/'' @ x))" "CHR ''/'' \<notin> set x"
  shows "q = d @ ''/'' @ x \<or> length q \<le> length d"
proof -
  let ?p = "d @ ''/'' @ x"
  obtain n where n: "q = take n ?p" "n \<le> length ?p" "n = length ?p \<or> ?p ! n = CHR ''/''"
    using assms(1) unfolding dir_prefixes_def set_map set_filter set_upt by fastforce
  have "n \<le> length d" if "n < length ?p" "?p ! n = CHR ''/''"
  proof (rule ccontr)
    assume "\<not> n \<le> length d"
    then have "?p ! n = x ! (n - Suc (length d))" "n - Suc (length d) < length x"
      using that(1) by (simp_all add: nth_append nth_Cons')
    with that(2) assms(2) show False by (metis nth_mem)
  qed
  with n show ?thesis by (cases "n = length ?p") auto
qed

lemma api_names: "name_ok SYMLINK_PATH" "name_ok ACCESS_FILE"
  by (simp_all add: name_ok_def SYMLINK_PATH_def ACCESS_FILE_def)

text \<open>
  What a start needs of the file system: a directory with an absolute path, a free name for the
  directory of this start, and only directories on the way to it.
\<close>

definition start_ok :: "ServerDirApi \<Rightarrow> fs \<Rightarrow> path \<Rightarrow> AccessRecord \<Rightarrow> bool" where
  "start_ok api fs d record \<longleftrightarrow>
     (let x = date_format api (ar_start_date record) in
      dir_ok d \<and> name_ok x \<and> x \<noteq> SYMLINK_PATH \<and>
      (\<forall>q \<in> set (dir_prefixes (d @ ''/'' @ x)). fs q = None \<or> fs q = Some DirNode) \<and>
      fs (d @ ''/'' @ x @ ''/'' @ SYMLINK_PATH) = None \<and>
      fs (d @ ''/'' @ x @ ''/'' @ ACCESS_FILE) = None)"

definition start_dir :: "ServerDirApi \<Rightarrow> path \<Rightarrow> AccessRecord \<Rightarrow> path" where
  "start_dir api d record = d @ ''/'' @ date_format api (ar_start_date record)"

definition stored :: "ServerDirApi \<Rightarrow> fs \<Rightarrow> path \<Rightarrow> AccessRecord \<Rightarrow> fs" where
  "stored api fs d record =
     (with_dirs (set (dir_prefixes (start_dir api d record))) fs)
       (start_dir api d record @ ''/'' @ ACCESS_FILE \<mapsto> FileNode (record_to_json api record) 256)"

definition current_link :: "path \<Rightarrow> path" where
  "current_link d = d @ ''/'' @ SYMLINK_PATH"

lemma start_okD:
  assumes "start_ok api fs d record"
  shows "dir_ok d" and "name_ok (date_format api (ar_start_date record))"
    and "date_format api (ar_start_date record) \<noteq> SYMLINK_PATH"
    and "\<forall>q \<in> set (dir_prefixes (start_dir api d record)). fs q = None \<or> fs q = Some DirNode"
    and "fs (start_dir api d record @ ''/'' @ SYMLINK_PATH) = None"
    and "fs (start_dir api d record @ ''/'' @ ACCESS_FILE) = None"
    and "dir_ok (start_dir api d record)"
  using assms dir_ok_join by (simp_all add: start_ok_def start_dir_def Let_def)

lemma dir_prefixes_parent: "d \<noteq> [] \<Longrightarrow> d \<in> set (dir_prefixes (d @ ''/'' @ x))"
  by (auto simp: dir_prefixes_def nth_append intro!: image_eqI [of _ _ "length d"])

lemma start_prefixes:
  assumes "start_ok api fs d record" "name_ok x"
  shows "start_dir api d record @ ''/'' @ x \<notin> set (dir_prefixes (start_dir api d record))"
    and "x \<noteq> date_format api (ar_start_date record) \<Longrightarrow>
         d @ ''/'' @ x \<notin> set (dir_prefixes (start_dir api d record))"
proof -
  have *: "q = start_dir api d record \<or> length q \<le> length d"
    if "q \<in> set (dir_prefixes (start_dir api d record))" for q
    using that dir_prefixes_join start_okD(2) [OF assms(1)] unfolding start_dir_def name_ok_def by blast
  show "start_dir api d record @ ''/'' @ x \<notin> set (dir_prefixes (start_dir api d record))"
    using * [of "start_dir api d record @ ''/'' @ x"] by (auto simp: start_dir_def)
  show "d @ ''/'' @ x \<notin> set (dir_prefixes (start_dir api d record))"
    if "x \<noteq> date_format api (ar_start_date record)"
    using * [of "d @ ''/'' @ x"] that by (auto simp: start_dir_def)
qed

lemma link_differs:
  assumes "start_ok api fs d record"
  shows "current_link d \<noteq> start_dir api d record @ ''/'' @ ACCESS_FILE" "current_link d \<noteq> start_dir api d record"
    "start_dir api d record \<noteq> start_dir api d record @ ''/'' @ ACCESS_FILE" "d \<noteq> current_link d"
    "d \<noteq> start_dir api d record @ ''/'' @ ACCESS_FILE"
  using start_okD(2,3) [OF assms]
  by (auto simp: current_link_def start_dir_def name_ok_def SYMLINK_PATH_def ACCESS_FILE_def append_eq_append_conv2
      Cons_eq_append_conv)

lemma stored_facts:
  assumes "start_ok api fs d record"
  shows "stored api fs d record (start_dir api d record) = Some DirNode"
    and "stored api fs d record d = Some DirNode"
    and "stored api fs d record (start_dir api d record @ ''/'' @ ACCESS_FILE) =
         Some (FileNode (record_to_json api record) 256)"
    and "stored api fs d record (current_link d) = fs (current_link d)"
    and "fs \<subseteq>\<^sub>m stored api fs d record"
proof -
  note D = start_okD [OF assms] and L = link_differs [OF assms]
  show "stored api fs d record (start_dir api d record) = Some DirNode"
    using dir_prefixes_self [of "start_dir api d record"] L by (simp add: stored_def with_dirs_def start_dir_def)
  show "stored api fs d record d = Some DirNode"
    using dir_prefixes_parent [of d] dir_ok_nonempty [OF D(1)] L by (simp add: stored_def with_dirs_def start_dir_def)
  show "stored api fs d record (start_dir api d record @ ''/'' @ ACCESS_FILE) =
         Some (FileNode (record_to_json api record) 256)" by (simp add: stored_def)
  show "stored api fs d record (current_link d) = fs (current_link d)"
    using start_prefixes(2) [OF assms api_names(1)] D(3) L
    by (simp add: stored_def with_dirs_def current_link_def)
  show "fs \<subseteq>\<^sub>m stored api fs d record"
    using D(4,6) by (auto simp: map_le_def stored_def with_dirs_def)
qed

lemma ServerDir_open_plain:
  assumes "dir_ok p" "fs p = Some DirNode" "fs (p @ ''/'' @ SYMLINK_PATH) = None"
  shows "ServerDir_open api p fs = Inr (fs, Inr \<lparr>sd_path = p\<rparr>)"
  using assms path_join_ok [OF assms(1) api_names(1)]
  by (simp add: ServerDir_open_def resolve_active_directory_def canonicalize_simps is_dir_simps absolute_path_def
      dir_ok_def fs_return_def)

lemma ServerDir_open_linked:
  assumes "dir_ok d" "dir_ok p" "fs (current_link d) = Some (LinkNode p)" "fs p = Some DirNode"
  shows "ServerDir_open api d fs = Inr (fs, Inr \<lparr>sd_path = p\<rparr>)"
  using assms path_join_ok [OF assms(1) api_names(1)]
  by (simp add: ServerDir_open_def resolve_active_directory_def canonicalize_simps is_dir_simps absolute_path_def
      dir_ok_def fs_return_def current_link_def)

text \<open>Up to the link, a start goes through.\<close>

lemma ServerDir_create_stored:
  assumes "start_ok api fs d record"
  shows "ServerDir_create api d record fs =
    fs_bind (create_symlink (current_link d) (start_dir api d record)) (\<lambda>_. fs_return \<lparr>sd_path = start_dir api d record\<rparr>)
      (stored api fs d record)"
proof -
  let ?S = "start_dir api d record" and ?f = "with_dirs (set (dir_prefixes (start_dir api d record))) fs"
  note D = start_okD [OF assms]
  have join: "path_join d (date_format api (ar_start_date record)) = ?S" "path_join d SYMLINK_PATH = current_link d"
    "path_join ?S ACCESS_FILE = ?S @ ''/'' @ ACCESS_FILE"
    using D(1,2,7) api_names path_join_ok by (simp_all add: start_dir_def current_link_def)
  have S: "?f ?S = Some DirNode" "?f (?S @ ''/'' @ SYMLINK_PATH) = None" "?f (?S @ ''/'' @ ACCESS_FILE) = None"
    using dir_prefixes_self [OF dir_ok_nonempty [OF D(7)]] start_prefixes(1) [OF assms] api_names D(5,6)
    by (simp_all add: with_dirs_def)
  have "create_dir_all ?S fs = Inr (?f, Inr ())"
    unfolding create_dir_all_def by (rule make_dirs_ok [OF D(4)])
  moreover have "ServerDir_open api ?S ?f = Inr (?f, Inr \<lparr>sd_path = ?S\<rparr>)"
    by (rule ServerDir_open_plain [OF D(7) S(1,2)])
  moreover have "store_access_record api record (?S @ ''/'' @ ACCESS_FILE) ?f = Inr (stored api fs d record, Inr ())"
    using S parent_dir_join [OF dir_ok_nonempty [OF D(7)] api_names(2)]
    by (simp add: store_access_record_def create_new_file_def is_dir_simps fs_return_def stored_def)
  ultimately show ?thesis by (simp add: ServerDir_create_def join access_filename_def Let_def)
qed

definition linked_fs :: "ServerDirApi \<Rightarrow> fs \<Rightarrow> path \<Rightarrow> AccessRecord \<Rightarrow> fs" where
  "linked_fs api fs d record = (stored api fs d record)(current_link d \<mapsto> LinkNode (start_dir api d record))"

lemma create_symlink_stored:
  assumes "start_ok api fs d record"
    and "fs (current_link d) = None \<or> path_exists fs (current_link d) \<and> fs (current_link d) \<noteq> Some DirNode"
  shows "create_symlink (current_link d) (start_dir api d record) (stored api fs d record) =
         Inr (linked_fs api fs d record, Inr ())"
proof -
  let ?G = "stored api fs d record" and ?l = "current_link d"
  note F = stored_facts [OF assms(1)] and L = link_differs [OF assms(1)]
  have parent: "parent_dir ?l = d"
    unfolding current_link_def using parent_dir_join dir_ok_nonempty start_okD(1) [OF assms(1)] api_names(1) by blast
  have "is_dir ?G d" "is_dir (?G(?l := None)) d" using F(2) L(4) by (simp_all add: is_dir_simps)
  then have new: "symlink (start_dir api d record) ?l (?G(?l := None)) = Inr (linked_fs api fs d record, Inr ())"
    by (simp add: symlink_def parent fs_return_def linked_fs_def)
  show ?thesis
  proof (cases "fs ?l")
    case None
    then have "\<not> path_exists ?G ?l" "?G(?l := None) = ?G"
      using F(4) by (simp_all add: path_exists_def canonicalize_simps fun_upd_idem)
    with new show ?thesis by (simp add: create_symlink_def fs_return_def fs_bind_def)
  next
    case (Some n)
    then have "path_exists ?G ?l" "n \<noteq> DirNode" using assms(2) path_exists_mono F(5) by auto
    moreover have "remove_file ?l ?G = Inr (?G(?l := None), Inr ())"
      using Some F(4) \<open>n \<noteq> DirNode\<close> by (cases n) (simp_all add: remove_file_def fs_return_def)
    ultimately show ?thesis using new by (simp add: create_symlink_def)
  qed
qed

lemma linked_found:
  assumes "start_ok api fs d record" "record_from_json api (record_to_json api record) = Inr record"
    and "ar_version record = pkg_version api"
  shows "ServerDir_open api d (linked_fs api fs d record) =
           Inr (linked_fs api fs d record, Inr \<lparr>sd_path = start_dir api d record\<rparr>)" (is ?open)
    and "read_access_record api \<lparr>sd_path = start_dir api d record\<rparr> (linked_fs api fs d record) =
           Inr (linked_fs api fs d record, Inr record)" (is ?read)
proof -
  let ?H = "linked_fs api fs d record" and ?S = "start_dir api d record"
  note D = start_okD [OF assms(1)] and F = stored_facts [OF assms(1)] and L = link_differs [OF assms(1)]
  have H: "?H (current_link d) = Some (LinkNode ?S)" "?H ?S = Some DirNode"
    "?H (?S @ ''/'' @ ACCESS_FILE) = Some (FileNode (record_to_json api record) 256)"
    using F L by (simp_all add: linked_fs_def)
  show ?open by (rule ServerDir_open_linked [OF D(1,7) H(1,2)])
  have "open_file (?S @ ''/'' @ ACCESS_FILE) ?H = Inr (?H, Inr (Some (record_to_json api record)))"
    using H(3) by (simp add: open_file_def canonicalize_simps fs_return_def)
  then have "load_access_file api (?S @ ''/'' @ ACCESS_FILE) ?H = Inr (?H, Inr record)"
    using assms(2) by (simp add: load_access_file_def fs_return_def)
  then show ?read
    using assms(3) path_join_ok [OF D(7) api_names(2)]
    by (simp add: read_access_record_def access_filename_def fs_return_def)
qed

text \<open>
  Claim C12. Provided a free name for the directory of the start, an absent link or one that leads
  somewhere, and a JSON text that is read back as it was written, a start creates its directory;
  then a client that opens the server directory is connected with exactly the stored record, the
  status of the server is online if and only if it can be reached, and a further
  \<^verbatim>\<open>hq server start\<close> that reaches it is refused without touching the directory.
\<close>

theorem started_server_found:
  assumes "start_ok api fs d record" "record_from_json api (record_to_json api record) = Inr record"
    and "ar_version record = pkg_version api"
    and "fs (current_link d) = None \<or> path_exists fs (current_link d) \<and> fs (current_link d) \<noteq> Some DirNode"
    and "connect record = Inr c" and "server_dir gs = d"
  shows "\<exists>fs'. ServerDir_create api d record fs = Inr (fs', Inr \<lparr>sd_path = start_dir api d record\<rparr>) \<and>
    get_client_connection api connect d fs' = Inr (fs', Inr c) \<and>
    get_server_status api connect d fs' = Inr (fs', Inr (Online record)) \<and>
    get_server_status api (\<lambda>_. Inl e :: HqError + 'c) d fs' = Inr (fs', Inr (Offline record)) \<and>
    (\<exists>message. init_hq_server api connect fmt gs cfg up run fs' = Inr (fs', Inl [message]))"
proof -
  note found = linked_found [OF assms(1-3)]
  have "ServerDir_create api d record fs =
      Inr (linked_fs api fs d record, Inr \<lparr>sd_path = start_dir api d record\<rparr>)"
    using create_symlink_stored [OF assms(1,4)] by (simp add: ServerDir_create_stored [OF assms(1)] fs_return_def)
  moreover have online: "get_server_status api connect d (linked_fs api fs d record) =
      Inr (linked_fs api fs d record, Inr (Online record))"
    using found assms(5) by (simp add: get_server_status_def fs_return_def)
  moreover have "get_server_status api (\<lambda>_. Inl e) d (linked_fs api fs d record) =
      Inr (linked_fs api fs d record, Inr (Offline record))"
    using found by (simp add: get_server_status_def fs_return_def)
  moreover have "get_client_connection api connect d (linked_fs api fs d record) =
      Inr (linked_fs api fs d record, Inr c)"
    using found assms(5) by (simp add: get_client_connection_def with_context_def fs_return_def fs_bind_def)
  moreover have "\<exists>message. init_hq_server api connect fmt gs cfg up run (linked_fs api fs d record) =
      Inr (linked_fs api fs d record, Inl [message])"
    using online assms(6) by (simp add: init_hq_server_def fs_error_def)
  ultimately show ?thesis by blast
qed

definition sample_record :: AccessRecord where
  "sample_record =
     \<lparr>ar_version = ''0.6'', ar_host = ''localhost'', ar_pid = 42, ar_server_port = 9000, ar_worker_port = 9001,
      ar_start_date = 7, ar_hq_secret_key = [1], ar_tako_secret_key = [2]\<rparr>"

definition sample_api :: ServerDirApi where
  "sample_api =
     \<lparr>pkg_version = ''0.6'', record_to_json = ar_host,
      record_from_json = (\<lambda>t. if t = ''localhost'' then Inr sample_record else Inl ''expected value''),
      date_format = (\<lambda>_. ''2021-10-01''), date_display = (\<lambda>_. ''2021''), path_debug = (\<lambda>p. p),
      process_dir = Some ''/''\<rparr>"

definition sample_fs :: "Node option \<Rightarrow> fs" where
  "sample_fs link =
     (\<lambda>p. if p = ''/'' \<or> p = ''/s'' then Some DirNode else if p = ''/s/hq-current'' then link else None)"

lemma sample_start_ok: "start_ok sample_api (sample_fs link) ''/s'' sample_record"
proof -
  have "dir_prefixes ''/s/2021-10-01'' = [''/s'', ''/s/2021-10-01'']" by (simp add: dir_prefixes_def upt_rec)
  then show ?thesis
    by (simp add: start_ok_def sample_api_def sample_fs_def dir_ok_def name_ok_def SYMLINK_PATH_def ACCESS_FILE_def)
qed

theorem started_server_found_witness:
  "\<exists>fs'. ServerDir_create sample_api ''/s'' sample_record (sample_fs None) =
       Inr (fs', Inr \<lparr>sd_path = ''/s/2021-10-01''\<rparr>) \<and>
     get_client_connection sample_api (\<lambda>_. Inr ()) ''/s'' fs' = Inr (fs', Inr ()) \<and>
     get_server_status sample_api (\<lambda>_. Inr ()) ''/s'' fs' = Inr (fs', Inr (Online sample_record))"
proof -
  have "record_from_json sample_api (record_to_json sample_api sample_record) = Inr sample_record"
    "ar_version sample_record = pkg_version sample_api" "sample_fs None (current_link ''/s'') = None"
    "start_dir sample_api ''/s'' sample_record = ''/s/2021-10-01''"
    by (simp_all add: sample_api_def sample_record_def sample_fs_def current_link_def SYMLINK_PATH_def start_dir_def)
  then show ?thesis
    using started_server_found [OF sample_start_ok [of None], where connect = "\<lambda>_. Inr ()" and c = "()" and
        gs = "GlobalSettings_new ''/s'' AutoColor"]
    by (fastforce simp: GlobalSettings_new_def)
qed

text \<open>
  Claim C36. A link that was left behind and whose target is gone prevents every start:
  \<^verbatim>\<open>create_symlink\<close> asks \<^verbatim>\<open>exists()\<close>, which follows the link, does not remove it, and
  the new link cannot be made. The start ends with "File exists", after it has written its own
  directory, and leaves the dangling link where it was for the next start.
\<close>

theorem dangling_symlink_blocks_start:
  assumes "start_ok api fs (server_dir gs) record"
    and "fs (current_link (server_dir gs)) = Some (LinkNode t)" and "stored api fs (server_dir gs) record t = None"
    and "up_client_port up = Inr server_port" and "up_worker_port up = Inr worker_port"
    and "record = AccessRecord_new api (up_now up) (up_pid up) (sc_host cfg) server_port worker_port
           (fst (up_keys up)) (snd (up_keys up))"
  shows "start_server api fmt gs cfg up run fs =
           Inr (stored api fs (server_dir gs) record, Inl [''File exists (os error 17)'']) \<and>
         stored api fs (server_dir gs) record (current_link (server_dir gs)) = Some (LinkNode t)"
proof
  let ?G = "stored api fs (server_dir gs) record"
  show link: "?G (current_link (server_dir gs)) = Some (LinkNode t)"
    using stored_facts(4) [OF assms(1)] assms(2) by simp
  then have "\<not> path_exists ?G (current_link (server_dir gs))"
    using assms(3) by (simp add: path_exists_def canonicalize_simps)
  then have "create_symlink (current_link (server_dir gs)) (start_dir api (server_dir gs) record) ?G = Inr (?G, Inl EEXIST)"
    using link by (simp add: create_symlink_def symlink_def fs_return_def fs_error_def fs_bind_def)
  then have "ServerDir_create api (server_dir gs) record fs = Inr (?G, Inl EEXIST)"
    by (simp add: ServerDir_create_stored [OF assms(1)])
  then show "start_server api fmt gs cfg up run fs = Inr (?G, Inl [''File exists (os error 17)''])"
    using assms(4,5)
    by (simp add: start_server_def initialize_server_def assms(6) [symmetric] with_context_def fs_bind_def EEXIST_def)
qed

definition sample_startup :: Startup where
  "sample_startup =
     \<lparr>up_client_port = Inr 9000, up_keys = ([1], [2]), up_worker_port = Inr 9001, up_now = 7, up_pid = 42\<rparr>"

theorem dangling_symlink_blocks_start_witness:
  "\<exists>fs'. \<forall>(fmt :: unit Formats) (run :: (unit, unit) State \<Rightarrow> ServerEnd).
     start_server sample_api fmt (GlobalSettings_new ''/s'' AutoColor)
       \<lparr>sc_host = ''localhost'', sc_idle_timeout = None, sc_autoalloc_interval = None\<rparr> sample_startup run
       (sample_fs (Some (LinkNode ''/s/2020''))) = Inr (fs', Inl [''File exists (os error 17)''])"
proof -
  let ?fs = "sample_fs (Some (LinkNode ''/s/2020''))" and ?gs = "GlobalSettings_new ''/s'' AutoColor"
  have "dir_prefixes ''/s/2021-10-01'' = [''/s'', ''/s/2021-10-01'']" by (simp add: dir_prefixes_def upt_rec)
  then have "stored sample_api ?fs (server_dir ?gs) sample_record ''/s/2020'' = None"
    by (simp add: stored_def with_dirs_def start_dir_def sample_api_def sample_fs_def GlobalSettings_new_def ACCESS_FILE_def)
  moreover have "?fs (current_link (server_dir ?gs)) = Some (LinkNode ''/s/2020'')"
    by (simp add: sample_fs_def current_link_def SYMLINK_PATH_def GlobalSettings_new_def)
  moreover have "start_ok sample_api ?fs (server_dir ?gs) sample_record"
    using sample_start_ok by (simp add: GlobalSettings_new_def)
  ultimately show ?thesis
    using dangling_symlink_blocks_start [of sample_api ?fs ?gs sample_record "''/s/2020''" sample_startup 9000 9001
        "\<lparr>sc_host = ''localhost'', sc_idle_timeout = None, sc_autoalloc_interval = None\<rparr>"]
    by (auto simp: sample_startup_def AccessRecord_new_def sample_record_def sample_api_def)
qed

end
