(* ===== verification/ClientSubmit.thy ===== *)
theory ClientSubmit
  imports ClientCommands
begin

text \<open>
  Submitting and waiting: \<^verbatim>\<open>src/src/client/commands/submit.rs\<close> and
  \<^verbatim>\<open>src/src/client/commands/wait.rs\<close>. Waiting polls the server and may not return, which is
  the value \<open>None\<close>. The lemmas show that the lines of a file become the
  entries of the tasks, that every request is answered by a message of the type its command
  expects, and that waiting returns with the result of the jobs once they have ended.
\<close>

section \<open>Waiting\<close>

definition add_count :: "JobTaskCount \<Rightarrow> string \<Rightarrow> Color \<Rightarrow> Text list" where
  "add_count cnt name color = (if cnt > 0 then [[Plain (show_u32 cnt @ '' ''), Colored color name]] else [])"

fun join_texts :: "Text \<Rightarrow> Text list \<Rightarrow> Text" where
  "join_texts sep [] = []"
| "join_texts sep [t] = t"
| "join_texts sep (t # ts) = t @ sep @ join_texts sep ts"

definition wait_status :: "JobTaskCounters \<Rightarrow> Text" where
  "wait_status polled =
     (let statuses =
        add_count (n_running_tasks polled) ''RUNNING'' TASK_COLOR_RUNNING @
        add_count (n_finished_tasks polled) ''FINISHED'' TASK_COLOR_FINISHED @
        add_count (n_failed_tasks polled) ''FAILED'' TASK_COLOR_FAILED @
        add_count (n_canceled_tasks polled) ''CANCELED'' TASK_COLOR_CANCELED in
      if statuses \<noteq> [] then [Plain ''(''] @ join_texts [Plain '', ''] statuses @ [Plain '')''] else [Plain []])"

definition wait_line :: "JobTaskCounters \<Rightarrow> nat \<Rightarrow> nat \<Rightarrow> JobTaskCount \<Rightarrow> Output" where
  "wait_line polled completed_jobs total_jobs total_tasks =
     (let completed_tasks = n_finished_tasks polled + n_canceled_tasks polled + n_failed_tasks polled in
      Print ([Plain ([CHR 0x0D, CHR 0x1B] @ ''[2K'')] @ job_progress_bar polled total_tasks 40 @
        [Plain ('' '' @ show_nat completed_jobs @ ''/'' @ show_nat total_jobs @ '' jobs, '' @
           show_u32 completed_tasks @ ''/'' @ show_u32 total_tasks @ '' tasks '')] @ wait_status polled))"

text \<open>The loop over the answered jobs: the current counters, those of ended jobs, the remaining jobs.\<close>

fun poll_jobs ::
  "'rr JobInfo list \<Rightarrow> JobTaskCounters \<times> JobTaskCounters \<times> JobId list \<Rightarrow>
   JobTaskCounters \<times> JobTaskCounters \<times> JobId list" where
  "poll_jobs [] s = s"
| "poll_jobs (job # infos) (polled, counters, remaining) =
     poll_jobs infos
       (if info_is_terminated job
        then (JobTaskCounters_add polled (ji_counters job), JobTaskCounters_add counters (ji_counters job),
              removeAll (ji_id job) remaining)
        else (JobTaskCounters_add polled (ji_counters job), counters, remaining))"

text \<open>
  One round after another; the set of remaining jobs is a list without repetitions. \<open>None\<close> is a
  loop that never ends.
\<close>

partial_function (option) wait_loop ::
  "('c, 'rr) ClientEnv \<Rightarrow> nat \<Rightarrow> JobTaskCount \<Rightarrow> JobTaskCounters \<Rightarrow> JobId list \<Rightarrow> Output list \<Rightarrow> 'c \<Rightarrow>
   ('c \<times> Output list \<times> (string + JobTaskCounters)) option" where
  "wait_loop env total_jobs total_tasks counters remaining out c =
     (case ce_call env c (JobInfoReq (Specific (from_ids remaining))) of
        (c, Inl e) \<Rightarrow> Some (c, out, Inl (HqError_fmt e))
      | (c, Inr msg) \<Rightarrow>
          (case as_job_info msg of
             None \<Rightarrow>
               Some (c, out, Inl (HqError_fmt (GenericError (''Received an invalid message '' @ ce_debug env msg))))
           | Some infos \<Rightarrow>
               (case poll_jobs infos (counters, counters, remaining) of
                  (polled, counters, remaining) \<Rightarrow>
                    (let out = out @ [wait_line polled (total_jobs - length remaining) total_jobs total_tasks] in
                     if remaining = [] then Some (c, out @ [Print [Plain newline]], Inr counters)
                     else wait_loop env total_jobs total_tasks counters remaining out c))))"

declare wait_loop.simps [code]

definition wait_result :: "JobTaskCounters \<Rightarrow> string + unit" where
  "wait_result counters =
     (if n_failed_tasks counters > 0 then Inl ''Some jobs have failed''
      else if n_canceled_tasks counters > 0 then Inl ''Some jobs were canceled''
      else Inr ())"

definition wait_for_jobs ::
  "('c, 'rr) ClientEnv \<Rightarrow> 'rr JobInfo list \<Rightarrow> 'c \<Rightarrow> ('c \<times> Output list \<times> (string + unit)) option" where
  "wait_for_jobs env infos c =
     (let infos = filter (\<lambda>info. \<not> info_is_terminated info) infos in
      if infos = [] then Some (c, [LogWarn ''There are no jobs to wait for''], Inr ())
      else
        let total_tasks = sum_list (map ji_n_tasks infos); remaining = remdups (map ji_id infos);
            total_jobs = length remaining;
            out = [LogInfo (''Waiting for '' @ show_nat total_jobs @ '' job(s) with a '' @
              show_u32 total_tasks @ '' task(s)'')] in
        map_option (\<lambda>(c, out, r). (c, out, try_bind r wait_result))
          (wait_loop env total_jobs total_tasks counters_default remaining out c))"

text \<open>A command that goes on with waiting when it succeeds.\<close>

definition then_wait ::
  "('c, 'a) cmd \<Rightarrow> ('a \<Rightarrow> 'c \<Rightarrow> ('c \<times> Output list \<times> (string + unit)) option) \<Rightarrow> 'c \<Rightarrow>
   ('c \<times> Output list \<times> (string + unit)) outcome option" where
  "then_wait m f c =
     (case m c of
        Inl p \<Rightarrow> Some (Inl p)
      | Inr (c, out, Inl e) \<Rightarrow> Some (Inr (c, out, Inl e))
      | Inr (c, out, Inr a) \<Rightarrow> map_option (\<lambda>(c, out', r). Inr (c, out @ out', r)) (f a c))"

definition wait_for_job_with_info ::
  "('c, 'rr) ClientEnv \<Rightarrow> 'rr JobInfo \<Rightarrow> 'c \<Rightarrow> ('c \<times> Output list \<times> (string + unit)) option" where
  "wait_for_job_with_info env info = wait_for_jobs env [info]"

definition wait_for_job_with_selector ::
  "('c, 'rr) ClientEnv \<Rightarrow> Selector \<Rightarrow> 'c \<Rightarrow> ('c \<times> Output list \<times> (string + unit)) outcome option" where
  "wait_for_job_with_selector env selector =
     then_wait (rpc_call env (JobInfoReq selector) as_job_info) (wait_for_jobs env)"

section \<open>Submitting\<close>

definition SUBMIT_ARRAY_LIMIT :: JobTaskCount where "SUBMIT_ARRAY_LIMIT = 999"
definition DEFAULT_STDOUT_PATH :: path where "DEFAULT_STDOUT_PATH = ''job-%{JOB_ID}/stdout.%{TASK_ID}''"
definition DEFAULT_STDERR_PATH :: path where "DEFAULT_STDERR_PATH = ''job-%{JOB_ID}/stderr.%{TASK_ID}''"

record ArgEnvironmentVar =
  env_key :: bstring
  env_value :: bstring

definition ArgEnvironmentVar_from_str :: "string \<Rightarrow> string + ArgEnvironmentVar" where
  "ArgEnvironmentVar_from_str s =
     (if s = [] then Inl ''Environment variable cannot be empty''
      else
        let key = takeWhile (\<lambda>ch. ch \<noteq> CHR ''='') s in
        Inr (if length key < length s
             then \<lparr>env_key = key, env_value = drop (length key + 1) s\<rparr>
             else \<lparr>env_key = s, env_value = []\<rparr>))"

definition StdioArg_from_str :: "string \<Rightarrow> string + StdioDef" where
  "StdioArg_from_str s = Inr (if s = ''none'' then Null else File s)"

record SubmitOpts =
  so_command :: string
  so_args :: "string list"
  so_cpus :: CpuRequest
  so_name :: "string option"
  so_pin :: bool
  so_cwd :: path
  so_stdout :: "StdioDef option"
  so_stderr :: "StdioDef option"
  so_env :: "ArgEnvironmentVar list"
  so_each_line :: "path option"
  so_array :: "IntArray option"
  so_max_fails :: "JobTaskCount option"
  so_priority :: int
  so_time_limit :: "nat option"
  so_wait :: bool
  so_log :: "path option"

definition resource_request :: "('c, 'rr) ClientEnv \<Rightarrow> SubmitOpts \<Rightarrow> 'rr" where
  "resource_request env opts = ce_new_request env (so_cpus opts)"

definition validate_name :: "string \<Rightarrow> string + string" where
  "validate_name name =
     (if CHR 0x0A \<in> set name \<or> CHR 0x09 \<in> set name then Inl ''name cannot have a newline or a tab''
      else if length name > 40 then Inl ''name cannot be more than 40 characters''
      else Inr name)"

text \<open>\<^verbatim>\<open>BufRead::split\<close>: the pieces between the separators, without an empty last one.\<close>

fun split_on :: "'a \<Rightarrow> 'a list \<Rightarrow> 'a list \<Rightarrow> 'a list list" where
  "split_on sep acc [] = (if acc = [] then [] else [acc])"
| "split_on sep acc (x # xs) = (if x = sep then acc # split_on sep [] xs else split_on sep (acc @ [x]) xs)"

definition string_of_bytes :: "bytes \<Rightarrow> bstring" where
  "string_of_bytes bs = map (\<lambda>b. char_of (unat b)) bs"

definition read_lines :: "('c, 'rr) ClientEnv \<Rightarrow> path \<Rightarrow> Output list \<times> (string + bstring list)" where
  "read_lines env filename =
     (case ce_files env filename of
        Inl e \<Rightarrow> ([LogInfo (''Reading file: '' @ path_display (ce_formats env) filename)], Inl e)
      | Inr content \<Rightarrow>
          (LogInfo (''Reading file: '' @ path_display (ce_formats env) filename) #
             (if length content > 100 * 2 ^ 20 then [LogWarn ''Reading file bigger then 100MB''] else []),
           Inr (map string_of_bytes (split_on 10 [] content))))"

text \<open>\<^verbatim>\<open>Path::file_name\<close>: the last component, unless there is none or it is \<^verbatim>\<open>..\<close>.\<close>

definition file_name :: "path \<Rightarrow> string option" where
  "file_name p =
     (let comps = filter (\<lambda>comp. comp \<noteq> [] \<and> comp \<noteq> ''.'') (split_on CHR ''/'' [] p) in
      if comps = [] \<or> last comps = ''..'' then None else Some (last comps))"

definition submit_job_type ::
  "('c, 'rr) ClientEnv \<Rightarrow> SubmitOpts \<Rightarrow> Output list \<times> (string + JobType \<times> bstring list option)" where
  "submit_job_type env opts =
     (case so_each_line opts of
        Some filename \<Rightarrow>
          (case read_lines env filename of
             (out, Inl e) \<Rightarrow> (out, Inl e)
           | (out, Inr lines) \<Rightarrow> (out, Inr (Array (from_range 0 (of_nat (length lines))), Some lines)))
      | None \<Rightarrow> ([], Inr (case so_array opts of Some a \<Rightarrow> Array a | None \<Rightarrow> Simple, None)))"

definition is_dir_some :: "StdioDef option \<Rightarrow> bool" where
  "is_dir_some dir = (case dir of None \<Rightarrow> True | Some x \<Rightarrow> x \<noteq> Null)"

definition files_warning :: "SubmitOpts \<Rightarrow> JobType \<Rightarrow> Output list" where
  "files_warning opts jt =
     (case jt of
        Simple \<Rightarrow> []
      | Array array \<Rightarrow>
          (let task_files = (if is_dir_some (so_stdout opts) then id_count array else 0) +
                 (if is_dir_some (so_stderr opts) then id_count array else 0);
               active_dirs = (if is_dir_some (so_stdout opts) then '' stdout'' else []) @
                 (if is_dir_some (so_stderr opts) then '' stderr'' else []) in
           if task_files > SUBMIT_ARRAY_LIMIT \<and> so_log opts = None then
             [LogWarn (''The job will create '' @ show_u32 task_files @ '' number of files for'' @ active_dirs @
                ''. You may consider using --log option to stream all outputs into one file'')]
           else []))"

definition submit_name :: "SubmitOpts \<Rightarrow> string + string" where
  "submit_name opts =
     (case so_name opts of
        Some name \<Rightarrow> validate_name name
      | None \<Rightarrow>
          Inr (case Option.bind (file_name (so_command opts)) to_str of Some s \<Rightarrow> s | None \<Rightarrow> ''job''))"

definition submit_stdio :: "StdioDef option \<Rightarrow> path option \<Rightarrow> path \<Rightarrow> StdioDef" where
  "submit_stdio arg log_path file =
     (case arg of Some x \<Rightarrow> x | None \<Rightarrow> if log_path = None then File file else Pipe)"

definition submit_env :: "ArgEnvironmentVar list \<Rightarrow> (bstring, bstring) hmap" where
  "submit_env vars = foldl (\<lambda>m v. fst (hm_insert (env_key v) (env_value v) m)) [] vars"

definition submit_request ::
  "('c, 'rr) ClientEnv \<Rightarrow> SubmitOpts \<Rightarrow> JobType \<Rightarrow> bstring list option \<Rightarrow> string \<Rightarrow> 'rr SubmitRequest outcome" where
  "submit_request env opts jt entries name =
     try_bind (unwrap (ce_current_dir env)) (\<lambda>dir.
     try_bind (unwrap (to_str dir)) (\<lambda>submit_dir.
     Inr \<lparr>sr_job_type = jt, sr_name = name, sr_max_fails = so_max_fails opts,
          sr_spec = \<lparr>pd_args = so_command opts # so_args opts, pd_env = submit_env (so_env opts),
            pd_stdout = submit_stdio (so_stdout opts) (so_log opts) DEFAULT_STDOUT_PATH,
            pd_stderr = submit_stdio (so_stderr opts) (so_log opts) DEFAULT_STDERR_PATH,
            pd_cwd = Some (so_cwd opts)\<rparr>,
          sr_resources = resource_request env opts, sr_pin = so_pin opts, sr_entries = entries,
          sr_submit_dir = submit_dir, sr_priority = so_priority opts, sr_time_limit = so_time_limit opts,
          sr_log = so_log opts\<rparr>))"

definition cmd_result :: "string + 'a \<Rightarrow> ('c, 'a) cmd" where
  "cmd_result r = (case r of Inl e \<Rightarrow> cmd_fail e | Inr a \<Rightarrow> cmd_return a)"

definition print_submitted :: "('c, 'rr) ClientEnv \<Rightarrow> 'rr JobDetail \<Rightarrow> ('c, unit) cmd" where
  "print_submitted env job =
     cmd_bind (get_worker_map env) (\<lambda>m.
       cmd_outputs (print_job_detail (ce_formats env) (ce_cpus env) (ce_settings env) job True False m))"

definition submit_job :: "('c, 'rr) ClientEnv \<Rightarrow> SubmitOpts \<Rightarrow> ('c, 'rr JobInfo) cmd" where
  "submit_job env opts =
     cmd_bind (cmd_result (case ce_validate env (resource_request env opts) of Some e \<Rightarrow> Inl e | None \<Rightarrow> Inr ())) (\<lambda>_.
     case submit_job_type env opts of (out, jt) \<Rightarrow>
     cmd_bind (cmd_print out) (\<lambda>_.
     cmd_bind (cmd_result jt) (\<lambda>(job_type, entries).
     cmd_bind (cmd_print (files_warning opts job_type)) (\<lambda>_.
     cmd_bind (cmd_result (submit_name opts)) (\<lambda>name.
     cmd_bind (cmd_print
       (if length (submit_env (so_env opts)) \<noteq> length (so_env opts) then
          [LogWarn (''Some environment variables were ignored. Check if you haven'' @ [CHR 0x27] @
             ''t used duplicate keys.'')]
        else [])) (\<lambda>_.
     cmd_bind (cmd_lift (submit_request env opts job_type entries name)) (\<lambda>request.
     cmd_bind (rpc_call env (Submit request) as_submit) (\<lambda>job.
     cmd_bind (print_submitted env job) (\<lambda>_.
     cmd_return (jd_info job))))))))))"

definition submit_computation ::
  "('c, 'rr) ClientEnv \<Rightarrow> SubmitOpts \<Rightarrow> 'c \<Rightarrow> ('c \<times> Output list \<times> (string + unit)) outcome option" where
  "submit_computation env opts =
     then_wait (submit_job env opts)
       (\<lambda>info c. if so_wait opts then wait_for_job_with_info env info c else Some (c, [], Inr ()))"

record ResubmitOpts =
  ro_job_id :: JobId
  ro_status :: "Status list option"

definition resubmit_computation :: "('c, 'rr) ClientEnv \<Rightarrow> ResubmitOpts \<Rightarrow> ('c, unit) cmd" where
  "resubmit_computation env opts =
     cmd_bind (rpc_call env (Resubmit \<lparr>rr_job_id = ro_job_id opts, rr_status = ro_status opts\<rparr>) as_submit)
       (print_submitted env)"

section \<open>Waiting returns\<close>

text \<open>Counters add up as a commutative monoid; the library gives sums over finite sets of jobs.\<close>

interpretation counters: comm_monoid_set JobTaskCounters_add counters_default
  by unfold_locales (simp_all add: JobTaskCounters_add_def counters_default_def ac_simps)

definition ended_ids :: "'rr JobInfo list \<Rightarrow> JobId set" where
  "ended_ids infos = ji_id ` set (filter info_is_terminated infos)"

lemma poll_jobs_eq:
  "\<exists>polled'. poll_jobs infos (polled, counters, remaining) =
     (polled', foldl JobTaskCounters_add counters (map ji_counters (filter info_is_terminated infos)),
      filter (\<lambda>i. i \<notin> ended_ids infos) remaining)"
proof (induction infos arbitrary: polled counters remaining)
  case (Cons job infos)
  let ?polled = "JobTaskCounters_add polled (ji_counters job)"
  have "filter (\<lambda>i. i \<notin> ended_ids infos) (removeAll (ji_id job) remaining) =
      filter (\<lambda>i. i \<notin> ended_ids (job # infos)) remaining" if "info_is_terminated job"
    unfolding removeAll_filter_not_eq filter_filter
    using that by (intro filter_cong) (auto simp: ended_ids_def)
  then show ?case
    using Cons [of ?polled "JobTaskCounters_add counters (ji_counters job)" "removeAll (ji_id job) remaining"]
      Cons [of ?polled counters remaining]
    by (cases "info_is_terminated job") (simp_all add: ended_ids_def)
qed (simp add: ended_ids_def)

lemma foldl_counters:
  "distinct xs \<Longrightarrow> foldl JobTaskCounters_add c (map g xs) = JobTaskCounters_add c (counters.F g (set xs))"
  by (induction xs arbitrary: c) (simp_all add: counters.assoc)

text \<open>
  A server that is polled, by the number of the request: \<open>view\<close> is the information on a job that it
  answers with, \<open>final\<close> the counters of a job that has ended.
\<close>

definition polled_server ::
  "(nat, 'rr) ClientEnv \<Rightarrow> JobId set \<Rightarrow> (nat \<Rightarrow> JobId \<Rightarrow> 'rr JobInfo) \<Rightarrow> (JobId \<Rightarrow> JobTaskCounters) \<Rightarrow> bool" where
  "polled_server ce ids view final \<longleftrightarrow>
     (\<forall>n remaining. distinct remaining \<and> set remaining \<subseteq> ids \<longrightarrow>
        (\<exists>xs. mset xs = mset remaining \<and>
          ce_call ce n (JobInfoReq (Specific (from_ids remaining))) =
            (Suc n, Inr (JobInfoResponse (map (view n) xs))))) \<and>
     (\<forall>n. \<forall>i \<in> ids. ji_id (view n i) = i \<and>
        (info_is_terminated (view n i) \<longrightarrow>
           ji_counters (view n i) = final i \<and> info_is_terminated (view (Suc n) i)))"

lemma polled_round:
  fixes n :: nat
  assumes "polled_server ce ids view final" "distinct remaining" "set remaining \<subseteq> ids"
  defines "rest \<equiv> filter (\<lambda>i. \<not> info_is_terminated (view n i)) remaining"
    and "ended \<equiv> {i \<in> set remaining. info_is_terminated (view n i)}"
  shows "\<exists>line. wait_loop ce jobs_total tasks_total cnt remaining out n =
    (if rest = [] then
       Some (Suc n, out @ [line] @ [Print [Plain newline]], Inr (JobTaskCounters_add cnt (counters.F final ended)))
     else wait_loop ce jobs_total tasks_total (JobTaskCounters_add cnt (counters.F final ended)) rest
       (out @ [line]) (Suc n))"
proof -
  obtain xs where xs: "mset xs = mset remaining" and
    call: "ce_call ce n (JobInfoReq (Specific (from_ids remaining))) = (Suc n, Inr (JobInfoResponse (map (view n) xs)))"
    using assms(1-3) unfolding polled_server_def by blast
  have d: "distinct xs" "set xs = set remaining"
    using xs assms(2) by (metis mset_eq_imp_distinct_iff, metis mset_eq_setD)
  have v: "ji_id (view n i) = i" "info_is_terminated (view n i) \<Longrightarrow> ji_counters (view n i) = final i"
    if "i \<in> set remaining" for i
    using assms(1,3) that unfolding polled_server_def by blast+
  let ?ys = "filter (\<lambda>i. info_is_terminated (view n i)) xs"
  have f: "filter info_is_terminated (map (view n) xs) = map (view n) ?ys" by (simp add: filter_map o_def)
  have e: "set ?ys = ended" using d(2) by (auto simp: ended_def)
  have "ended_ids (map (view n) xs) = (\<lambda>i. ji_id (view n i)) ` ended"
    unfolding ended_ids_def f e [symmetric] set_map image_image ..
  also have "\<dots> = ended" using v(1) by (auto simp: ended_def image_iff)
  finally have rest: "filter (\<lambda>i. i \<notin> ended_ids (map (view n) xs)) remaining = rest"
    unfolding rest_def by (intro filter_cong) (auto simp: ended_def)
  have "foldl JobTaskCounters_add cnt (map ji_counters (map (view n) ?ys)) =
      JobTaskCounters_add cnt (counters.F (\<lambda>i. ji_counters (view n i)) ended)"
    using foldl_counters [of ?ys cnt "\<lambda>i. ji_counters (view n i)"] d(1) e by (simp add: o_def)
  also have "counters.F (\<lambda>i. ji_counters (view n i)) ended = counters.F final ended"
    using v(2) by (intro counters.cong) (auto simp: ended_def)
  finally obtain polled' where "poll_jobs (map (view n) xs) (cnt, cnt, remaining) =
      (polled', JobTaskCounters_add cnt (counters.F final ended), rest)"
    using poll_jobs_eq [of "map (view n) xs" cnt cnt remaining] unfolding f rest by auto
  then show ?thesis by (subst wait_loop.simps) (auto simp: call Let_def)
qed

lemma wait_loop_returns:
  assumes "polled_server ce ids view final" "\<forall>i \<in> ids. info_is_terminated (view T i)"
  shows "T \<le> n + k \<Longrightarrow> distinct remaining \<Longrightarrow> set remaining \<subseteq> ids \<Longrightarrow>
    \<exists>n' out'. wait_loop ce jobs_total tasks_total cnt remaining out n =
      Some (n', out', Inr (JobTaskCounters_add cnt (counters.F final (set remaining))))"
proof (induction k arbitrary: n cnt remaining out)
  case 0
  have "info_is_terminated (view m i)" if "T \<le> m" "i \<in> ids" for m i
    using that(1) assms that(2) by (induction m rule: dec_induct) (auto simp: polled_server_def)
  then have "\<forall>i \<in> set remaining. info_is_terminated (view n i)" using 0 by auto
  then have "filter (\<lambda>i. \<not> info_is_terminated (view n i)) remaining = []"
    "{i \<in> set remaining. info_is_terminated (view n i)} = set remaining" by auto
  then show ?case using polled_round [OF assms(1) 0(2,3), where n = n] by (metis (no_types, lifting))
next
  case (Suc k)
  let ?rest = "filter (\<lambda>i. \<not> info_is_terminated (view n i)) remaining"
  let ?ended = "{i \<in> set remaining. info_is_terminated (view n i)}"
  have split: "counters.F final (set remaining) = JobTaskCounters_add (counters.F final ?ended) (counters.F final (set ?rest))"
  proof -
    have "set remaining = ?ended \<union> set ?rest" "?ended \<inter> set ?rest = {}" by auto
    then show ?thesis using counters.union_disjoint [of ?ended "set ?rest" final] by simp
  qed
  obtain line where r: "wait_loop ce jobs_total tasks_total cnt remaining out n =
    (if ?rest = [] then
       Some (Suc n, out @ [line] @ [Print [Plain newline]], Inr (JobTaskCounters_add cnt (counters.F final ?ended)))
     else wait_loop ce jobs_total tasks_total (JobTaskCounters_add cnt (counters.F final ?ended)) ?rest
       (out @ [line]) (Suc n))"
    using polled_round [OF assms(1) Suc(3,4), where n = n] by blast
  show ?case
  proof (cases "?rest = []")
    case True
    then have "counters.F final (set remaining) = counters.F final ?ended" unfolding split by simp
    with r True show ?thesis by (auto simp del: filter_empty_conv)
  next
    case False
    have "T \<le> Suc n + k" "distinct ?rest" "set ?rest \<subseteq> ids" using Suc(2-4) by auto
    from Suc(1) [OF this, of "JobTaskCounters_add cnt (counters.F final ?ended)" "out @ [line]"]
    show ?thesis unfolding r split using False by (auto simp: counters.assoc)
  qed
qed

text \<open>The server of the model under polling: one state of the server for every request.\<close>

definition served_by :: "('rr, 'q) Env \<Rightarrow> date \<Rightarrow> (nat \<Rightarrow> ('rr, 'q) State) \<Rightarrow> (nat, 'rr) ClientEnv \<Rightarrow> bool" where
  "served_by env now sts ce \<longleftrightarrow>
     (\<forall>n msg. ce_call ce n msg =
        (Suc n, case handle_message env now msg (sts n) of
           Some (Inr (_, r, _)) \<Rightarrow> Inr r
         | _ \<Rightarrow> Inl (GenericError ''Expected response was not received'')))"

text \<open>
  Jobs that stay registered, whose identifiers are below the largest one and whose counters stay
  once no task is open.
\<close>

definition jobs_settle :: "(nat \<Rightarrow> ('rr, 'q) State) \<Rightarrow> JobId set \<Rightarrow> (nat \<Rightarrow> JobId \<Rightarrow> 'rr Job) \<Rightarrow> bool" where
  "jobs_settle sts ids job \<longleftrightarrow>
     (\<forall>i \<in> ids. unat i + 1 < 2 ^ 32) \<and>
     (\<forall>n. \<forall>i \<in> ids. get_job (sts n) i = Some (job n i) \<and> job_id (job n i) = i \<and>
        (info_is_terminated (make_job_info (job n i)) \<longrightarrow>
           job_counters (job (Suc n) i) = job_counters (job n i) \<and> n_tasks (job (Suc n) i) = n_tasks (job n i)))"

lemma map_filter_all: "(\<And>x. x \<in> set xs \<Longrightarrow> f x = Some (g x)) \<Longrightarrow> List.map_filter f xs = map g xs"
  by (induction xs) (simp_all add: List.map_filter_simps)

lemma served_polled:
  assumes "served_by env now sts ce" "jobs_settle sts ids job"
    and "\<forall>i \<in> ids. info_is_terminated (make_job_info (job T i))"
  shows "polled_server ce ids (\<lambda>n i. make_job_info (job n i)) (\<lambda>i. job_counters (job T i))"
proof -
  have settled: "info_is_terminated (make_job_info (job (Suc n) i))"
    "job_counters (job (Suc n) i) = job_counters (job n i)"
    if "info_is_terminated (make_job_info (job n i))" "i \<in> ids" for n i
    using assms(2) that by (auto simp: jobs_settle_def info_is_terminated_def make_job_info_def)
  have later: "info_is_terminated (make_job_info (job m i)) \<and> job_counters (job m i) = job_counters (job n i)"
    if "n \<le> m" "info_is_terminated (make_job_info (job n i))" "i \<in> ids" for n m i
    using that settled by (induction m rule: dec_induct) auto
  have final: "job_counters (job n i) = job_counters (job T i)"
    if "info_is_terminated (make_job_info (job n i))" "i \<in> ids" for n i
    using later [of n T i] later [of T n i] that assms(3) by (metis linorder_le_cases)
  have "\<exists>xs. mset xs = mset remaining \<and>
      ce_call ce n (JobInfoReq (Specific (from_ids remaining))) =
        (Suc n, Inr (JobInfoResponse (map (\<lambda>i. make_job_info (job n i)) xs)))"
    if r: "set remaining \<subseteq> ids" for n remaining
  proof -
    obtain xs where xs: "IntArray_iter (from_ids remaining) = Inr xs" "mset xs = mset remaining"
      using from_ids_ids [of remaining] assms(2) r by (auto simp: jobs_settle_def)
    have "set xs \<subseteq> ids" using mset_eq_setD [OF xs(2)] r by simp
    then have "List.map_filter (get_job (sts n)) xs = map (job n) xs"
      using assms(2) by (intro map_filter_all) (auto simp: jobs_settle_def)
    then show ?thesis using assms(1) xs
      by (auto simp: served_by_def handle_message_def compute_job_info_def intro!: exI [of _ xs])
  qed
  then show ?thesis
    using assms(2) settled final by (auto simp: polled_server_def jobs_settle_def make_job_info_def)
qed

lemma counters_sum:
  assumes "finite A"
  shows "n_failed_tasks (counters.F f A) = (\<Sum>i\<in>A. n_failed_tasks (f i))"
    and "n_canceled_tasks (counters.F f A) = (\<Sum>i\<in>A. n_canceled_tasks (f i))"
  using assms by (induction A) (simp_all add: counters_default_def, simp_all add: JobTaskCounters_add_def)

lemma unat_sum_u32:
  fixes g :: "'a \<Rightarrow> u32"
  assumes "finite A" "(\<Sum>i\<in>A. unat (g i)) < 2 ^ 32"
  shows "unat (\<Sum>i\<in>A. g i) = (\<Sum>i\<in>A. unat (g i))"
  using assms
proof (induction A)
  case (insert x A)
  have "unat (g x + (\<Sum>i\<in>A. g i)) = unat (g x) + unat (\<Sum>i\<in>A. g i)"
    using insert by (intro unat_add_lem [THEN iffD1]) simp
  then show ?case using insert by simp
qed simp

lemma sum_u32_pos:
  fixes g :: "'a \<Rightarrow> u32"
  assumes "finite A" "(\<Sum>i\<in>A. unat (g i)) < 2 ^ 32"
  shows "(\<Sum>i\<in>A. g i) > 0 \<longleftrightarrow> (\<exists>i \<in> A. g i > 0)"
proof -
  have "(\<Sum>i\<in>A. g i) = 0 \<longleftrightarrow> unat (\<Sum>i\<in>A. g i) = 0" by (simp only: unat_eq_0)
  also have "\<dots> \<longleftrightarrow> (\<forall>i\<in>A. unat (g i) = 0)" unfolding unat_sum_u32 [OF assms] using assms(1) by simp
  finally show ?thesis by (auto simp: word_gt_0 unat_eq_0)
qed

text \<open>
  Waiting returns, with the right result. When a client waits for jobs that have not ended,
  polls a server that answers as the model does, and the jobs have ended at some time (from which
  on their counters stay), then the loop ends, and the command fails exactly when one of the jobs
  has a failed task or, otherwise, a canceled one.
\<close>

lemma wait_returns_result:
  fixes T :: nat
  defines "cs job i \<equiv> job_counters (job T i)"
  assumes "served_by env now sts ce"
    and "ids = ji_id ` set (filter (\<lambda>info. \<not> info_is_terminated info) infos)" "ids \<noteq> {}"
    and "jobs_settle sts ids job" "\<forall>i \<in> ids. info_is_terminated (make_job_info (job T i))"
    and "(\<Sum>i\<in>ids. unat (n_failed_tasks (cs job i))) < 2 ^ 32" "(\<Sum>i\<in>ids. unat (n_canceled_tasks (cs job i))) < 2 ^ 32"
  shows "\<exists>n' out. wait_for_jobs ce infos n = Some (n', out,
    (if \<exists>i \<in> ids. n_failed_tasks (cs job i) > 0 then Inl ''Some jobs have failed''
     else if \<exists>i \<in> ids. n_canceled_tasks (cs job i) > 0 then Inl ''Some jobs were canceled''
     else Inr ()))"
proof -
  let ?open = "filter (\<lambda>info. \<not> info_is_terminated info) infos"
  let ?rem = "remdups (map ji_id ?open)"
  have r: "set ?rem = ids" "distinct ?rem" "finite ids" "?open \<noteq> []"
    using assms(3,4) by (auto simp: filter_empty_conv)
  note p = served_polled [OF assms(2,5,6)]
  let ?total = "counters.F (cs job) ids"
  have "\<exists>n' out'. wait_loop ce (length ?rem) (sum_list (map ji_n_tasks ?open)) counters_default ?rem out n =
      Some (n', out', Inr ?total)" for out
    using wait_loop_returns [OF p assms(6), of n T ?rem _ _ counters_default out] r
    by (simp add: cs_def)
  then have "\<exists>n' out. wait_for_jobs ce infos n = Some (n', out, wait_result ?total)"
    unfolding wait_for_jobs_def Let_def using r(4) by (fastforce simp del: filter_empty_conv)
  moreover have "wait_result ?total =
    (if \<exists>i \<in> ids. n_failed_tasks (cs job i) > 0 then Inl ''Some jobs have failed''
     else if \<exists>i \<in> ids. n_canceled_tasks (cs job i) > 0 then Inl ''Some jobs were canceled''
     else Inr ())"
    unfolding wait_result_def counters_sum [OF r(3)] sum_u32_pos [OF r(3) assms(7)] sum_u32_pos [OF r(3) assms(8)] ..
  ultimately show ?thesis by simp
qed

definition example_formats :: "unit Formats" where
  "example_formats =
     \<lparr>stdout_ok = True, path_display = id, bstr_display = id, format_duration = show_nat,
      num_hours = (\<lambda>d. d div 3600000000000), num_minutes = (\<lambda>d. d div 60000000000),
      num_seconds = (\<lambda>d. d div 1000000000), num_milliseconds = (\<lambda>d. d div 1000000),
      date_seconds = show_int, resource_summary = (\<lambda>r. show_nat (length (cpus r))),
      resource_describe = (\<lambda>r. show_nat (length (cpus r))), manager_from_json = (\<lambda>_. None)\<rparr>"

definition serving :: "('rr, 'q) Env \<Rightarrow> (nat \<Rightarrow> ('rr, 'q) State) \<Rightarrow> nat \<Rightarrow> 'rr FromClientMessage \<Rightarrow>
    nat \<times> (HqError + 'rr ToClientMessage)" where
  "serving env sts n msg =
     (Suc n, case handle_message env 500 msg (sts n) of
        Some (Inr (_, r, _)) \<Rightarrow> Inr r
      | _ \<Rightarrow> Inl (GenericError ''Expected response was not received''))"

definition example_client :: "(nat \<Rightarrow> (unit, unit) State) \<Rightarrow> (nat, unit) ClientEnv" where
  "example_client sts =
     \<lparr>ce_call = serving example_env sts, ce_send = (\<lambda>n _. (Suc n, Inr ())), ce_debug = (\<lambda>_. ''?''),
      ce_formats = example_formats, ce_settings = GlobalSettings_new ''/hq'' Never,
      ce_new_request = (\<lambda>_. ()), ce_cpus = (\<lambda>_. AllCpus), ce_validate = (\<lambda>_. None),
      ce_files = (\<lambda>p. if p = ''in'' then Inr [97, 10, 98, 98, 10] else Inl ''No such file''),
      ce_current_dir = Some ''/home/u''\<rparr>"

text \<open>The job has a running and a waiting task in the first two rounds; then one has failed.\<close>

definition example_ended_job :: "unit Job" where
  "example_ended_job = example_job\<lparr>
     job_counters := \<lparr>n_running_tasks = 0, n_finished_tasks = 1, n_failed_tasks = 1, n_canceled_tasks = 1\<rparr>,
     job_state := ManyTasks
       [(10, \<lparr>info_state = Finished 7 110 120, info_task_id = 5\<rparr>),
        (11, \<lparr>info_state = Failed 7 100 105 ''exit'', info_task_id = 6\<rparr>),
        (12, \<lparr>info_state = Canceled, info_task_id = 7\<rparr>)]\<rparr>"

definition example_jobs :: "nat \<Rightarrow> JobId \<Rightarrow> unit Job" where
  "example_jobs n i = (if n < 2 then example_job else example_ended_job)"

definition example_states :: "nat \<Rightarrow> (unit, unit) State" where
  "example_states n = example_server\<lparr>jobs := [(1, example_jobs n 1)]\<rparr>"

lemma example_waiting:
  "served_by example_env 500 example_states (example_client example_states)"
  "jobs_settle example_states {1} example_jobs"
  "\<not> info_is_terminated (make_job_info example_job)" "info_is_terminated (make_job_info example_ended_job)"
  "ji_id (make_job_info example_job) = 1"
proof -
  show o: "\<not> info_is_terminated (make_job_info example_job)" "info_is_terminated (make_job_info example_ended_job)"
    by code_simp+
  have "job_id example_job = 1" "job_id example_ended_job = 1"
    by (simp_all add: example_ended_job_def example_job_def)
  then show "ji_id (make_job_info example_job) = 1" "jobs_settle example_states {1} example_jobs"
    using o(1)
    by (auto simp: jobs_settle_def get_job_def example_states_def example_jobs_def less_Suc_eq make_job_info_def)
  show "served_by example_env 500 example_states (example_client example_states)"
    by (simp add: served_by_def example_client_def serving_def)
qed

section \<open>Submitting lines\<close>

lemma split_on_append:
  "sep \<notin> set xs \<Longrightarrow> split_on sep acc (xs @ sep # ys) = (acc @ xs) # split_on sep [] ys"
  by (induction xs arbitrary: acc) auto

lemma split_on_lines:
  "(\<And>l. l \<in> set ls \<Longrightarrow> sep \<notin> set l) \<Longrightarrow> split_on sep [] (concat (map (\<lambda>l. l @ [sep]) ls)) = ls"
  by (induction ls) (simp_all add: split_on_append)

lemma split_on_rest: "sep \<notin> set xs \<Longrightarrow> split_on sep acc xs = (if acc @ xs = [] then [] else [acc @ xs])"
  by (induction xs arbitrary: acc) auto

lemma split_on_last:
  assumes "\<And>l. l \<in> set ls \<Longrightarrow> sep \<notin> set l" "sep \<notin> set l" "l \<noteq> []"
  shows "split_on sep [] (concat (map (\<lambda>l. l @ [sep]) ls) @ l) = ls @ [l]"
  using assms by (induction ls) (simp_all add: split_on_append split_on_rest)

lemma iter_from_zero:
  assumes "n < 2 ^ 32"
  shows "IntArray_iter (from_range 0 (of_nat n)) = Inr (map of_nat [0..<n])"
  using assms
  by (simp add: from_range_def IntArray_iter_def IntRange_iter_def step_list_one unat_of_nat take_bit_nat_eq_self)


definition example_opts :: SubmitOpts where
  "example_opts =
     \<lparr>so_command = ''/bin/echo'', so_args = [], so_cpus = Compact 1, so_name = None, so_pin = False,
      so_cwd = ''%{SUBMIT_DIR}'', so_stdout = None, so_stderr = Some Null,
      so_env = [\<lparr>env_key = ''A'', env_value = ''1''\<rparr>], so_each_line = Some ''in'', so_array = None,
      so_max_fails = None, so_priority = 0, so_time_limit = None, so_wait = True, so_log = None\<rparr>"


section \<open>Types of answers\<close>

fun is_error :: "'rr ToClientMessage \<Rightarrow> bool" where
  "is_error (ErrorResponse _) = True"
| "is_error _ = False"

fun answers :: "'rr FromClientMessage \<Rightarrow> 'rr ToClientMessage \<Rightarrow> bool" where
  "answers (Submit _) r = (as_submit r \<noteq> None \<or> is_error r)"
| "answers (Resubmit _) r = (as_submit r \<noteq> None \<or> is_error r)"
| "answers (Cancel _) r = (as_cancel r \<noteq> None)"
| "answers (JobDetailReq _ _) r = (as_job_detail r \<noteq> None)"
| "answers (JobInfoReq _) r = (as_job_info r \<noteq> None)"
| "answers WorkerList r = (as_worker_list r \<noteq> None)"
| "answers (WorkerInfoReq _) r = (as_worker_info r \<noteq> None)"
| "answers Stats r = (as_stats r \<noteq> None)"
| "answers (StopWorkerReq sel) r = (as_stop_worker r \<noteq> None \<or> (\<exists>n. sel = LastN n) \<and> is_error r)"
| "answers Stop r = False"

lemma handle_submit_answer: "handle_submit env now m st = Inr (st', r, ms) \<Longrightarrow> as_submit r \<noteq> None \<or> is_error r"
  by (auto simp: handle_submit_def elim!: try_bind_InrE
      split: if_split_asm prod.split_asm ToGatewayMessage.split_asm)

text \<open>
  Claim C22. Requests and answers fit: whatever the state of the server, an answer to a request is of the
  type the command of the client matches it with, so the client never reports an invalid message,
  save for the error that answers a submission or the request to stop the last worker; only the
  request to stop the server has no answer.
\<close>

theorem responses_typed:
  assumes "handle_message env now msg st = Some (Inr (st', r, ms))"
  shows "answers msg r \<and> msg \<noteq> Stop"
  using assms
  by (cases msg)
    (auto simp: handle_message_def outcome_simps handle_worker_list_def handle_worker_info_def
      compute_job_info_def compute_job_detail_def compose_server_stats_def handle_worker_stop_def
      handle_job_cancel_def handle_resubmit_def dest: handle_submit_answer
      split: Selector.splits prod.splits option.splits)

theorem responses_typed_witness:
  "\<exists>st' r ms. handle_message example_env 500 (Cancel All) example_server = Some (Inr (st', r, ms)) \<and> as_cancel r \<noteq> None"
proof -
  obtain st' r ms where h: "handle_message example_env 500 (Cancel All) example_server = Some (Inr (st', r, ms))"
    using handle_message_ok [OF example_env_ok example_server_wf, of "Cancel All" 500]
    by (auto simp: message_ok_def handle_message_def)
  with responses_typed [OF h] show ?thesis by auto
qed

end
