(* ===== verification/ArrayParser.thy ===== *)
theory ArrayParser
  imports IntArray "HOL-Library.Sublist"
begin

text \<open>
  The parser of task id arrays: \<^verbatim>\<open>src/src/common/parser.rs\<close> (errors and numbers) and
  the grammar of \<^verbatim>\<open>src/src/common/arrayparser.rs\<close>. The combinators of the library
  \<^verbatim>\<open>nom\<close> are a parameter, one field for every type they are used at; what its documentation
  says of them is the predicate \<open>nom_ok\<close>. The lemmas show that the text of every array the parser
  accepts is read back to the same array, and that the display of an array of several ranges is not.
\<close>

section \<open>Errors\<close>

text \<open>The kinds of errors of the combinators that are used.\<close>

datatype ErrorKind = KTag | KSatisfy | KSeparatedList | KEof

datatype ParserError = Custom string | NomError string ErrorKind

definition from_error_kind :: "string \<Rightarrow> ErrorKind \<Rightarrow> ParserError" where
  "from_error_kind input kind = NomError input kind"

definition from_external_error :: "string \<Rightarrow> string \<Rightarrow> ParserError" where
  "from_external_error input error = Custom ([CHR 0x27] @ input @ [CHR 0x27] @ '': '' @ error)"

text \<open>The text \<^verbatim>\<open>{:?}\<close> of a string and of a kind are given.\<close>

fun ParserError_fmt :: "(string \<Rightarrow> string) \<Rightarrow> (ErrorKind \<Rightarrow> string) \<Rightarrow> ParserError \<Rightarrow> string" where
  "ParserError_fmt str_debug kind_debug (Custom error) = ''Semantic error at '' @ error"
| "ParserError_fmt str_debug kind_debug (NomError input error) =
     ''Parser error at '' @ [CHR 0x27] @ str_debug input @ [CHR 0x27] @ '': expecting '' @ kind_debug error"

datatype NomErr = NErr ParserError | NFailure ParserError | NIncomplete string

fun format_parse_error :: "(string \<Rightarrow> string) \<Rightarrow> (ErrorKind \<Rightarrow> string) \<Rightarrow> NomErr \<Rightarrow> string" where
  "format_parse_error str_debug kind_debug (NErr e) = ParserError_fmt str_debug kind_debug e"
| "format_parse_error str_debug kind_debug (NFailure e) = ParserError_fmt str_debug kind_debug e"
| "format_parse_error str_debug kind_debug (NIncomplete msg) = msg"

type_synonym 'a parser = "string \<Rightarrow> (NomErr + string \<times> 'a) outcome"

section \<open>The library\<close>

record Nom =
  satisfy :: "(char \<Rightarrow> bool) \<Rightarrow> char parser"
  many0 :: "char parser \<Rightarrow> string parser"
  tuple_digits :: "char parser \<Rightarrow> string parser \<Rightarrow> (char \<times> string) parser"
  map_res_u32 :: "(char \<times> string) parser \<Rightarrow> (char \<times> string \<Rightarrow> string + u32) \<Rightarrow> u32 parser"
  tag :: "string \<Rightarrow> string parser"
  preceded :: "string parser \<Rightarrow> u32 parser \<Rightarrow> u32 parser"
  opt :: "u32 parser \<Rightarrow> u32 option parser"
  tuple_range :: "u32 parser \<Rightarrow> u32 option parser \<Rightarrow> u32 option parser \<Rightarrow> (u32 \<times> u32 option \<times> u32 option) parser"
  map_res_range ::
    "(u32 \<times> u32 option \<times> u32 option) parser \<Rightarrow> (u32 \<times> u32 option \<times> u32 option \<Rightarrow> string + IntRange) \<Rightarrow> IntRange parser"
  separated_list1 :: "string parser \<Rightarrow> IntRange parser \<Rightarrow> IntRange list parser"
  map_res_array :: "IntRange list parser \<Rightarrow> (IntRange list \<Rightarrow> (string + IntArray) outcome) \<Rightarrow> IntArray parser"
  all_consuming :: "IntArray parser \<Rightarrow> IntArray parser"

section \<open>Numbers\<close>

definition is_dec_digit :: "char \<Rightarrow> bool" where
  "is_dec_digit c \<longleftrightarrow> 48 \<le> (of_char c :: nat) \<and> (of_char c :: nat) \<le> 57"

text \<open>\<^verbatim>\<open>str::parse::<u32>\<close> of the standard library.\<close>

fun parse_digits :: "nat \<Rightarrow> string \<Rightarrow> string + u32" where
  "parse_digits acc [] = Inr (of_nat acc)"
| "parse_digits acc (c # cs) =
     (if \<not> is_dec_digit c then Inl ''invalid digit found in string''
      else
        let n = acc * 10 + (of_char c - 48) in
        if n < 2 ^ 32 then parse_digits n cs else Inl ''number too large to fit in target type'')"

definition parse_u32 :: "string \<Rightarrow> string + u32" where
  "parse_u32 s =
     (case s of
        [] \<Rightarrow> Inl ''cannot parse integer from empty string''
      | c # cs \<Rightarrow>
          if c = CHR ''+'' then if cs = [] then Inl ''invalid digit found in string'' else parse_digits 0 cs
          else parse_digits 0 s)"

definition p_u32 :: "Nom \<Rightarrow> u32 parser" where
  "p_u32 nom input =
     map_res_u32 nom
       (tuple_digits nom (satisfy nom is_dec_digit) (many0 nom (satisfy nom (\<lambda>c. is_dec_digit c \<or> c = CHR ''_''))))
       (\<lambda>(first, rest). parse_u32 (first # filter is_dec_digit rest)) input"

section \<open>Ranges and arrays\<close>

definition p_range_text :: "Nom \<Rightarrow> IntRange parser" where
  "p_range_text nom input =
     map_res_range nom
       (tuple_range nom (p_u32 nom) (opt nom (preceded nom (tag nom ''-'') (p_u32 nom)))
         (opt nom (preceded nom (tag nom '':'') (p_u32 nom))))
       p_range input"

definition p_ranges :: "Nom \<Rightarrow> IntRange list parser" where
  "p_ranges nom input = separated_list1 nom (tag nom '','') (p_range_text nom) input"

definition p_array_text :: "Nom \<Rightarrow> IntArray parser" where
  "p_array_text nom input = map_res_array nom (p_ranges nom) p_array input"

definition parse_array ::
  "Nom \<Rightarrow> (string \<Rightarrow> string) \<Rightarrow> (ErrorKind \<Rightarrow> string) \<Rightarrow> string \<Rightarrow> (string + IntArray) outcome" where
  "parse_array nom str_debug kind_debug input =
     try_bind (all_consuming nom (p_array_text nom) input) (\<lambda>r.
       Inr (case r of Inl e \<Rightarrow> Inl (format_parse_error str_debug kind_debug e) | Inr (_, a) \<Rightarrow> Inr a))"

section \<open>The documented behaviour of the library\<close>

text \<open>
  Sequencing: the second parser goes on where the first has stopped, and the first error is the
  error of the sequence.
\<close>

definition p_then :: "'a parser \<Rightarrow> ('a \<Rightarrow> 'b parser) \<Rightarrow> 'b parser" where
  "p_then p f i = try_bind (p i) (\<lambda>r. case r of Inl e \<Rightarrow> Inr (Inl e) | Inr (i, a) \<Rightarrow> f a i)"

definition p_return :: "'a \<Rightarrow> 'a parser" where
  "p_return a i = Inr (Inr (i, a))"

text \<open>\<^verbatim>\<open>map_res\<close>: an error of the function is reported at the start of the input.\<close>

definition p_map_res :: "'a parser \<Rightarrow> ('a \<Rightarrow> (string + 'b) outcome) \<Rightarrow> 'b parser" where
  "p_map_res p f i =
     p_then p (\<lambda>a i'. try_bind (f a) (\<lambda>r.
       Inr (case r of Inl e \<Rightarrow> Inl (NErr (from_external_error i e)) | Inr b \<Rightarrow> Inr (i', b)))) i"

text \<open>
  \<^verbatim>\<open>separated_list1\<close> after its first element: it stops before a separator that no element
  follows. A separator that consumes nothing is an error, so as many rounds as there is input are
  enough.
\<close>

fun p_separated :: "nat \<Rightarrow> 's parser \<Rightarrow> 'a parser \<Rightarrow> 'a list parser" where
  "p_separated 0 sep p i = Inr (Inr (i, []))"
| "p_separated (Suc n) sep p i =
     try_bind (sep i) (\<lambda>r.
       case r of
         Inl (NErr _) \<Rightarrow> Inr (Inr (i, []))
       | Inl e \<Rightarrow> Inr (Inl e)
       | Inr (i1, _) \<Rightarrow>
           if length i1 \<ge> length i then Inr (Inl (NErr (from_error_kind i1 KSeparatedList)))
           else try_bind (p i1) (\<lambda>r.
             case r of
               Inl (NErr _) \<Rightarrow> Inr (Inr (i, []))
             | Inl e \<Rightarrow> Inr (Inl e)
             | Inr (i2, a) \<Rightarrow> p_then (p_separated n sep p) (\<lambda>as. p_return (a # as)) i2))"

definition nom_ok :: "Nom \<Rightarrow> bool" where
  "nom_ok nom \<longleftrightarrow>
     (\<forall>P i. satisfy nom P i =
        Inr (case i of
               c # cs \<Rightarrow> if P c then Inr (cs, c) else Inl (NErr (from_error_kind i KSatisfy))
             | [] \<Rightarrow> Inl (NErr (from_error_kind i KSatisfy)))) \<and>
     (\<forall>P i. many0 nom (satisfy nom P) i = Inr (Inr (dropWhile P i, takeWhile P i))) \<and>
     (\<forall>p q. tuple_digits nom p q = p_then p (\<lambda>a. p_then q (\<lambda>b. p_return (a, b)))) \<and>
     (\<forall>p f. map_res_u32 nom p f = p_map_res p (\<lambda>a. Inr (f a))) \<and>
     (\<forall>t i. tag nom t i =
        Inr (if prefix t i then Inr (drop (length t) i, t) else Inl (NErr (from_error_kind i KTag)))) \<and>
     (\<forall>p q. preceded nom p q = p_then p (\<lambda>_. q)) \<and>
     (\<forall>p i. opt nom p i =
        try_bind (p i) (\<lambda>r. Inr (case r of
            Inr (i', a) \<Rightarrow> Inr (i', Some a)
          | Inl (NErr _) \<Rightarrow> Inr (i, None)
          | Inl e \<Rightarrow> Inl e))) \<and>
     (\<forall>p q r. tuple_range nom p q r = p_then p (\<lambda>a. p_then q (\<lambda>b. p_then r (\<lambda>c. p_return (a, b, c))))) \<and>
     (\<forall>p f. map_res_range nom p f = p_map_res p (\<lambda>a. Inr (f a))) \<and>
     (\<forall>sep p i. separated_list1 nom sep p i =
        p_then p (\<lambda>a. p_then (p_separated (Suc (length i)) sep p) (\<lambda>as. p_return (a # as))) i) \<and>
     (\<forall>p f. map_res_array nom p f = p_map_res p f) \<and>
     (\<forall>p. all_consuming nom p =
        p_then p (\<lambda>a i. if i = [] then p_return a i else Inr (Inl (NErr (from_error_kind i KEof)))))"

section \<open>Numbers are read back\<close>

lemma of_char_digit: "d < 10 \<Longrightarrow> (of_char (digit_char d) :: nat) = 48 + d"
  by (simp add: digit_char_def)

lemma is_dec_digit_char: "d < 10 \<Longrightarrow> is_dec_digit (digit_char d)"
  by (simp add: is_dec_digit_def of_char_digit)

lemma show_nat_digits: "\<forall>c \<in> set (show_nat n). is_dec_digit c"
  by (induction n rule: show_nat.induct) (subst show_nat.simps, auto simp: is_dec_digit_char)

lemma show_nat_nonempty: "show_nat n \<noteq> []"
  by (subst show_nat.simps) simp

lemma parse_digits_snoc:
  "parse_digits acc xs = Inr v \<Longrightarrow> is_dec_digit c \<Longrightarrow> unat v * 10 + (of_char c - 48) < 2 ^ 32 \<Longrightarrow> acc < 2 ^ 32 \<Longrightarrow>
   parse_digits acc (xs @ [c]) = Inr (of_nat (unat v * 10 + (of_char c - 48)))"
proof (induction xs arbitrary: acc)
  case Nil
  then have "unat v = acc" by (auto simp: unat_of_nat take_bit_nat_eq_self)
  with Nil show ?case by simp
next
  case (Cons x xs)
  then show ?case by (auto simp: Let_def split: if_splits)
qed

lemma parse_digits_show: "n < 2 ^ 32 \<Longrightarrow> parse_digits 0 (show_nat n) = Inr (of_nat n)"
proof (induction n rule: show_nat.induct)
  case (1 n)
  show ?case
  proof (cases "n < 10")
    case True
    then show ?thesis by (subst show_nat.simps) (simp add: is_dec_digit_char of_char_digit)
  next
    case False
    have small: "n div 10 < 2 ^ 32" using 1(2) by simp
    have v: "unat (of_nat (n div 10) :: u32) = n div 10" using small by (simp add: unat_of_nat take_bit_nat_eq_self)
    have d: "is_dec_digit (digit_char (n mod 10))" "of_char (digit_char (n mod 10)) - 48 = n mod 10"
      by (simp_all add: is_dec_digit_char of_char_digit)
    have "n div 10 * 10 + n mod 10 = n" by simp
    then show ?thesis
      using parse_digits_snoc [OF 1(1) [OF False small] d(1)] 1(2) False
      by (subst show_nat.simps) (simp add: v d(2) del: of_nat_add of_nat_mult)
  qed
qed

lemma digit_not_plus: "is_dec_digit c \<Longrightarrow> c \<noteq> CHR ''+''"
  by (auto simp: is_dec_digit_def)

lemma parse_u32_show: "parse_u32 (show_u32 n) = Inr n"
proof -
  obtain c cs where s: "show_u32 n = c # cs" using show_nat_nonempty [of "unat n"] by (cases "show_u32 n") (auto simp: show_u32_def)
  have "c \<noteq> CHR ''+''" using show_nat_digits [of "unat n"] s digit_not_plus by (auto simp: show_u32_def)
  then have "parse_u32 (show_u32 n) = parse_digits 0 (show_u32 n)" by (simp add: parse_u32_def s)
  then show ?thesis using parse_digits_show [of "unat n"] unsigned_less [of n] by (simp add: show_u32_def)
qed

lemma nom_okD:
  assumes "nom_ok nom"
  shows "satisfy nom P i = Inr (case i of
        c # cs \<Rightarrow> if P c then Inr (cs, c) else Inl (NErr (from_error_kind i KSatisfy))
      | [] \<Rightarrow> Inl (NErr (from_error_kind i KSatisfy)))"
    and "many0 nom (satisfy nom P) i = Inr (Inr (dropWhile P i, takeWhile P i))"
    and "tuple_digits nom p1 q1 = p_then p1 (\<lambda>a. p_then q1 (\<lambda>b. p_return (a, b)))"
    and "map_res_u32 nom p2 f2 = p_map_res p2 (\<lambda>a. Inr (f2 a))"
    and "tag nom t i = Inr (if prefix t i then Inr (drop (length t) i, t) else Inl (NErr (from_error_kind i KTag)))"
    and "preceded nom p3 q3 = p_then p3 (\<lambda>_. q3)"
    and "opt nom p4 i = try_bind (p4 i) (\<lambda>r. Inr (case r of
            Inr (i', a) \<Rightarrow> Inr (i', Some a) | Inl (NErr _) \<Rightarrow> Inr (i, None) | Inl e \<Rightarrow> Inl e))"
    and "tuple_range nom p5 q5 r5 = p_then p5 (\<lambda>a. p_then q5 (\<lambda>b. p_then r5 (\<lambda>c. p_return (a, b, c))))"
    and "map_res_range nom p6 f6 = p_map_res p6 (\<lambda>a. Inr (f6 a))"
    and "separated_list1 nom sep p7 i =
        p_then p7 (\<lambda>a. p_then (p_separated (Suc (length i)) sep p7) (\<lambda>as. p_return (a # as))) i"
    and "map_res_array nom p8 f8 = p_map_res p8 f8"
    and "all_consuming nom p9 =
        p_then p9 (\<lambda>a i. if i = [] then p_return a i else Inr (Inl (NErr (from_error_kind i KEof))))"
  using assms unfolding nom_ok_def by simp_all

lemma p_then_simps:
  "p i = Inr (Inr (i', a)) \<Longrightarrow> p_then p f i = f a i'"
  "p i = Inr (Inl e) \<Longrightarrow> p_then p f i = Inr (Inl e)"
  by (simp_all add: p_then_def)

text \<open>Where a number ends.\<close>

definition stops :: "string \<Rightarrow> bool" where
  "stops i \<longleftrightarrow> i = [] \<or> \<not> is_dec_digit (hd i) \<and> hd i \<noteq> CHR ''_''"

lemma p_u32_show:
  assumes "nom_ok nom" "stops i"
  shows "p_u32 nom (show_u32 n @ i) = Inr (Inr (i, n))"
proof -
  note N = nom_okD [OF assms(1)]
  let ?P = "\<lambda>c. is_dec_digit c \<or> c = CHR ''_''"
  obtain c cs where s: "show_u32 n = c # cs" using show_nat_nonempty [of "unat n"] by (cases "show_u32 n") (auto simp: show_u32_def)
  have d: "is_dec_digit c" "\<forall>x \<in> set cs. is_dec_digit x"
    using show_nat_digits [of "unat n"] s by (auto simp: show_u32_def)
  have "dropWhile ?P (cs @ i) = i" "takeWhile ?P (cs @ i) = cs"
    using d(2) assms(2) by (simp_all add: stops_def, (cases i; simp)+)
  moreover have "filter is_dec_digit cs = cs" using d(2) by simp
  ultimately show ?thesis
    using parse_u32_show [of n] d(1)
    by (simp add: s p_u32_def N(1-4) p_map_res_def p_then_def p_return_def)
qed

lemma p_u32_none:
  assumes "nom_ok nom" "i = [] \<or> \<not> is_dec_digit (hd i)"
  shows "\<exists>e. p_u32 nom i = Inr (Inl (NErr e))"
  using assms(2) by (cases i) (auto simp: p_u32_def nom_okD [OF assms(1)] p_map_res_def p_then_def)

section \<open>Arrays are read back\<close>

definition range_text :: "IntRange \<Rightarrow> string" where
  "range_text r = take (length (fmt_range r) - 2) (fmt_range r)"

lemma range_text_eq:
  "range_text r =
     (if count r = 1 then show_u32 (start r)
      else if step r = 1 then show_u32 (start r) @ ''-'' @ show_u32 (start r + count r - 1)
      else show_u32 (start r) @ ''-'' @ show_u32 (start r + count r - 1) @ '':'' @ show_u32 (step r))"
  by (simp add: range_text_def fmt_range_def)

lemma fmt_range_text: "fmt_range r = range_text r @ '', ''"
  by (simp add: range_text_eq fmt_range_def)

text \<open>The ranges that the parser makes, the range of all ids excepted, whose count wraps around.\<close>

definition parsed :: "IntRange \<Rightarrow> bool" where
  "parsed r \<longleftrightarrow> (\<exists>t. p_range t = Inr r) \<and> count r \<noteq> 0"

lemma parsed_text:
  assumes "parsed r"
  shows "p_range (start r, if count r = 1 then None else Some (start r + count r - 1),
           if count r = 1 \<or> step r = 1 then None else Some (step r)) = Inr r"
proof -
  obtain v w x where t: "p_range (v, w, x) = Inr r" using assms by (auto simp: parsed_def)
  show ?thesis
  proof (cases w)
    case None
    with t show ?thesis by (cases x) (auto simp: p_range_def IntRange_new_def)
  next
    case (Some u)
    have "u - v + 1 = 1 \<Longrightarrow> u = v" by simp
    with t Some show ?thesis by (cases x) (auto simp: p_range_def IntRange_new_def split: if_splits)
  qed
qed

lemma opt_number:
  assumes "nom_ok nom"
  shows "stops i \<Longrightarrow> opt nom (preceded nom (tag nom [ch]) (p_u32 nom)) (ch # show_u32 n @ i) = Inr (Inr (i, Some n))"
    and "i = [] \<or> hd i \<noteq> ch \<Longrightarrow> opt nom (preceded nom (tag nom [ch]) (p_u32 nom)) i = Inr (Inr (i, None))"
proof -
  note N = nom_okD [OF assms]
  show "opt nom (preceded nom (tag nom [ch]) (p_u32 nom)) (ch # show_u32 n @ i) = Inr (Inr (i, Some n))" if "stops i"
    using p_u32_show [OF assms that, of n] by (simp add: N(5-7) p_then_def)
  show "opt nom (preceded nom (tag nom [ch]) (p_u32 nom)) i = Inr (Inr (i, None))" if "i = [] \<or> hd i \<noteq> ch"
    using that by (cases i) (auto simp: N(5-7) p_then_def)
qed

lemma p_range_text_read:
  assumes "nom_ok nom" "parsed r" "i = [] \<or> hd i = CHR '',''"
  shows "p_range_text nom (range_text r @ i) = Inr (Inr (i, r))"
proof -
  note N = nom_okD [OF assms(1)] and O = opt_number [OF assms(1)] and U = p_u32_show [OF assms(1)]
  have st: "stops i" "stops (CHR ''-'' # j)" "stops (CHR '':'' # j)" for j
    using assms(3) by (cases i; simp add: stops_def is_dec_digit_def)+
  have i: "i = [] \<or> hd i \<noteq> CHR ''-''" "i = [] \<or> hd i \<noteq> CHR '':''" using assms(3) by auto
  note R = parsed_text [OF assms(2)]
  show ?thesis
    unfolding p_range_text_def N(8,9) p_map_res_def p_then_def p_return_def range_text_eq
    using R by (auto simp: U st O i)
qed

lemma p_range_text_none:
  assumes "nom_ok nom" "i = [] \<or> \<not> is_dec_digit (hd i)"
  shows "\<exists>e. p_range_text nom i = Inr (Inl (NErr e))"
  using p_u32_none [OF assms] by (auto simp: p_range_text_def nom_okD(8,9) [OF assms(1)] p_map_res_def p_then_def)

text \<open>The text of an array: its ranges with commas between them.\<close>

fun array_text :: "IntRange list \<Rightarrow> string" where
  "array_text [] = []"
| "array_text (r # rs) = range_text r @ concat (map (\<lambda>r. CHR '','' # range_text r) rs)"

lemma p_separated_read:
  assumes "nom_ok nom"
  shows "\<forall>r \<in> set rs. parsed r \<Longrightarrow> length rs < n \<Longrightarrow>
    p_separated n (tag nom '','') (p_range_text nom) (concat (map (\<lambda>r. CHR '','' # range_text r) rs)) = Inr (Inr ([], rs))"
proof (induction rs arbitrary: n)
  case Nil
  then show ?case by (cases n) (simp_all add: nom_okD(5) [OF assms])
next
  case (Cons r rs)
  then obtain m where n: "n = Suc m" by (cases n) auto
  let ?rest = "concat (map (\<lambda>r. CHR '','' # range_text r) rs)"
  have "?rest = [] \<or> hd ?rest = CHR '',''" by (cases rs) auto
  then have "p_range_text nom (range_text r @ ?rest) = Inr (Inr (?rest, r))"
    using p_range_text_read [OF assms] Cons.prems(1) by auto
  then show ?case using Cons n by (simp add: nom_okD(5) [OF assms] p_then_def p_return_def)
qed

lemma length_array_rest: "length rs \<le> length (concat (map (\<lambda>r. CHR '','' # range_text r) rs))"
  by (induction rs) auto

lemma p_ranges_read:
  assumes "nom_ok nom" "\<forall>r \<in> set rs. parsed r" "rs \<noteq> []"
  shows "p_ranges nom (array_text rs) = Inr (Inr ([], rs))"
proof -
  obtain r rs' where rs: "rs = r # rs'" using assms(3) by (cases rs) auto
  let ?rest = "concat (map (\<lambda>r. CHR '','' # range_text r) rs')"
  have "?rest = [] \<or> hd ?rest = CHR '',''" by (cases rs') auto
  then have "p_range_text nom (array_text rs) = Inr (Inr (?rest, r))"
    using p_range_text_read [OF assms(1)] assms(2) rs by auto
  moreover have "length rs' < Suc (length (array_text rs))" using length_array_rest [of rs'] rs by simp
  then have "p_separated (Suc (length (array_text rs))) (tag nom '','') (p_range_text nom) ?rest = Inr (Inr ([], rs'))"
    using p_separated_read [OF assms(1), of rs'] assms(2) rs by (simp del: p_separated.simps)
  ultimately show ?thesis
    unfolding p_ranges_def nom_okD(10) [OF assms(1)] p_then_def by (simp add: rs p_return_def del: p_separated.simps)
qed

lemma parse_array_read:
  assumes "nom_ok nom" "\<forall>r \<in> set rs. parsed r" "rs \<noteq> []" "IntArray_iter (IntArray_new rs) = Inr ids" "distinct ids"
  shows "parse_array nom str_debug kind_debug (array_text rs) = Inr (Inr (IntArray_new rs))"
  using p_ranges_read [OF assms(1-3)] p_array_ids [OF assms(4)] assms(5)
  by (simp add: parse_array_def p_array_text_def nom_okD(11,12) [OF assms(1)] p_map_res_def p_then_def p_return_def)

lemma IntArray_fmt_eq:
  "IntArray_fmt (IntArray_new (r # rs)) = Inr (range_text r @ concat (map (\<lambda>r. '', '' @ range_text r) rs))"
proof -
  have "concat (map fmt_range (r # rs)) = range_text r @ concat (map (\<lambda>r. '', '' @ range_text r) rs) @ '', ''"
    by (induction rs arbitrary: r) (simp_all add: fmt_range_text)
  then show ?thesis by (simp add: IntArray_fmt_def IntArray_new_def Let_def)
qed

lemma parse_array_display:
  assumes "nom_ok nom" "parsed r" "rs \<noteq> []"
  shows "\<exists>e. parse_array nom str_debug kind_debug (range_text r @ concat (map (\<lambda>r. '', '' @ range_text r) rs)) = Inr (Inl e)"
proof -
  note N = nom_okD [OF assms(1)]
  obtain i where i: "concat (map (\<lambda>r. '', '' @ range_text r) rs) = CHR '','' # CHR '' '' # i"
    using assms(3) by (cases rs) auto
  have "\<not> is_dec_digit CHR '' ''" by (simp add: is_dec_digit_def)
  then obtain e where e: "p_range_text nom (CHR '' '' # i) = Inr (Inl (NErr e))"
    using p_range_text_none [OF assms(1), of "CHR '' '' # i"] by auto
  have "p_range_text nom (range_text r @ CHR '','' # CHR '' '' # i) = Inr (Inr (CHR '','' # CHR '' '' # i, r))"
    using p_range_text_read [OF assms(1,2)] by simp
  then have ranges: "p_ranges nom (range_text r @ CHR '','' # CHR '' '' # i) = Inr (Inr (CHR '','' # CHR '' '' # i, [r]))"
    unfolding p_ranges_def N(10) p_then_def by (simp add: N(5) e p_return_def)
  have "step r \<noteq> 0"
    using assms(2) by (auto simp: parsed_def p_range_def IntRange_new_def split: option.splits if_splits)
  then obtain ids where "IntArray_iter (IntArray_new [r]) = Inr ids"
    by (simp add: IntArray_iter_def IntArray_new_def IntRange_iter_def)
  from p_array_ids [OF this] show ?thesis
    using ranges unfolding i
    by (auto simp: parse_array_def p_array_text_def N(11,12) p_map_res_def p_then_def p_return_def)
qed

text \<open>
  Claim C21. Parsing undoes printing: the text of ranges that the parser can make, with commas between
  them, is read back to exactly these ranges when no id is in two of them. The display of an array
  is such a text only for a single range; it puts a space after each comma, and a display of
  several ranges is refused.
\<close>

theorem array_text_roundtrip:
  assumes "nom_ok nom" "\<forall>r \<in> set rs. parsed r" "rs \<noteq> []" "IntArray_iter (IntArray_new rs) = Inr ids" "distinct ids"
  shows "parse_array nom str_debug kind_debug (array_text rs) = Inr (Inr (IntArray_new rs)) \<and>
    (\<exists>s. IntArray_fmt (IntArray_new rs) = Inr s \<and>
       (parse_array nom str_debug kind_debug s = Inr (Inr (IntArray_new rs)) \<longleftrightarrow> length rs = 1))"
proof -
  obtain r rs' where rs: "rs = r # rs'" using assms(3) by (cases rs) auto
  have "parse_array nom str_debug kind_debug (range_text r @ concat (map (\<lambda>r. '', '' @ range_text r) rs')) =
      Inr (Inr (IntArray_new rs)) \<longleftrightarrow> rs' = []"
  proof (cases "rs' = []")
    case True
    then show ?thesis using parse_array_read [OF assms, of str_debug kind_debug] rs by simp
  next
    case False
    then show ?thesis using parse_array_display [OF assms(1) _ False, of r str_debug kind_debug] assms(2) rs by auto
  qed
  then show ?thesis using parse_array_read [OF assms] IntArray_fmt_eq [of r rs'] rs by simp
qed

text \<open>The library as documented.\<close>

definition nom_spec :: Nom where
  "nom_spec =
     \<lparr>satisfy = (\<lambda>P i. Inr (case i of
          c # cs \<Rightarrow> if P c then Inr (cs, c) else Inl (NErr (from_error_kind i KSatisfy))
        | [] \<Rightarrow> Inl (NErr (from_error_kind i KSatisfy)))),
      many0 = (\<lambda>p i.
        let P = (\<lambda>c. case p [c] of Inr (Inr _) \<Rightarrow> True | _ \<Rightarrow> False) in Inr (Inr (dropWhile P i, takeWhile P i))),
      tuple_digits = (\<lambda>p q. p_then p (\<lambda>a. p_then q (\<lambda>b. p_return (a, b)))),
      map_res_u32 = (\<lambda>p f. p_map_res p (\<lambda>a. Inr (f a))),
      tag = (\<lambda>t i. Inr (if prefix t i then Inr (drop (length t) i, t) else Inl (NErr (from_error_kind i KTag)))),
      preceded = (\<lambda>p q. p_then p (\<lambda>_. q)),
      opt = (\<lambda>p i. try_bind (p i) (\<lambda>r. Inr (case r of
          Inr (i', a) \<Rightarrow> Inr (i', Some a) | Inl (NErr _) \<Rightarrow> Inr (i, None) | Inl e \<Rightarrow> Inl e))),
      tuple_range = (\<lambda>p q r. p_then p (\<lambda>a. p_then q (\<lambda>b. p_then r (\<lambda>c. p_return (a, b, c))))),
      map_res_range = (\<lambda>p f. p_map_res p (\<lambda>a. Inr (f a))),
      separated_list1 = (\<lambda>sep p i.
        p_then p (\<lambda>a. p_then (p_separated (Suc (length i)) sep p) (\<lambda>as. p_return (a # as))) i),
      map_res_array = p_map_res,
      all_consuming = (\<lambda>p.
        p_then p (\<lambda>a i. if i = [] then p_return a i else Inr (Inl (NErr (from_error_kind i KEof)))))\<rparr>"

lemma nom_spec_ok: "nom_ok nom_spec"
proof -
  have "(\<lambda>c. case Inr (if P c then Inr ([], c) else Inl (NErr e)) of Inr (Inr _) \<Rightarrow> True | _ \<Rightarrow> False) = P" for P e
    by auto
  then show ?thesis by (simp add: nom_ok_def nom_spec_def)
qed

theorem array_text_roundtrip_witness:
  "parse_array nom_spec id (\<lambda>_. ''Eof'') ''4-6,8'' = Inr (Inr (IntArray_new [IntRange_new 4 3 1, IntRange_new 8 1 1])) \<and>
   IntArray_fmt (IntArray_new [IntRange_new 4 3 1, IntRange_new 8 1 1]) = Inr ''4-6, 8'' \<and>
   parse_array nom_spec id (\<lambda>_. ''Eof'') ''4-6, 8'' \<noteq> Inr (Inr (IntArray_new [IntRange_new 4 3 1, IntRange_new 8 1 1]))"
proof -
  let ?rs = "[IntRange_new 4 3 1, IntRange_new 8 1 1]"
  have "p_range (4, Some 6, None) = Inr (IntRange_new 4 3 1)" "p_range (8, None, None) = Inr (IntRange_new 8 1 1)"
    by (simp_all add: p_range_def)
  then have p: "\<forall>r \<in> set ?rs. parsed r" unfolding parsed_def by (auto simp: IntRange_new_def)
  have ids: "IntArray_iter (IntArray_new ?rs) = Inr [4, 5, 6, 8]"
    by (simp add: IntArray_iter_def IntArray_new_def IntRange_iter_def IntRange_new_def step_list.simps)
  have d: "show_nat 4 = ''4''" "show_nat 6 = ''6''" "show_nat 8 = ''8''" by code_simp+
  have t: "array_text ?rs = ''4-6,8''" "IntArray_fmt (IntArray_new ?rs) = Inr ''4-6, 8''"
    by (simp_all add: range_text_eq IntRange_new_def show_u32_def d IntArray_fmt_eq [unfolded IntRange_new_def])
  show ?thesis
    using array_text_roundtrip [OF nom_spec_ok p _ ids, of id "\<lambda>_. ''Eof''"] t by simp
qed

end
