(* ===== verification/StatusParser.thy ===== *)
theory StatusParser
  imports ArrayParser Messages
begin

text \<open>
  The parser of lists of statuses of \<^verbatim>\<open>src/src/client/status.rs\<close>, over the combinators of
  \<^verbatim>\<open>nom\<close> at the types of this grammar. The lemma shows that the names of statuses with
  commas and any blanks between them are read as these statuses.
\<close>

record StatusNom =
  s_tag :: "string \<Rightarrow> string parser"
  s_space0 :: "string parser"
  s_tuple :: "string parser \<Rightarrow> string parser \<Rightarrow> (string \<times> string) parser"
  s_map :: "string parser \<Rightarrow> (string \<Rightarrow> Status) \<Rightarrow> Status parser"
  s_alt :: "Status parser list \<Rightarrow> Status parser"
  s_separated_list1 :: "(string \<times> string) parser \<Rightarrow> Status parser \<Rightarrow> Status list parser"
  s_all_consuming :: "Status list parser \<Rightarrow> Status list parser"

definition p_status :: "StatusNom \<Rightarrow> Status parser" where
  "p_status nom input =
     s_alt nom
       [s_map nom (s_tag nom ''waiting'') (\<lambda>_. StWaiting),
        s_map nom (s_tag nom ''running'') (\<lambda>_. StRunning),
        s_map nom (s_tag nom ''finished'') (\<lambda>_. StFinished),
        s_map nom (s_tag nom ''failed'') (\<lambda>_. StFailed),
        s_map nom (s_tag nom ''canceled'') (\<lambda>_. StCanceled)] input"

definition p_status_list :: "StatusNom \<Rightarrow> Status list parser" where
  "p_status_list nom input =
     s_separated_list1 nom (s_tuple nom (s_tag nom '','') (s_space0 nom)) (p_status nom) input"

definition parse_status_list ::
  "StatusNom \<Rightarrow> (string \<Rightarrow> string) \<Rightarrow> (ErrorKind \<Rightarrow> string) \<Rightarrow> string \<Rightarrow> (string + Status list) outcome" where
  "parse_status_list nom str_debug kind_debug input =
     try_bind (s_all_consuming nom (p_status_list nom) input) (\<lambda>r.
       Inr (case r of Inl e \<Rightarrow> Inl (format_parse_error str_debug kind_debug e) | Inr (_, ss) \<Rightarrow> Inr ss))"

record StatusList =
  sl_statuses :: "Status list"

definition StatusList_from_str ::
  "StatusNom \<Rightarrow> (string \<Rightarrow> string) \<Rightarrow> (ErrorKind \<Rightarrow> string) \<Rightarrow> string \<Rightarrow> (string + StatusList) outcome" where
  "StatusList_from_str nom str_debug kind_debug s =
     try_bind (parse_status_list nom str_debug kind_debug s) (\<lambda>r. Inr (map_sum id (\<lambda>ss. \<lparr>sl_statuses = ss\<rparr>) r))"

section \<open>The documented behaviour of the library\<close>

text \<open>\<^verbatim>\<open>alt\<close> takes the first parser that does not fail; with the errors of this program the last error is kept.\<close>

fun p_alt :: "'a parser list \<Rightarrow> 'a parser" where
  "p_alt [p] i = p i"
| "p_alt (p # ps) i = try_bind (p i) (\<lambda>r. case r of Inl (NErr _) \<Rightarrow> p_alt ps i | r \<Rightarrow> Inr r)"
| "p_alt [] i = Inr (Inl (NIncomplete []))"

definition blank :: "char \<Rightarrow> bool" where
  "blank c \<longleftrightarrow> c = CHR '' '' \<or> c = CHR 0x09"

definition status_nom_ok :: "StatusNom \<Rightarrow> bool" where
  "status_nom_ok nom \<longleftrightarrow>
     (\<forall>t i. s_tag nom t i =
        Inr (if prefix t i then Inr (drop (length t) i, t) else Inl (NErr (from_error_kind i KTag)))) \<and>
     (\<forall>i. s_space0 nom i = Inr (Inr (dropWhile blank i, takeWhile blank i))) \<and>
     (\<forall>p q. s_tuple nom p q = p_then p (\<lambda>a. p_then q (\<lambda>b. p_return (a, b)))) \<and>
     (\<forall>p f. s_map nom p f = p_then p (\<lambda>a. p_return (f a))) \<and>
     (\<forall>ps i. ps \<noteq> [] \<longrightarrow> s_alt nom ps i = p_alt ps i) \<and>
     (\<forall>sep p i. s_separated_list1 nom sep p i =
        p_then p (\<lambda>a. p_then (p_separated (Suc (length i)) sep p) (\<lambda>as. p_return (a # as))) i) \<and>
     (\<forall>p. s_all_consuming nom p =
        p_then p (\<lambda>a i. if i = [] then p_return a i else Inr (Inl (NErr (from_error_kind i KEof)))))"

section \<open>Lists of names are read\<close>

fun status_name :: "Status \<Rightarrow> string" where
  "status_name StWaiting = ''waiting''"
| "status_name StRunning = ''running''"
| "status_name StFinished = ''finished''"
| "status_name StFailed = ''failed''"
| "status_name StCanceled = ''canceled''"

lemma status_name_from_str: "Status_from_str (status_name s) = Inr s"
  by (cases s) simp_all

lemma p_status_name:
  assumes "status_nom_ok nom"
  shows "p_status nom (status_name s @ i) = Inr (Inr (i, s))"
proof -
  have alt: "s_alt nom (p # ps) i = p_alt (p # ps) i" for p ps i using assms by (simp add: status_nom_ok_def)
  show ?thesis
    unfolding p_status_def alt
    using assms by (cases s) (simp_all add: status_nom_ok_def p_then_def p_return_def)
qed

definition separated :: "(string \<times> Status) list \<Rightarrow> string" where
  "separated xs = concat (map (\<lambda>(b, s). CHR '','' # b @ status_name s) xs)"

lemma p_separated_names:
  assumes "status_nom_ok nom"
  shows "\<forall>(b, s) \<in> set xs. list_all blank b \<Longrightarrow> length xs < n \<Longrightarrow>
    p_separated n (s_tuple nom (s_tag nom '','') (s_space0 nom)) (p_status nom) (separated xs) = Inr (Inr ([], map snd xs))"
proof (induction xs arbitrary: n)
  case Nil
  have "s_tuple nom (s_tag nom '','') (s_space0 nom) [] = Inr (Inl (NErr (from_error_kind [] KTag)))"
    using assms by (simp add: status_nom_ok_def p_then_def)
  with Nil show ?case by (cases n) (simp_all add: separated_def)
next
  case (Cons x xs)
  obtain b s where x: "x = (b, s)" by force
  obtain m where n: "n = Suc m" using Cons by (cases n) auto
  have b: "\<forall>c \<in> set b. blank c" using Cons.prems(1) x by (simp add: list_all_iff)
  have "\<not> blank (hd (status_name s @ separated xs))" "status_name s @ separated xs \<noteq> []"
    by (cases s; simp add: blank_def)+
  then have "dropWhile blank (b @ status_name s @ separated xs) = status_name s @ separated xs"
    using b by (cases "status_name s @ separated xs") simp_all
  then have "\<exists>t. s_tuple nom (s_tag nom '','') (s_space0 nom) (separated (x # xs)) =
      Inr (Inr (status_name s @ separated xs, t))"
    using assms x by (simp add: status_nom_ok_def p_then_def p_return_def separated_def)
  then show ?case
    using Cons n p_status_name [OF assms, of s "separated xs"]
    by (auto simp: p_then_def p_return_def separated_def x)
qed

lemma status_list_read:
  assumes "status_nom_ok nom" "\<forall>(b, s) \<in> set xs. list_all blank b"
  shows "StatusList_from_str nom str_debug kind_debug (status_name s @ separated xs) =
    Inr (Inr \<lparr>sl_statuses = s # map snd xs\<rparr>)"
proof -
  let ?i = "status_name s @ separated xs"
  have "length xs \<le> length (separated xs)" by (induction xs) (auto simp: separated_def)
  then have "p_separated (Suc (length ?i)) (s_tuple nom (s_tag nom '','') (s_space0 nom)) (p_status nom) (separated xs) =
      Inr (Inr ([], map snd xs))"
    by (intro p_separated_names [OF assms]) simp
  then have "p_status_list nom ?i = Inr (Inr ([], s # map snd xs))"
    using assms(1) p_status_name [OF assms(1), of s "separated xs"]
    by (simp add: p_status_list_def status_nom_ok_def p_then_def p_return_def del: p_separated.simps)
  then show ?thesis
    using assms(1)
    by (simp add: StatusList_from_str_def parse_status_list_def status_nom_ok_def p_then_def p_return_def)
qed

end
