(* ===== verification/CpuParser.thy ===== *)
theory CpuParser
  imports StatusParser ClientOutput
begin

text \<open>
  The parser of requests for processors of \<^verbatim>\<open>src/src/client/resources.rs\<close>, over the
  combinators of \<^verbatim>\<open>nom\<close> at the types of this grammar. The lemmas show that what the client
  prints for a request is read back to the request and that no text makes the parser panic.
\<close>

record CpuNom =
  q_tag :: "string \<Rightarrow> string parser"
  q_multispace1 :: "string parser"
  q_alt_policy :: "string parser list \<Rightarrow> string parser"
  q_preceded :: "string parser \<Rightarrow> string parser \<Rightarrow> string parser"
  q_opt :: "string parser \<Rightarrow> string option parser"
  q_tuple :: "u32 parser \<Rightarrow> string option parser \<Rightarrow> (u32 \<times> string option) parser"
  q_map :: "string parser \<Rightarrow> (string \<Rightarrow> CpuRequest) \<Rightarrow> CpuRequest parser"
  q_map_res :: "(u32 \<times> string option) parser \<Rightarrow> (u32 \<times> string option \<Rightarrow> (string + CpuRequest) outcome) \<Rightarrow> CpuRequest parser"
  q_alt :: "CpuRequest parser list \<Rightarrow> CpuRequest parser"
  q_all_consuming :: "CpuRequest parser \<Rightarrow> CpuRequest parser"

definition p_cpu_request_text :: "Nom \<Rightarrow> CpuNom \<Rightarrow> CpuRequest parser" where
  "p_cpu_request_text nom cn input =
     q_alt cn
       [q_map cn (q_tag cn ''all'') (\<lambda>_. AllCpus),
        q_map_res cn
          (q_tuple cn (p_u32 nom)
            (q_opt cn (q_preceded cn (q_multispace1 cn)
              (q_alt_policy cn [q_tag cn ''compact!'', q_tag cn ''compact'', q_tag cn ''scatter'']))))
          (\<lambda>r. p_cpu_request (Some r))] input"

definition parse_cpu_request ::
  "Nom \<Rightarrow> CpuNom \<Rightarrow> (string \<Rightarrow> string) \<Rightarrow> (ErrorKind \<Rightarrow> string) \<Rightarrow> string \<Rightarrow> (string + CpuRequest) outcome" where
  "parse_cpu_request nom cn str_debug kind_debug input =
     try_bind (q_all_consuming cn (p_cpu_request_text nom cn) input) (\<lambda>r.
       Inr (case r of Inl e \<Rightarrow> Inl (format_parse_error str_debug kind_debug e) | Inr (_, a) \<Rightarrow> Inr a))"

section \<open>The documented behaviour of the library\<close>

definition multispace :: "char \<Rightarrow> bool" where
  "multispace c \<longleftrightarrow> blank c \<or> c = CHR 0x0A \<or> c = CHR 0x0D"

definition p_opt :: "'a parser \<Rightarrow> 'a option parser" where
  "p_opt p i = try_bind (p i) (\<lambda>r. Inr (case r of
     Inr (i', a) \<Rightarrow> Inr (i', Some a) | Inl (NErr _) \<Rightarrow> Inr (i, None) | Inl e \<Rightarrow> Inl e))"

definition cpu_nom_ok :: "CpuNom \<Rightarrow> bool" where
  "cpu_nom_ok cn \<longleftrightarrow>
     (\<forall>t i. q_tag cn t i =
        Inr (if prefix t i then Inr (drop (length t) i, t) else Inl (NErr (from_error_kind i KTag)))) \<and>
     (\<forall>i. \<exists>e. q_multispace1 cn i =
        Inr (if i \<noteq> [] \<and> multispace (hd i) then Inr (dropWhile multispace i, takeWhile multispace i) else Inl (NErr e))) \<and>
     (\<forall>ps i. ps \<noteq> [] \<longrightarrow> q_alt_policy cn ps i = p_alt ps i) \<and>
     (\<forall>p q. q_preceded cn p q = p_then p (\<lambda>_. q)) \<and>
     (\<forall>p. q_opt cn p = p_opt p) \<and>
     (\<forall>p q. q_tuple cn p q = p_then p (\<lambda>a. p_then q (\<lambda>b. p_return (a, b)))) \<and>
     (\<forall>p f. q_map cn p f = p_then p (\<lambda>a. p_return (f a))) \<and>
     (\<forall>p f. q_map_res cn p f = p_map_res p f) \<and>
     (\<forall>ps i. ps \<noteq> [] \<longrightarrow> q_alt cn ps i = p_alt ps i) \<and>
     (\<forall>p. q_all_consuming cn p =
        p_then p (\<lambda>a i. if i = [] then p_return a i else Inr (Inl (NErr (from_error_kind i KEof)))))"

lemma cpu_nom_okD:
  assumes "cpu_nom_ok cn"
  shows "q_tag cn t i = Inr (if prefix t i then Inr (drop (length t) i, t) else Inl (NErr (from_error_kind i KTag)))"
    and "\<exists>e. q_multispace1 cn i =
        Inr (if i \<noteq> [] \<and> multispace (hd i) then Inr (dropWhile multispace i, takeWhile multispace i) else Inl (NErr e))"
    and "q_alt_policy cn (s # ss) i = p_alt (s # ss) i"
    and "q_preceded cn p3 q3 = p_then p3 (\<lambda>_. q3)"
    and "q_opt cn p4 = p_opt p4"
    and "q_tuple cn p5 q5 = p_then p5 (\<lambda>a. p_then q5 (\<lambda>b. p_return (a, b)))"
    and "q_map cn p6 f6 = p_then p6 (\<lambda>a. p_return (f6 a))"
    and "q_map_res cn p7 f7 = p_map_res p7 f7"
    and "q_alt cn (r # rs) i = p_alt (r # rs) i"
    and "q_all_consuming cn p9 =
        p_then p9 (\<lambda>a i. if i = [] then p_return a i else Inr (Inl (NErr (from_error_kind i KEof))))"
  using assms unfolding cpu_nom_ok_def by simp_all

section \<open>Requests are read back\<close>

definition p_policy :: "CpuNom \<Rightarrow> string option parser" where
  "p_policy cn = q_opt cn (q_preceded cn (q_multispace1 cn)
     (q_alt_policy cn [q_tag cn ''compact!'', q_tag cn ''compact'', q_tag cn ''scatter'']))"

lemma p_policy_cases:
  assumes "cpu_nom_ok cn"
  shows "\<exists>i' a. p_policy cn i = Inr (Inr (i', a)) \<and> a \<in> {None, Some ''compact'', Some ''compact!'', Some ''scatter''}"
proof -
  note Q = cpu_nom_okD [OF assms]
  obtain e where "q_multispace1 cn i =
      Inr (if i \<noteq> [] \<and> multispace (hd i) then Inr (dropWhile multispace i, takeWhile multispace i) else Inl (NErr e))"
    using Q(2) by blast
  then show ?thesis by (auto simp: p_policy_def Q(1,3-5) p_opt_def p_then_def)
qed

lemma p_policy_read:
  assumes "cpu_nom_ok cn" "a \<in> {''compact'', ''compact!'', ''scatter''}"
  shows "p_policy cn (CHR '' '' # a) = Inr (Inr ([], Some a))"
proof -
  note Q = cpu_nom_okD [OF assms(1)]
  have "dropWhile multispace (CHR '' '' # a) = a"
    using assms(2) by (auto simp: multispace_def blank_def)
  then obtain b where "q_multispace1 cn (CHR '' '' # a) = Inr (Inr (a, b))"
    using Q(2) [of "CHR '' '' # a"] by (auto simp: multispace_def blank_def)
  then show ?thesis using assms(2) by (auto simp: p_policy_def Q(1,3-5) p_opt_def p_then_def)
qed

lemma p_u32_returns: "nom_ok nom \<Longrightarrow> (\<exists>e. p_u32 nom i = Inr (Inl (NErr e))) \<or> (\<exists>i' n. p_u32 nom i = Inr (Inr (i', n)))"
  by (cases i) (auto simp: p_u32_def nom_okD p_map_res_def p_then_def p_return_def split: sum.split)

lemma p_cpu_request_text_eq:
  assumes "cpu_nom_ok cn"
  shows "p_cpu_request_text nom cn i =
    (if prefix ''all'' i then Inr (Inr (drop 3 i, AllCpus))
     else p_map_res (p_then (p_u32 nom) (\<lambda>a. p_then (p_policy cn) (\<lambda>b. p_return (a, b)))) (\<lambda>r. p_cpu_request (Some r)) i)"
  unfolding p_cpu_request_text_def p_policy_def [symmetric] cpu_nom_okD(6-9) [OF assms]
  by (simp add: cpu_nom_okD(1) [OF assms] p_then_def [of "q_tag cn _"] p_return_def eval_nat_numeral)

lemma parse_cpu_request_returns:
  assumes "nom_ok nom" "cpu_nom_ok cn"
  shows "\<exists>r. parse_cpu_request nom cn str_debug kind_debug i = Inr r"
proof -
  have "\<exists>r. p_cpu_request_text nom cn i = Inr r"
  proof (cases "prefix ''all'' i")
    case False
    show ?thesis using p_u32_returns [OF assms(1), of i]
    proof (elim disjE exE)
      fix j n assume u: "p_u32 nom i = Inr (Inr (j, n))"
      obtain k a where "p_policy cn j = Inr (Inr (k, a))" "a \<in> {None, Some ''compact'', Some ''compact!'', Some ''scatter''}"
        using p_policy_cases [OF assms(2)] by blast
      with u False show ?thesis
        by (auto simp: p_cpu_request_text_eq [OF assms(2)] p_map_res_def p_then_def p_return_def p_cpu_request_def)
    qed (use False in \<open>simp add: p_cpu_request_text_eq [OF assms(2)] p_map_res_def p_then_def\<close>)
  qed (simp add: p_cpu_request_text_eq [OF assms(2)])
  then show ?thesis
    by (auto simp: parse_cpu_request_def cpu_nom_okD(10) [OF assms(2)] p_then_def p_return_def split: sum.split)
qed

fun cpu_count :: "CpuRequest \<Rightarrow> u32 option" where
  "cpu_count (Compact n) = Some n"
| "cpu_count (ForceCompact n) = Some n"
| "cpu_count (Scatter n) = Some n"
| "cpu_count AllCpus = None"

lemma parse_cpu_request_policy:
  assumes "nom_ok nom" "cpu_nom_ok cn" "a \<in> {''compact'', ''compact!'', ''scatter''}" "p_cpu_request (Some (n, Some a)) = Inr (Inr r)"
  shows "parse_cpu_request nom cn str_debug kind_debug (show_u32 n @ CHR '' '' # a) = Inr (Inr r)"
proof -
  have "stops (CHR '' '' # a)" by (simp add: stops_def is_dec_digit_def)
  note u = p_u32_show [OF assms(1) this, of n]
  have "\<not> prefix ''all'' (show_u32 n @ CHR '' '' # a)"
    using show_nat_digits [of "unat n"] show_nat_nonempty [of "unat n"]
    by (cases "show_u32 n") (auto simp: show_u32_def is_dec_digit_def)
  then have "p_cpu_request_text nom cn (show_u32 n @ CHR '' '' # a) = Inr (Inr ([], r))"
    using u p_policy_read [OF assms(2,3)] assms(4)
    by (simp add: p_cpu_request_text_eq [OF assms(2)] p_map_res_def p_then_def p_return_def)
  then show ?thesis
    by (simp add: parse_cpu_request_def cpu_nom_okD(10) [OF assms(2)] p_then_def p_return_def)
qed

text \<open>
  Claim C38. The text that the client shows for a request for processors, of any policy and any number
  but zero, is read back by the option \<^verbatim>\<open>--cpus\<close> to the same request, and no text at all makes
  the parser panic: its \<^verbatim>\<open>unreachable!()\<close> is.
\<close>

theorem cpu_request_roundtrip:
  assumes "nom_ok nom" "cpu_nom_ok cn"
  shows "(cpu_count r \<noteq> Some 0 \<longrightarrow>
      parse_cpu_request nom cn str_debug kind_debug (cpu_request_to_string r) = Inr (Inr r)) \<and>
    (\<exists>result. parse_cpu_request nom cn str_debug kind_debug i = Inr result)"
proof (intro conjI impI parse_cpu_request_returns [OF assms])
  assume n: "cpu_count r \<noteq> Some 0"
  show "parse_cpu_request nom cn str_debug kind_debug (cpu_request_to_string r) = Inr (Inr r)"
  proof (cases r)
    case AllCpus
    then show ?thesis
      by (simp add: parse_cpu_request_def p_cpu_request_text_eq [OF assms(2)] cpu_nom_okD(10) [OF assms(2)] p_then_def p_return_def)
  qed (use n parse_cpu_request_policy [OF assms] in \<open>auto simp: p_cpu_request_def\<close>)
qed

definition cpu_nom_spec :: CpuNom where
  "cpu_nom_spec =
     \<lparr>q_tag = (\<lambda>t i. Inr (if prefix t i then Inr (drop (length t) i, t) else Inl (NErr (from_error_kind i KTag)))),
      q_multispace1 = (\<lambda>i. Inr (if i \<noteq> [] \<and> multispace (hd i) then Inr (dropWhile multispace i, takeWhile multispace i)
        else Inl (NErr (from_error_kind i KSatisfy)))),
      q_alt_policy = p_alt, q_preceded = (\<lambda>p q. p_then p (\<lambda>_. q)), q_opt = p_opt,
      q_tuple = (\<lambda>p q. p_then p (\<lambda>a. p_then q (\<lambda>b. p_return (a, b)))),
      q_map = (\<lambda>p f. p_then p (\<lambda>a. p_return (f a))), q_map_res = p_map_res, q_alt = p_alt,
      q_all_consuming = (\<lambda>p.
        p_then p (\<lambda>a i. if i = [] then p_return a i else Inr (Inl (NErr (from_error_kind i KEof)))))\<rparr>"

lemma cpu_nom_spec_ok: "cpu_nom_ok cpu_nom_spec"
  by (auto simp: cpu_nom_ok_def cpu_nom_spec_def)

theorem cpu_request_roundtrip_witness:
  "parse_cpu_request nom_spec cpu_nom_spec id (\<lambda>_. []) ''5 compact!'' = Inr (Inr (ForceCompact 5)) \<and>
   (\<exists>result. parse_cpu_request nom_spec cpu_nom_spec id (\<lambda>_. []) ''5 dense'' = Inr result)"
proof -
  have "cpu_request_to_string (ForceCompact 5) = ''5 compact!''" by (simp add: show_u32_def shown_digits)
  then show ?thesis
    using cpu_request_roundtrip [OF nom_spec_ok cpu_nom_spec_ok, of "ForceCompact 5" id "\<lambda>_. []" "''5 dense''"] by simp
qed

end
