(* ===== verification/CommandLine.thy ===== *)
theory CommandLine
  imports ServerDirectory ClientSubmit CpuParser
begin

text \<open>
  The program \<^verbatim>\<open>hq\<close>: the values of its options, the commands and \<^verbatim>\<open>main\<close>
  (\<^verbatim>\<open>src/src/bin/hq.rs\<close>), with \<^verbatim>\<open>start_hq_worker\<close> of
  \<^verbatim>\<open>src/src/worker/start.rs\<close> and the summary table of
  \<^verbatim>\<open>src/src/client/commands/log.rs\<close>. The splitting of the arguments into options is done
  by a library; a command gets its options parsed. The lemmas show what a command does when no
  server is found, that \<^verbatim>\<open>hq wait\<close> returns with the right exit code, and with what key and
  address a worker connects to a started server.
\<close>

section \<open>Values of options\<close>

datatype SelectorArg = ArgAll | ArgLast | ArgId IntArray

definition SelectorArg_from_str ::
  "Nom \<Rightarrow> (string \<Rightarrow> string) \<Rightarrow> (ErrorKind \<Rightarrow> string) \<Rightarrow> string \<Rightarrow> (string + SelectorArg) outcome" where
  "SelectorArg_from_str nom str_debug kind_debug s =
     (if s = ''last'' then Inr (Inr ArgLast)
      else if s = ''all'' then Inr (Inr ArgAll)
      else try_bind (parse_array nom str_debug kind_debug s) (\<lambda>r. Inr (map_sum id ArgId r)))"

fun selector_of :: "SelectorArg \<Rightarrow> Selector" where
  "selector_of (ArgId array) = Specific array"
| "selector_of ArgLast = LastN 1"
| "selector_of ArgAll = All"

datatype ColorPolicy = PolicyAuto | PolicyAlways | PolicyNever

definition ColorPolicy_from_str :: "string \<Rightarrow> string + ColorPolicy" where
  "ColorPolicy_from_str s =
     (if s = ''auto'' then Inr PolicyAuto
      else if s = ''always'' then Inr PolicyAlways
      else if s = ''never'' then Inr PolicyNever
      else Inl ''Invalid color policy'')"

record CommonOpts =
  co_server_dir :: "path option"
  co_colors :: ColorPolicy

definition make_global_settings :: "path option \<Rightarrow> path \<Rightarrow> bool \<Rightarrow> path option \<Rightarrow> CommonOpts \<Rightarrow> GlobalSettings outcome" where
  "make_global_settings home_dir temp_dir tty cwd opts =
     (let default_server_directory_path =
            path_join (case home_dir of Some h \<Rightarrow> h | None \<Rightarrow> temp_dir) ''.hq-server'';
          color = (case co_colors opts of
                     PolicyAlways \<Rightarrow> AlwaysAnsi
                   | PolicyAuto \<Rightarrow> if tty then AutoColor else Never
                   | PolicyNever \<Rightarrow> Never) in
      try_bind (absolute_path cwd
          (case co_server_dir opts of Some d \<Rightarrow> d | None \<Rightarrow> default_server_directory_path)) (\<lambda>dir.
        Inr (GlobalSettings_new dir color)))"

text \<open>The override of the colour of the terminal, if one is set.\<close>

definition set_colored_settings :: "GlobalSettings \<Rightarrow> bool option" where
  "set_colored_settings settings =
     (case color_policy settings of
        Always \<Rightarrow> Some True
      | AlwaysAnsi \<Rightarrow> Some True
      | Never \<Rightarrow> Some False
      | AutoColor \<Rightarrow> None)"

record ServerStartOpts =
  st_host :: "string option"
  st_idle_timeout :: "nat option"
  st_autoalloc_interval :: "nat option"

datatype ServerCommand = ServerStart ServerStartOpts | ServerStop | ServerInfo bool

record WorkerListOpts =
  wl_running :: bool
  wl_offline :: bool

datatype WorkerCommand =
    WorkerStart WorkerStartOpts
  | WorkerStop SelectorArg
  | WorkerListing WorkerListOpts
  | WorkerHwdetect
  | WorkerInfoOf WorkerId
  | WorkerAddress WorkerId

record JobDetailOpts =
  jo_selector_arg :: SelectorArg
  jo_tasks :: bool

datatype SubCommand =
    CmdServer ServerCommand
  | CmdJobs "Status list"
  | CmdJob JobDetailOpts
  | CmdSubmit SubmitOpts
  | CmdCancel SelectorArg
  | CmdWorker WorkerCommand
  | CmdResubmit ResubmitOpts
  | CmdWait SelectorArg
  | CmdLog path LogCommand

section \<open>Starting a worker\<close>

text \<open>
  The machine of a worker: its host name, the parsers, the files of the system, the number of its
  processors, the directory for temporary files, the environment variables, the limit that PBS
  answers, the resolution of names and the worker library.
\<close>

record 'addr WorkerSystem =
  ws_hostname :: "string option"
  ws_parse_cpus :: "string \<Rightarrow> string + ResourceDescriptor"
  ws_sysfs :: "path \<Rightarrow> string option"
  ws_parse_range :: "string \<Rightarrow> (u32 \<times> u32 option) list option"
  ws_n_cpus :: u32
  ws_new_with_socket_size :: "u32 \<Rightarrow> u32 \<Rightarrow> ResourceDescriptor"
  ws_tmp :: "path option"
  ws_to_json :: "ManagerInfo \<Rightarrow> string + string"
  ws_vars :: "string \<Rightarrow> string option"
  ws_timelimit :: "string \<Rightarrow> (string + nat) outcome"
  ws_lookup_host :: "string \<Rightarrow> string + 'addr list"
  ws_run_worker :: "'addr \<Rightarrow> WorkerConfiguration \<Rightarrow> SecretKey \<Rightarrow> string + WorkerId \<times> WorkerConfiguration"

definition detected :: "'addr WorkerSystem \<Rightarrow> string + ResourceDescriptor" where
  "detected ws = detect_resource (ws_sysfs ws) (ws_parse_range ws) (ws_n_cpus ws) (ws_new_with_socket_size ws)"

definition configured :: "'addr WorkerSystem \<Rightarrow> WorkerStartOpts \<Rightarrow> (string + WorkerConfiguration) outcome" where
  "configured ws opts =
     gather_configuration (ws_hostname ws) (ws_parse_cpus ws) (detected ws) (ws_tmp ws) (ws_to_json ws) (ws_vars ws)
       (ws_timelimit ws) opts"

definition lift_anyhow :: "(string + 'a) outcome \<Rightarrow> (anyhow, 'a) fs_cmd" where
  "lift_anyhow r = (\<lambda>fs. try_bind r (\<lambda>a. Inr (fs, map_sum (\<lambda>e. [e]) id a)))"

text \<open>The result has the address and the key that the worker and its streamer connect with.\<close>

definition start_hq_worker ::
  "ServerDirApi \<Rightarrow> 'rr Formats \<Rightarrow> 'addr WorkerSystem \<Rightarrow> GlobalSettings \<Rightarrow> WorkerStartOpts \<Rightarrow>
   (anyhow, Output list \<times> 'addr \<times> SecretKey) fs_cmd" where
  "start_hq_worker api fmt ws gs opts =
     fs_bind (with_context (\<lambda>e. [''Cannot load server directory'', HqError_fmt e])
       (ServerDir_open api (server_dir gs))) (\<lambda>sd.
     fs_bind (with_context (\<lambda>e. [''Cannot load access record from '' @ path_debug api (access_filename sd), HqError_fmt e])
       (read_access_record api sd)) (\<lambda>record.
     let server_address = ar_host record @ '':'' @ show_nat (unat (ar_worker_port record)) in
     fs_bind (lift_anyhow (configured ws opts)) (\<lambda>configuration.
     fs_bind (lift_anyhow (Inr (ws_lookup_host ws server_address))) (\<lambda>addrs.
     fs_bind (lift_outcome (unwrap (case addrs of [] \<Rightarrow> None | a # _ \<Rightarrow> Some a))) (\<lambda>server_addr.
     fs_bind (lift_anyhow (Inr (ws_run_worker ws server_addr configuration (ar_tako_secret_key record)))) (\<lambda>(wid, conf).
     fs_bind (lift_outcome (print_worker_configuration fmt gs wid conf)) (\<lambda>table.
     fs_return
       ([LogInfo (''Starting hyperqueue worker '' @ pkg_version api), LogInfo (''Connecting to: '' @ server_address), table],
        server_addr, ar_tako_secret_key record))))))))"

section \<open>The log\<close>

definition print_summary :: "'rr Formats \<Rightarrow> GlobalSettings \<Rightarrow> path \<Rightarrow> Summary \<Rightarrow> Output outcome" where
  "print_summary fmt gs filename s =
     (let row = (\<lambda>name c. [Bold (cell name), cell c]) in
      print_table fmt gs None
        [row ''Filename'' (path_display fmt filename),
         row ''Tasks'' (show_u32 (sum_n_tasks s)),
         row ''Opened streams'' (show_nat (unat (n_opened s))),
         row ''Stdout/stderr size'' (human_size (stdout_size s) @ '' / '' @ human_size (stderr_size s)),
         row ''Superseded streams'' (show_nat (unat (n_superseded s))),
         row ''Superseded stdout/stderr size''
           (human_size (superseded_stdout_size s) @ '' / '' @ human_size (superseded_stderr_size s))])"

text \<open>The texts of the errors of a log; those of the operating system are given.\<close>

fun log_error_text :: "(log_error \<Rightarrow> string) \<Rightarrow> log_error \<Rightarrow> string" where
  "log_error_text os InvalidFormat = ''Invalid file format''"
| "log_error_text os (InvalidVersion v) = ''Invalid version log file version: '' @ show_u32 v"
| "log_error_text os (InvalidEntry r) = ''Invalid  entry type: '' @ show_nat (unat r)"
| "log_error_text os InstanceExists = ''Instance already exists''"
| "log_error_text os InvalidChannel = ''Invalid channel id''"
| "log_error_text os ChunkOfInvalidTask = ''Data chunk for invalid task''"
| "log_error_text os EndOfInvalidTask = ''Termination of an invalid task''"
| "log_error_text os (TaskNotFound t) = ''Task '' @ show_u32 t @ '' not found''"
| "log_error_text os (NotFinished t) = ''Stream for task '' @ show_u32 t @ '' is not finished''"
| "log_error_text os e = os e"

section \<open>Commands\<close>

text \<open>
  What the process finds outside: the library parts of the server directory, of the client and of
  the worker, the connection that a record leads to, the machine on which a server is started, the
  log files, and the standard directories and terminal of the user. A command returns the file
  system, what it printed and its result; it returns nothing if it waits for ever.
\<close>

record ('c, 'rr, 'q, 'addr) Cli =
  cli_api :: ServerDirApi
  cli_connect :: "AccessRecord \<Rightarrow> HqError + 'c"
  cli_client :: "('c, 'rr) ClientEnv"
  cli_hostname :: "string option"
  cli_startup :: Startup
  cli_run :: "('rr, 'q) State \<Rightarrow> ServerEnd"
  cli_worker :: "'addr WorkerSystem"
  cli_codec :: Codec
  cli_logs :: "path \<Rightarrow> bytes option"
  cli_os_error :: "log_error \<Rightarrow> string"
  cli_home_dir :: "path option"
  cli_temp_dir :: path
  cli_tty :: bool
  cli_debug :: "anyhow \<Rightarrow> string"

type_synonym cli_result = "(fs \<times> (Output + log_output) list \<times> (anyhow + unit)) outcome option"

definition client_env :: "('c, 'rr, 'q, 'addr) Cli \<Rightarrow> GlobalSettings \<Rightarrow> ('c, 'rr) ClientEnv" where
  "client_env cli gs = (cli_client cli)\<lparr>ce_settings := gs\<rparr>"

definition cli_fs :: "(anyhow, Output list) fs_cmd \<Rightarrow> fs \<Rightarrow> cli_result" where
  "cli_fs m fs = Some (try_bind (m fs) (\<lambda>(fs, r).
     Inr (case r of Inl e \<Rightarrow> (fs, [], Inl e) | Inr out \<Rightarrow> (fs, map Inl out, Inr ()))))"

definition with_connection ::
  "('c, 'rr, 'q, 'addr) Cli \<Rightarrow> GlobalSettings \<Rightarrow> ('c \<Rightarrow> ('c \<times> Output list \<times> (string + unit)) outcome option) \<Rightarrow>
   fs \<Rightarrow> cli_result" where
  "with_connection cli gs f fs =
     (case get_client_connection (cli_api cli) (cli_connect cli) (server_dir gs) fs of
        Inl p \<Rightarrow> Some (Inl p)
      | Inr (fs, Inl e) \<Rightarrow> Some (Inr (fs, [], Inl e))
      | Inr (fs, Inr c) \<Rightarrow>
          map_option (\<lambda>r. try_bind r (\<lambda>(_, out, r). Inr (fs, map Inl out, map_sum (\<lambda>e. [e]) id r))) (f c))"

abbreviation run_cmd :: "('c, unit) cmd \<Rightarrow> 'c \<Rightarrow> ('c \<times> Output list \<times> (string + unit)) outcome option" where
  "run_cmd m c \<equiv> Some (m c)"

definition command_server_start :: "('c, 'rr, 'q, 'addr) Cli \<Rightarrow> GlobalSettings \<Rightarrow> ServerStartOpts \<Rightarrow> fs \<Rightarrow> cli_result" where
  "command_server_start cli gs opts =
     cli_fs (fs_bind (lift_outcome (case st_host opts of Some h \<Rightarrow> Inr h | None \<Rightarrow> unwrap (cli_hostname cli))) (\<lambda>host.
       init_hq_server (cli_api cli) (cli_connect cli) (ce_formats (cli_client cli)) gs
         \<lparr>sc_host = host, sc_idle_timeout = st_idle_timeout opts, sc_autoalloc_interval = st_autoalloc_interval opts\<rparr>
         (cli_startup cli) (cli_run cli)))"

definition command_server_stop :: "('c, 'rr, 'q, 'addr) Cli \<Rightarrow> GlobalSettings \<Rightarrow> fs \<Rightarrow> cli_result" where
  "command_server_stop cli gs = with_connection cli gs (run_cmd (stop_server (client_env cli gs)))"

definition command_server_info :: "('c, 'rr, 'q, 'addr) Cli \<Rightarrow> GlobalSettings \<Rightarrow> bool \<Rightarrow> fs \<Rightarrow> cli_result" where
  "command_server_info cli gs stats =
     (if stats then with_connection cli gs (run_cmd (print_server_stats (client_env cli gs)))
      else cli_fs (fs_bind (print_server_info (cli_api cli) (cli_connect cli) (ce_formats (cli_client cli)) gs)
        (\<lambda>out. fs_return [out])))"

definition command_job_list :: "('c, 'rr, 'q, 'addr) Cli \<Rightarrow> GlobalSettings \<Rightarrow> Status list \<Rightarrow> fs \<Rightarrow> cli_result" where
  "command_job_list cli gs job_filters =
     with_connection cli gs (run_cmd (output_job_list (client_env cli gs) job_filters))"

definition command_job_detail :: "('c, 'rr, 'q, 'addr) Cli \<Rightarrow> GlobalSettings \<Rightarrow> JobDetailOpts \<Rightarrow> fs \<Rightarrow> cli_result" where
  "command_job_detail cli gs opts =
     (if jo_selector_arg opts = ArgAll then
        cli_fs (fs_return [LogWarn ''Specifier all is not implemented for job details, did you mean: job list?''])
      else with_connection cli gs
        (run_cmd (output_job_detail (client_env cli gs) (selector_of (jo_selector_arg opts)) (jo_tasks opts))))"

definition command_submit :: "('c, 'rr, 'q, 'addr) Cli \<Rightarrow> GlobalSettings \<Rightarrow> SubmitOpts \<Rightarrow> fs \<Rightarrow> cli_result" where
  "command_submit cli gs opts = with_connection cli gs (submit_computation (client_env cli gs) opts)"

definition command_cancel :: "('c, 'rr, 'q, 'addr) Cli \<Rightarrow> GlobalSettings \<Rightarrow> SelectorArg \<Rightarrow> fs \<Rightarrow> cli_result" where
  "command_cancel cli gs arg =
     with_connection cli gs (run_cmd (client_cancel_job (client_env cli gs) (selector_of arg)))"

definition command_worker_start :: "('c, 'rr, 'q, 'addr) Cli \<Rightarrow> GlobalSettings \<Rightarrow> WorkerStartOpts \<Rightarrow> fs \<Rightarrow> cli_result" where
  "command_worker_start cli gs opts =
     cli_fs (fs_bind (start_hq_worker (cli_api cli) (ce_formats (cli_client cli)) (cli_worker cli) gs opts)
       (\<lambda>(out, _, _). fs_return out))"

definition command_worker_stop :: "('c, 'rr, 'q, 'addr) Cli \<Rightarrow> GlobalSettings \<Rightarrow> SelectorArg \<Rightarrow> fs \<Rightarrow> cli_result" where
  "command_worker_stop cli gs arg =
     with_connection cli gs (run_cmd (client_stop_worker (client_env cli gs) (selector_of arg)))"

definition command_worker_list :: "('c, 'rr, 'q, 'addr) Cli \<Rightarrow> GlobalSettings \<Rightarrow> WorkerListOpts \<Rightarrow> fs \<Rightarrow> cli_result" where
  "command_worker_list cli gs opts =
     (let (online, offline) =
        (if \<not> wl_running opts \<and> \<not> wl_offline opts then (True, True) else (wl_running opts, wl_offline opts)) in
      with_connection cli gs (run_cmd (cmd_bind (get_worker_list (client_env cli gs) online offline) (\<lambda>ws.
        cmd_bind (cmd_lift (print_worker_info (ce_formats (cli_client cli)) ws gs)) (\<lambda>out. cmd_print [out])))))"

definition command_worker_info :: "('c, 'rr, 'q, 'addr) Cli \<Rightarrow> GlobalSettings \<Rightarrow> WorkerId \<Rightarrow> fs \<Rightarrow> cli_result" where
  "command_worker_info cli gs i =
     with_connection cli gs (run_cmd (cmd_bind (get_worker_info (client_env cli gs) i) (\<lambda>response.
       case response of
         Some worker \<Rightarrow>
           cmd_bind (cmd_lift (print_worker_configuration (ce_formats (cli_client cli)) gs i (wi_configuration worker)))
             (\<lambda>out. cmd_print [out])
       | None \<Rightarrow> cmd_print [LogError (''Worker '' @ show_u32 i @ '' not found'')])))"

definition command_resubmit :: "('c, 'rr, 'q, 'addr) Cli \<Rightarrow> GlobalSettings \<Rightarrow> ResubmitOpts \<Rightarrow> fs \<Rightarrow> cli_result" where
  "command_resubmit cli gs opts = with_connection cli gs (run_cmd (resubmit_computation (client_env cli gs) opts))"

definition command_worker_hwdetect :: "('c, 'rr, 'q, 'addr) Cli \<Rightarrow> fs \<Rightarrow> cli_result" where
  "command_worker_hwdetect cli =
     cli_fs (fs_bind (lift_anyhow (Inr (detected (cli_worker cli)))) (\<lambda>descriptor.
       fs_return (print_resource_descriptor (ce_formats (cli_client cli)) descriptor)))"

definition command_worker_address :: "('c, 'rr, 'q, 'addr) Cli \<Rightarrow> GlobalSettings \<Rightarrow> WorkerId \<Rightarrow> fs \<Rightarrow> cli_result" where
  "command_worker_address cli gs i =
     with_connection cli gs (run_cmd (cmd_bind (get_worker_info (client_env cli gs) i) (\<lambda>response.
       case response of
         Some info \<Rightarrow> cmd_print [Print [Plain (wc_hostname (wi_configuration info) @ newline)]]
       | None \<Rightarrow> cmd_fail (''Worker '' @ show_u32 i @ '' not found''))))"

definition command_wait :: "('c, 'rr, 'q, 'addr) Cli \<Rightarrow> GlobalSettings \<Rightarrow> SelectorArg \<Rightarrow> fs \<Rightarrow> cli_result" where
  "command_wait cli gs arg =
     with_connection cli gs (wait_for_job_with_selector (client_env cli gs) (selector_of arg))"

definition run_log :: "('c, 'rr, 'q, 'addr) Cli \<Rightarrow> GlobalSettings \<Rightarrow> path \<Rightarrow> LogCommand \<Rightarrow> fs \<Rightarrow> cli_result" where
  "run_log cli gs filename command fs =
     Some (case command_log (cli_codec cli) (cli_logs cli) filename command of
        Inl (Panicked p) \<Rightarrow> Inl p
      | Inl (Refused e) \<Rightarrow> Inr (fs, [], Inl [log_error_text (cli_os_error cli) e])
      | Inr (PrintSummary s) \<Rightarrow>
          try_bind (print_summary (ce_formats (cli_client cli)) gs filename s) (\<lambda>out. Inr (fs, [Inl out], Inr ()))
      | Inr out \<Rightarrow> Inr (fs, [Inr out], Inr ()))"

section \<open>The program\<close>

fun dispatch :: "('c, 'rr, 'q, 'addr) Cli \<Rightarrow> GlobalSettings \<Rightarrow> SubCommand \<Rightarrow> fs \<Rightarrow> cli_result" where
  "dispatch cli gs (CmdServer (ServerStart opts)) = command_server_start cli gs opts"
| "dispatch cli gs (CmdServer ServerStop) = command_server_stop cli gs"
| "dispatch cli gs (CmdServer (ServerInfo stats)) = command_server_info cli gs stats"
| "dispatch cli gs (CmdWorker (WorkerStart opts)) = command_worker_start cli gs opts"
| "dispatch cli gs (CmdWorker (WorkerStop arg)) = command_worker_stop cli gs arg"
| "dispatch cli gs (CmdWorker (WorkerListing opts)) = command_worker_list cli gs opts"
| "dispatch cli gs (CmdWorker (WorkerInfoOf i)) = command_worker_info cli gs i"
| "dispatch cli gs (CmdWorker WorkerHwdetect) = command_worker_hwdetect cli"
| "dispatch cli gs (CmdWorker (WorkerAddress i)) = command_worker_address cli gs i"
| "dispatch cli gs (CmdJobs job_filters) = command_job_list cli gs job_filters"
| "dispatch cli gs (CmdJob opts) = command_job_detail cli gs opts"
| "dispatch cli gs (CmdSubmit opts) = command_submit cli gs opts"
| "dispatch cli gs (CmdCancel arg) = command_cancel cli gs arg"
| "dispatch cli gs (CmdResubmit opts) = command_resubmit cli gs opts"
| "dispatch cli gs (CmdWait arg) = command_wait cli gs arg"
| "dispatch cli gs (CmdLog filename command) = run_log cli gs filename command"

text \<open>How the process ends: with the exit code 0, or 1 after the text of the error on the error output.\<close>

datatype Exit = Success | Failure string

definition main ::
  "('c, 'rr, 'q, 'addr) Cli \<Rightarrow> CommonOpts \<Rightarrow> SubCommand \<Rightarrow> fs \<Rightarrow>
   (fs \<times> bool option \<times> (Output + log_output) list \<times> Exit) outcome option" where
  "main cli common subcmd fs =
     (case make_global_settings (cli_home_dir cli) (cli_temp_dir cli) (cli_tty cli) (process_dir (cli_api cli)) common of
        Inl p \<Rightarrow> Some (Inl p)
      | Inr gs \<Rightarrow>
          map_option (\<lambda>r. try_bind r (\<lambda>(fs, out, result).
            Inr (fs, set_colored_settings gs, out,
              case result of Inl e \<Rightarrow> Failure (cli_debug cli e) | Inr _ \<Rightarrow> Success)))
            (dispatch cli gs subcmd fs))"

section \<open>Commands without a server\<close>

fun needs_server :: "SubCommand \<Rightarrow> bool" where
  "needs_server (CmdServer (ServerStart _)) = False"
| "needs_server (CmdServer (ServerInfo stats)) = stats"
| "needs_server (CmdWorker (WorkerStart _)) = False"
| "needs_server (CmdWorker WorkerHwdetect) = False"
| "needs_server (CmdJob opts) = (jo_selector_arg opts \<noteq> ArgAll)"
| "needs_server (CmdLog _ _) = False"
| "needs_server _ = True"

lemma get_client_connection_missing:
  assumes "fs d = None" "fs (path_join d SYMLINK_PATH) = None"
  shows "get_client_connection api connect d fs =
    Inr (fs, Inl [''Invalid server directory'', ''Error: '' @ path_debug api d @ '' is not a directory''])"
  using assms
  by (simp add: get_client_connection_def ServerDir_open_def resolve_active_directory_def canonicalize_simps
      is_dir_simps with_context_def fs_bind_def fs_error_def)

lemma with_connection_error:
  "get_client_connection (cli_api cli) (cli_connect cli) (server_dir gs) fs = Inr (fs', Inl e) \<Longrightarrow>
   with_connection cli gs f fs = Some (Inr (fs', [], Inl e))"
  by (simp add: with_connection_def)

lemma dispatch_connection_error:
  assumes "get_client_connection (cli_api cli) (cli_connect cli) (server_dir gs) fs = Inr (fs', Inl e)" "needs_server subcmd"
  shows "dispatch cli gs subcmd fs = Some (Inr (fs', [], Inl e))"
  using assms(2)
  by (cases subcmd rule: needs_server.cases)
    (simp_all add: with_connection_error [OF assms(1)] command_server_stop_def command_server_info_def
      command_job_list_def command_job_detail_def command_submit_def command_cancel_def command_worker_stop_def
      command_worker_list_def command_worker_info_def command_resubmit_def command_worker_address_def command_wait_def)

text \<open>
  Without a server directory every command that talks to the server ends in the same
  way: it prints nothing, changes no file and exits with an error that names the directory.
\<close>

theorem no_server_reported:
  assumes "make_global_settings (cli_home_dir cli) (cli_temp_dir cli) (cli_tty cli) (process_dir (cli_api cli)) common = Inr gs"
    and "fs (server_dir gs) = None" "fs (path_join (server_dir gs) SYMLINK_PATH) = None" "needs_server subcmd"
  shows "main cli common subcmd fs = Some (Inr (fs, set_colored_settings gs, [],
    Failure (cli_debug cli [''Invalid server directory'',
      ''Error: '' @ path_debug (cli_api cli) (server_dir gs) @ '' is not a directory''])))"
  using dispatch_connection_error [where cli = cli, OF get_client_connection_missing [OF assms(2,3)] assms(4)] assms(1)
  by (simp add: main_def)

section \<open>Waiting on the command line\<close>

text \<open>
  Claim C7. \<^verbatim>\<open>hq wait\<close> ends when the jobs have ended, and its exit code is right: of the
  jobs that the selector finds open when the command starts, it exits with an error exactly if one
  has a failed task or a canceled one in the end, failures reported first. The server answers as
  the model does, one state for every request; jobs that have already ended when the command starts
  are not looked at.
\<close>

theorem hq_wait_exit_code:
  fixes T :: nat
  assumes "make_global_settings (cli_home_dir cli) (cli_temp_dir cli) (cli_tty cli) (process_dir (cli_api cli)) common = Inr gs"
    and "get_client_connection (cli_api cli) (cli_connect cli) (server_dir gs) fs = Inr (fs, Inr n)"
    and "served_by env now sts (cli_client cli)"
    and "handle_message env now (JobInfoReq (selector_of arg)) (sts n) = Some (Inr (st', JobInfoResponse infos, effects))"
    and "ids = ji_id ` set (filter (\<lambda>info. \<not> info_is_terminated info) infos)"
    and "jobs_settle sts ids job" "\<forall>i \<in> ids. info_is_terminated (make_job_info (job T i))"
    and "(\<Sum>i\<in>ids. unat (n_failed_tasks (job_counters (job T i)))) < 2 ^ 32"
    and "(\<Sum>i\<in>ids. unat (n_canceled_tasks (job_counters (job T i)))) < 2 ^ 32"
  shows "\<exists>out. main cli common (CmdWait arg) fs = Some (Inr (fs, set_colored_settings gs, out,
    (if \<exists>i \<in> ids. n_failed_tasks (job_counters (job T i)) > 0 then Failure (cli_debug cli [''Some jobs have failed''])
     else if \<exists>i \<in> ids. n_canceled_tasks (job_counters (job T i)) > 0
     then Failure (cli_debug cli [''Some jobs were canceled''])
     else Success)))"
proof -
  let ?ce = "client_env cli gs"
  let ?result = "if \<exists>i \<in> ids. n_failed_tasks (job_counters (job T i)) > 0 then Inl ''Some jobs have failed''
     else if \<exists>i \<in> ids. n_canceled_tasks (job_counters (job T i)) > 0 then Inl ''Some jobs were canceled'' else Inr ()"
  have served: "served_by env now sts ?ce" using assms(3) by (simp add: served_by_def client_env_def)
  have "\<exists>n' out. wait_for_jobs ?ce infos (Suc n) = Some (n', out, ?result)"
  proof (cases "ids = {}")
    case True
    then show ?thesis using assms(5) by (simp add: wait_for_jobs_def)
  next
    case False
    show ?thesis using wait_returns_result [OF served assms(5) False assms(6-9)] .
  qed
  then obtain n' out where "wait_for_jobs ?ce infos (Suc n) = Some (n', out, ?result)" by blast
  moreover have "rpc_call ?ce (JobInfoReq (selector_of arg)) as_job_info n = Inr (Suc n, [], Inr infos)"
    using served assms(4) by (simp add: rpc_call_def served_by_def)
  ultimately have "command_wait cli gs arg fs = Some (Inr (fs, map Inl out, map_sum (\<lambda>e. [e]) id ?result))"
    using assms(2) by (simp add: command_wait_def with_connection_def wait_for_job_with_selector_def then_wait_def)
  then show ?thesis using assms(1) by (auto simp: main_def)
qed

section \<open>Workers of a started server\<close>

text \<open>
  Claim C37. A worker finds the server that was started in the directory: it connects to the host
  and the worker port of the record that the start has stored, with the key for workers, while a
  client is connected with the record whose other port and key are for clients.
\<close>

theorem worker_finds_server:
  assumes "start_ok api fs (server_dir gs) record" "record_from_json api (record_to_json api record) = Inr record"
    and "ar_version record = pkg_version api"
    and "fs (current_link (server_dir gs)) = None \<or>
         path_exists fs (current_link (server_dir gs)) \<and> fs (current_link (server_dir gs)) \<noteq> Some DirNode"
    and "configured ws opts = Inr (Inr conf)"
    and "ws_lookup_host ws (ar_host record @ '':'' @ show_nat (unat (ar_worker_port record))) = Inr (addr # addrs)"
    and "ws_run_worker ws addr conf (ar_tako_secret_key record) = Inr (wid, conf')" "stdout_ok fmt"
  shows "\<exists>sd fs' out. ServerDir_create api (server_dir gs) record fs = Inr (fs', Inr sd) \<and>
    start_hq_worker api fmt ws gs opts fs' = Inr (fs', Inr (out, addr, ar_tako_secret_key record)) \<and>
    get_client_connection api Inr (server_dir gs) fs' = Inr (fs', Inr record)"
proof -
  note found = linked_found [OF assms(1-3)]
  have "ServerDir_create api (server_dir gs) record fs =
      Inr (linked_fs api fs (server_dir gs) record, Inr \<lparr>sd_path = start_dir api (server_dir gs) record\<rparr>)"
    using create_symlink_stored [OF assms(1,4)] by (simp add: ServerDir_create_stored [OF assms(1)] fs_return_def)
  moreover have "\<exists>out. start_hq_worker api fmt ws gs opts (linked_fs api fs (server_dir gs) record) =
      Inr (linked_fs api fs (server_dir gs) record, Inr (out, addr, ar_tako_secret_key record))"
    using found assms(5-8)
    by (simp add: start_hq_worker_def with_context_def lift_anyhow_def lift_outcome_def fs_return_def fs_bind_def
        print_worker_configuration_def print_table_def Let_def unwrap_def)
  moreover have "get_client_connection api Inr (server_dir gs) (linked_fs api fs (server_dir gs) record) =
      Inr (linked_fs api fs (server_dir gs) record, Inr record)"
    using found by (simp add: get_client_connection_def with_context_def fs_return_def fs_bind_def)
  ultimately show ?thesis by blast
qed

section \<open>Examples\<close>

definition sample_worker :: "string WorkerSystem" where
  "sample_worker =
     \<lparr>ws_hostname = Some ''node'', ws_parse_cpus = (\<lambda>_. Inl ''?''), ws_sysfs = (\<lambda>_. None), ws_parse_range = (\<lambda>_. None),
      ws_n_cpus = 2, ws_new_with_socket_size = (\<lambda>_ _. \<lparr>cpus = [[0, 1]]\<rparr>), ws_tmp = Some ''/tmp'',
      ws_to_json = (\<lambda>_. Inl ''?''), ws_vars = (\<lambda>_. None), ws_timelimit = (\<lambda>_. Inr (Inl ''?'')),
      ws_lookup_host = (\<lambda>a. Inr [a]), ws_run_worker = (\<lambda>_ conf _. Inr (1, conf))\<rparr>"

definition sample_cli :: "(nat, unit, unit, string) Cli" where
  "sample_cli =
     \<lparr>cli_api = sample_api, cli_connect = (\<lambda>_. Inr 0), cli_client = example_client example_states,
      cli_hostname = Some ''localhost'', cli_startup = sample_startup, cli_run = (\<lambda>_. StopCommand),
      cli_worker = sample_worker, cli_codec = big_endian, cli_logs = (\<lambda>_. None), cli_os_error = (\<lambda>_. ''?''),
      cli_home_dir = Some ''/home'', cli_temp_dir = ''/tmp'', cli_tty = False, cli_debug = concat\<rparr>"

definition sample_common :: CommonOpts where
  "sample_common = \<lparr>co_server_dir = Some ''/s'', co_colors = PolicyAuto\<rparr>"

lemma sample_settings:
  "make_global_settings (cli_home_dir sample_cli) (cli_temp_dir sample_cli) (cli_tty sample_cli)
     (process_dir (cli_api sample_cli)) sample_common = Inr (GlobalSettings_new ''/s'' Never)"
  by (simp add: make_global_settings_def sample_cli_def sample_common_def absolute_path_def)

lemma sample_record_ok:
  "record_from_json sample_api (record_to_json sample_api sample_record) = Inr sample_record"
  "ar_version sample_record = pkg_version sample_api" "sample_fs None (current_link ''/s'') = None"
  by (simp_all add: sample_api_def sample_record_def sample_fs_def current_link_def SYMLINK_PATH_def)

theorem no_server_reported_witness:
  "main sample_cli sample_common (CmdWait ArgLast) (\<lambda>_. None) =
   Some (Inr (\<lambda>_. None, Some False, [], Failure ''Invalid server directoryError: /s is not a directory''))"
  using no_server_reported [OF sample_settings, of "\<lambda>_. None" "CmdWait ArgLast"]
  by (simp add: sample_cli_def sample_api_def GlobalSettings_new_def set_colored_settings_def)

theorem hq_wait_exit_code_witness:
  "\<exists>out. main sample_cli sample_common (CmdWait ArgAll) (linked_fs sample_api (sample_fs None) ''/s'' sample_record) =
     Some (Inr (linked_fs sample_api (sample_fs None) ''/s'' sample_record, Some False, out,
       Failure ''Some jobs have failed''))"
proof -
  let ?fs = "linked_fs sample_api (sample_fs None) ''/s'' sample_record"
  have c: "get_client_connection (cli_api sample_cli) (cli_connect sample_cli) (server_dir (GlobalSettings_new ''/s'' Never)) ?fs =
      Inr (?fs, Inr 0)"
    using linked_found [OF sample_start_ok [of None] sample_record_ok(1,2)]
    by (simp add: get_client_connection_def with_context_def fs_return_def fs_bind_def sample_cli_def GlobalSettings_new_def)
  have served: "served_by example_env 500 example_states (cli_client sample_cli)"
    using example_waiting(1) by (simp add: sample_cli_def)
  have h: "handle_message example_env 500 (JobInfoReq (selector_of ArgAll)) (example_states 0) =
      Some (Inr (example_states 0, JobInfoResponse [make_job_info example_job], []))"
    by (simp add: handle_message_def compute_job_info_def example_states_def example_jobs_def jobs_values_def)
  have ids: "{1} = ji_id ` set (filter (\<lambda>info. \<not> info_is_terminated info) [make_job_info example_job])"
    using example_waiting(3,5) by simp
  have ended: "\<forall>i\<in>{1}. info_is_terminated (make_job_info (example_jobs 2 i))"
    using example_waiting(4) by (simp add: example_jobs_def)
  have counts: "(\<Sum>i\<in>{1}. unat (n_failed_tasks (job_counters (example_jobs 2 i)))) < 2 ^ 32"
    "(\<Sum>i\<in>{1}. unat (n_canceled_tasks (job_counters (example_jobs 2 i)))) < 2 ^ 32"
    by (simp_all add: example_jobs_def example_ended_job_def)
  show ?thesis
    using hq_wait_exit_code [OF sample_settings c served h ids example_waiting(2) ended counts]
    by (simp add: sample_cli_def GlobalSettings_new_def set_colored_settings_def example_jobs_def example_ended_job_def)
qed

theorem worker_finds_server_witness:
  "\<exists>sd fs' out. ServerDir_create sample_api ''/s'' sample_record (sample_fs None) = Inr (fs', Inr sd) \<and>
    start_hq_worker sample_api plain_formats sample_worker (GlobalSettings_new ''/s'' Never)
      \<lparr>wo_cpus = None, wo_heartbeat = 8, wo_idle_timeout = None, wo_manager = OptNone\<rparr> fs' =
      Inr (fs', Inr (out, ''localhost:'' @ show_nat 9001, [2])) \<and>
    get_client_connection sample_api Inr ''/s'' fs' = Inr (fs', Inr sample_record)"
proof -
  let ?opts = "\<lparr>wo_cpus = None, wo_heartbeat = 8, wo_idle_timeout = None, wo_manager = OptNone\<rparr>"
  obtain conf where "configured sample_worker ?opts = Inr (Inr conf)"
    by (simp add: configured_def detected_def detect_resource_def read_linux_numa_def gather_configuration_def
        gather_manager_info_def sample_worker_def unwrap_def)
  then show ?thesis
    using worker_finds_server [of sample_api "sample_fs None" "GlobalSettings_new ''/s'' Never" sample_record sample_worker
        ?opts conf "''localhost:'' @ show_nat 9001" "[]" 1 conf plain_formats] sample_start_ok [of None] sample_record_ok
    by (simp add: GlobalSettings_new_def sample_worker_def plain_formats_def sample_record_def)
qed

end
