(* ===== verification/Spec2Isabelle.thy ===== *)
theory Spec2Isabelle
  imports Backend CommandLine
begin

text \<open>
  HyperQueue runs the tasks of jobs on the workers of a cluster. This development models the whole
  program under \<^verbatim>\<open>src/src/\<close>, component by component in the order of its modules, and
  proves the properties that make the components correct, alone and together. This theory holds
  the property that spans worker, stream server and log.

  \<^bold>\<open>The program.\<close> A user gives commands to \<^verbatim>\<open>hq\<close> (\<^verbatim>\<open>bin/hq.rs\<close>,
  \<^verbatim>\<open>client/\<close>). A command finds the server through a directory
  (\<^verbatim>\<open>common/serverdir.rs\<close>), calls it over an encrypted connection
  (\<^verbatim>\<open>transfer/\<close>) and prints the answer. The server (\<^verbatim>\<open>server/\<close>) keeps the
  jobs and their tasks, hands the tasks to the library Tako, which schedules them, follows the
  events that Tako reports, and asks batch systems for workers (\<^verbatim>\<open>server/autoalloc/\<close>).
  Workers (\<^verbatim>\<open>worker/\<close>) run the tasks and stream their output to the server, which
  writes one log per job (\<^verbatim>\<open>stream/server/\<close>); \<^verbatim>\<open>hq log\<close> reads it
  (\<^verbatim>\<open>stream/reader/\<close>).

  \<^bold>\<open>Conventions.\<close> A struct is a \<open>record\<close>, an enum a \<open>datatype\<close>, an
  integer a word of its width, whose arithmetic wraps around as in the release profile. A panic is
  \<open>Inl p\<close> in the type \<open>'a outcome\<close>; \<open>try_bind\<close> passes it on. A
  \<^verbatim>\<open>Result\<close> is a sum with the error on the left. A \<^verbatim>\<open>HashMap\<close> is an
  association list in the unknown order of its iteration, a \<^verbatim>\<open>BTreeMap\<close> a sorted one.
  Shared state is passed explicitly; tasks that run concurrently are step functions of a machine
  whose runs interleave them (the locale \<open>machine\<close> of \<open>Prelude\<close>, with invariants by
  induction on runs). Code outside the repository (Tako, serde, nom, chrono, the table and cipher
  libraries, the operating system) is an argument or a field of a record that the definitions take;
  what is assumed of it is a named predicate, and a witness shows that it can hold. The clock is
  an argument.

  \<^bold>\<open>Theories.\<close>
  \<^item> \<open>Prelude\<close>: integers, panics, maps, counting, numbers as text, runs of machines.
  \<^item> \<open>IntArray\<close> (\<^verbatim>\<open>common/arraydef.rs\<close>, the actions of
    \<^verbatim>\<open>common/arrayparser.rs\<close>), \<open>ArrayParser\<close> (its grammar and
    \<^verbatim>\<open>common/parser.rs\<close>): arrays of task ids. The check of overlaps decides distinctness;
    printing and parsing; the count of ids against the iteration.
  \<^item> \<open>Messages\<close> (\<^verbatim>\<open>transfer/messages.rs\<close>, \<^verbatim>\<open>client/status.rs\<close>),
    \<open>StatusParser\<close> (its grammar): the data that is exchanged.
  \<^item> \<open>Job\<close> (\<^verbatim>\<open>server/job.rs\<close>): a job, its counters and the transitions of its tasks.
    The locale \<open>task_op\<close> is the contract of a transition and is interpreted for each of the five;
    counters are exact and the status is that of the tasks.
  \<^item> \<open>AutoAlloc\<close> (\<^verbatim>\<open>server/autoalloc/\<close>): queues, allocations, one tick. A tick returns
    and stays within the target; when it does not return; the locale \<open>queue_invariant\<close> carries
    what is true of every queue through a tick.
  \<^item> \<open>Server_State\<close> (\<^verbatim>\<open>server/state.rs\<close>, \<^verbatim>\<open>server/worker.rs\<close>): the state, the
    sparse index from tasks to jobs, the handlers of events. The index is correct; the handlers
    implement updates of one table of all tasks and keep the invariant.
  \<^item> \<open>Client\<close> (\<^verbatim>\<open>server/client.rs\<close>): the handlers of requests. They never panic, keep
    the invariant, and register, resubmit and cancel what they should; two requests after which
    the server or the tasks are wrong.
  \<^item> \<open>Backend\<close> (\<^verbatim>\<open>server/rpc.rs\<close>): the connection to Tako as a machine. Answers reach
    their requests by order; no run panics; ended tasks stay.
  \<^item> \<open>StreamLog\<close>, \<open>StreamServer\<close> (\<^verbatim>\<open>stream/server/\<close>, \<^verbatim>\<open>transfer/stream.rs\<close>):
    the writer of a log, connections and registrations. Every message is answered, ends are
    confirmed after their data is on disk, logs are complete.
  \<^item> \<open>LogReader\<close>, \<open>LogRoundtrip\<close> (\<^verbatim>\<open>stream/reader/logfile.rs\<close>,
    \<^verbatim>\<open>client/commands/log.rs\<close>): reading logs. No file makes a command panic; what was
    written is read back; the locale \<open>byte_codec\<close> is the contract of the integer encoding.
  \<^item> \<open>Streamer\<close>, \<open>Worker\<close> (\<^verbatim>\<open>worker/\<close>, \<^verbatim>\<open>common/manager/\<close>, \<^verbatim>\<open>common/env.rs\<close>):
    the streams of a worker, placeholders, launching and running tasks, the configuration.
  \<^item> \<open>ClientOutput\<close> (\<^verbatim>\<open>client/job.rs\<close>, \<^verbatim>\<open>client/worker.rs\<close>,
    \<^verbatim>\<open>client/utils.rs\<close>, \<^verbatim>\<open>common/format.rs\<close>), \<open>CpuParser\<close>
    (\<^verbatim>\<open>client/resources.rs\<close>): what is printed; the progress bar, the failed tasks shown,
    requests for processors.
  \<^item> \<open>ClientCommands\<close>, \<open>ClientSubmit\<close> (\<^verbatim>\<open>client/commands/\<close>): the commands over a
    connection. Answers have the type of the request, lines become entries, waiting returns.
  \<^item> \<open>Connection\<close> (\<^verbatim>\<open>transfer/connection.rs\<close>): a call over a connection is a call of the
    handler of \<open>Client\<close>.
  \<^item> \<open>ServerDirectory\<close> (\<^verbatim>\<open>common/serverdir.rs\<close>, \<^verbatim>\<open>common/fsutils.rs\<close>,
    \<^verbatim>\<open>transfer/auth.rs\<close>, \<^verbatim>\<open>server/bootstrap.rs\<close>): start and discovery of a server on a
    model of the file system.
  \<^item> \<open>CommandLine\<close> (\<^verbatim>\<open>bin/hq.rs\<close>, \<^verbatim>\<open>start_hq_worker\<close>): the commands put together, up to
    the exit code.

  \<^bold>\<open>Loops and bounds.\<close> Loops over data are structural. The scheduling loop of the
  automatic allocation and the loop of \<^verbatim>\<open>hq wait\<close> may run for ever: they are partial
  functions, and that they return is proved under the conditions the theorems state. The loops over
  the blocks of a log end because every block takes at least one byte of the file, which is their measure;
  \<open>p_separated\<close> has as much fuel as there is input, since a separator takes at least one character;
  the file system follows 40 links, as the kernel does. Rounding of the progress bar is that of
  64-bit floating point on rational numbers; its exponent range is not limited, which counters of 32 bits
  never reach.

  \<^bold>\<open>Not modelled.\<close> Sockets and frames, the cryptography behind connections, the
  scheduling by Tako, the serialization by serde and the drawing of tables are outside the
  repository. So are the splitting of arguments by clap, of which the options of every command
  remain, and the combinators of nom; the two small grammars for lists of processors
  (\<^verbatim>\<open>worker/hwdetect.rs\<close>, \<^verbatim>\<open>worker/parser.rs\<close>) appear by their actions. Of
  \<^verbatim>\<open>common/manager/pbs.rs\<close> the call of qstat and the arithmetic of durations by chrono are
  arguments. The timer around a tick, the set-up of logging and signals
  (\<^verbatim>\<open>common/setup.rs\<close>), reference-counted cells (\<^verbatim>\<open>common/wrapped.rs\<close>) and the
  reading of durations by humantime (\<^verbatim>\<open>common/timeutils.rs\<close>) have no behaviour of their own.
  Debug messages of the log are left out; what a command prints on its way to an error of
  \<^verbatim>\<open>hq server start\<close> is left out too.
\<close>

section \<open>From a program to the log\<close>

text \<open>
  A worker runs tasks with piped outputs; their messages meet in the queue of one connection, and
  the server receives a part of the queue before the connection ends.
\<close>

definition run_stream :: "StreamSender \<times> 'tr TaskRun \<Rightarrow> JobTaskId \<times> InstanceId" where
  "run_stream r = (ss_task_id (fst r), ss_instance_id (fst r))"

definition run_messages :: "StreamSender \<times> 'tr TaskRun \<Rightarrow> FromStreamerMessage list" where
  "run_messages r = fst (run_piped (fst r) (snd r))"

definition worker_delivers :: "(StreamSender \<times> 'tr TaskRun) list \<Rightarrow> frame list \<Rightarrow> bool" where
  "worker_delivers runs frames \<longleftrightarrow>
     delivers frames \<and> distinct (map run_stream runs) \<and>
     (\<forall>r \<in> set runs. reads_ok (run_stdout (snd r)) \<and> reads_ok (run_stderr (snd r))) \<and>
     (\<exists>queue. interleaving (map run_messages runs) queue \<and> prefix (received frames) queue)"

lemma run_messages_streams: "stream_of ` set (run_messages r) \<subseteq> {run_stream r}"
proof -
  have "stream_of ` set (run_messages r) \<subseteq> insert (run_stream r) (stream_of ` set (task_log (fst r) (snd r)))"
    using run_piped_messages [of "fst r" "snd r"] by (auto simp: run_messages_def run_stream_def)
  then show ?thesis unfolding task_log_streams by (simp add: run_stream_def)
qed

lemma run_messages_phase:
  "reads_ok (run_stdout (snd r)) \<Longrightarrow> reads_ok (run_stderr (snd r)) \<Longrightarrow>
   phase_run Fresh (run_messages r) \<noteq> None"
  using run_piped_messages [of "fst r" "snd r"] task_log_phase [of "snd r" "fst r"]
  by (auto simp: run_messages_def phase_run_append)

lemma run_messages_whole:
  assumes "prefix p (run_messages r)" "End t i \<in> set p"
  shows "p = task_log (fst r) (snd r) @ [End (fst (run_stream r)) (snd (run_stream r))]"
proof -
  have n: "End t' i' \<notin> set (task_log stream run)" for t' i' stream and run :: "'a TaskRun"
    by (auto simp: task_log_def merge_set)
  have "End t i \<in> set (run_messages r)" using assms set_mono_prefix by blast
  then have m: "run_messages r = task_log (fst r) (snd r) @ [End (fst (run_stream r)) (snd (run_stream r))]"
    using run_piped_messages [of "fst r" "snd r"] n by (auto simp: run_messages_def run_stream_def)
  have "\<not> prefix p (task_log (fst r) (snd r))" using assms(2) n set_mono_prefix by blast
  with assms(1) m show ?thesis by (simp add: prefix_snoc)
qed

lemma projection_all: "stream_of ` set ms \<subseteq> {s} \<Longrightarrow> projection s ms = ms"
  by (auto simp: projection_def filter_id_conv)

lemma worker_projection:
  assumes "worker_delivers runs frames" "r \<in> set runs"
  shows "prefix (projection (run_stream r) (received frames)) (run_messages r)"
proof -
  from assms(1) obtain queue where q: "interleaving (map run_messages runs) queue" "prefix (received frames) queue"
    and d: "distinct (map run_stream runs)" by (auto simp: worker_delivers_def)
  from assms(2) obtain k where k: "k < length runs" "r = runs ! k" by (metis in_set_conv_nth)
  have "projection (run_stream r) queue = projection (run_stream r) (run_messages r)"
    unfolding projection_def k(2) using interleaving_filter [OF q(1), of k "\<lambda>m. stream_of m = run_stream (runs ! k)"]
  proof -
    have "stream_of x \<noteq> run_stream (runs ! k)"
      if "j < length runs" "j \<noteq> k" "x \<in> set (run_messages (runs ! j))" for j x
      using that k(1) d run_messages_streams [of "runs ! j"] by (auto simp: distinct_conv_nth)
    then have "filter (\<lambda>m. stream_of m = run_stream (runs ! k)) queue =
      filter (\<lambda>m. stream_of m = run_stream (runs ! k)) (map run_messages runs ! k)"
      using k(1) by (intro interleaving_filter [OF q(1)]) auto
    with k(1) show "filter (\<lambda>m. stream_of m = run_stream (runs ! k)) queue =
      filter (\<lambda>m. stream_of m = run_stream (runs ! k)) (run_messages (runs ! k))" by simp
  qed
  with q(2) show ?thesis unfolding projection_all [OF run_messages_streams] prefix_def
    by (metis projection_simps(3))
qed

lemma worker_streams:
  assumes "worker_delivers runs frames"
  shows "stream_of ` set (received frames) \<subseteq> run_stream ` set runs"
proof -
  from assms obtain queue where q: "interleaving (map run_messages runs) queue" "prefix (received frames) queue"
    by (auto simp: worker_delivers_def)
  have "filter (\<lambda>m. stream_of m \<notin> run_stream ` set runs) queue = []"
    using run_messages_streams by (intro interleaving_none [OF q(1)]) fastforce
  then show ?thesis using set_mono_prefix [OF q(2)] by (auto simp: filter_empty_conv)
qed

lemma stream_run_append: "stream_run seen opened (ms @ ns) \<noteq> None \<Longrightarrow> stream_run seen opened ms \<noteq> None"
  by (induction seen opened ms rule: stream_run.induct) (auto split: if_splits)

lemma ends_projection:
  "distinct ids \<Longrightarrow> projection s (map (\<lambda>(t, i). End t i) ids) = (if s \<in> set ids then [End (fst s) (snd s)] else [])"
  by (induction ids) auto

lemma phases_stream_run:
  assumes "\<And>s. phase_run Fresh (projection s ms) \<noteq> None"
  shows "stream_run [] [] ms \<noteq> None"
proof -
  let ?open = "\<lambda>s. phase_run Fresh (projection s ms) = Some Opened"
  let ?ids = "filter ?open (remdups (map stream_of ms))"
  have "closes (phase_run Fresh (projection s (ms @ map (\<lambda>(t, i). End t i) ?ids)))" for s
  proof -
    obtain p where p: "phase_run Fresh (projection s ms) = Some p" using assms [of s] by auto
    have "s \<in> stream_of ` set ms" if "p = Opened"
      using p that by (cases "projection s ms") (auto simp: projection_def filter_eq_Cons_iff)
    then have "s \<in> set ?ids \<longleftrightarrow> p = Opened" using p by auto
    then show ?thesis using p ends_projection [of ?ids s]
      by (cases p) (simp_all add: phase_run_append closes_def)
  qed
  then have "complete_streams (ms @ map (\<lambda>(t, i). End t i) ?ids)" by (simp add: complete_streams_iff)
  then show ?thesis unfolding complete_streams_def
    by (intro stream_run_append [of "[]" "[]" ms "map (\<lambda>(t, i). End t i) ?ids"]) simp
qed

lemma worker_stream_run:
  assumes "worker_delivers runs frames"
  shows "stream_run [] [] (received frames) \<noteq> None"
proof (rule phases_stream_run)
  fix s
  show "phase_run Fresh (projection s (received frames)) \<noteq> None"
  proof (cases "s \<in> run_stream ` set runs")
    case True
    then obtain r where r: "r \<in> set runs" "s = run_stream r" by blast
    have "phase_run Fresh (run_messages r) \<noteq> None"
      using assms r(1) by (intro run_messages_phase) (auto simp: worker_delivers_def)
    moreover obtain rest where "run_messages r = projection s (received frames) @ rest"
      using worker_projection [OF assms r(1)] r(2) by (auto elim: prefixE)
    ultimately show ?thesis by (auto simp: phase_run_append split: option.splits)
  next
    case False
    then have "projection s (received frames) = []"
      using worker_streams [OF assms] by (auto simp: projection_def filter_empty_conv)
    then show ?thesis by simp
  qed
qed

lemma distinct_concat_disjoint:
  "distinct (concat xss) \<Longrightarrow> j < length xss \<Longrightarrow> k < length xss \<Longrightarrow> j \<noteq> k \<Longrightarrow>
   set (xss ! j) \<inter> set (xss ! k) = {}"
proof (induction xss arbitrary: j k)
  case (Cons xs xss)
  have "set xs \<inter> set (xss ! n) = {}" if "n < length xss" for n
    using Cons.prems(1) nth_mem [OF that] by auto
  with Cons show ?case by (cases j; cases k) auto
qed simp

text \<open>The connections of workers whose tasks have streams of their own.\<close>

lemma workers_connections_ok:
  assumes "list_all2 (\<lambda>conn runs. worker_delivers runs (snd conn)) conns runss"
    and "distinct (map run_stream (concat runss))"
  shows "connections_ok conns"
proof -
  note l = assms(1) [unfolded list_all2_conv_all_nth]
  have d: "run_stream ` set (runss ! j) \<inter> run_stream ` set (runss ! k) = {}"
    if "j < length conns" "k < length conns" "j \<noteq> k" for j k
    using distinct_concat_disjoint [of "map (map run_stream) runss" j k] assms(2) that l by (simp add: map_concat)
  have c: "delivers (snd (conns ! k)) \<and> stream_run [] [] (received (snd (conns ! k))) \<noteq> None \<and>
      stream_of ` set (received (snd (conns ! k))) \<subseteq> run_stream ` set (runss ! k)" if "k < length conns" for k
  proof -
    have w: "worker_delivers (runss ! k) (snd (conns ! k))" using l that by blast
    show ?thesis using worker_stream_run [OF w] worker_streams [OF w] w
      by (simp only: worker_delivers_def simp_thms)
  qed
  have "stream_of ` set (received (snd (conns ! j))) \<inter> stream_of ` set (received (snd (conns ! k))) = {}"
    if "j < length conns" "k < length conns" "j \<noteq> k" for j k
    using d [OF that] c [OF that(1)] c [OF that(2)] by blast
  with c show ?thesis unfolding connections_ok_def list_all_length case_prod_beta' by blast
qed

lemma last_of_max:
  assumes "(t, i) \<in> stream_of ` set ms" "\<forall>j. (t, j) \<in> stream_of ` set ms \<longrightarrow> j \<le> i"
  shows "last_of ms t = i"
  unfolding last_of_def snd_filter
proof (rule Max_eqI)
  have "{j. (t, j) \<in> stream_of ` set ms} = snd ` Set.filter (\<lambda>s. fst s = t) (stream_of ` set ms)"
    by (rule snd_filter [symmetric])
  then show "finite {j. (t, j) \<in> stream_of ` set ms}" by simp
qed (use assms in blast)+

lemma log_cat_task:
  assumes "codec_ok c" "\<forall>n. io_failure e n = None" "complete_streams (map fst ms)"
    and "fs f = Some (w_disk (fst (writer_task c e ms)))"
    and "cat_task opts = Some a" "IntArray_iter a = Inr [t]" "(t, i) \<in> stream_of ` set (map fst ms)"
    and "\<forall>j. (t, j) \<in> stream_of ` set (map fst ms) \<longrightarrow> j \<le> i"
  shows "command_log c fs f (LogCat opts) =
    Inr (PrintBytes (concat (stream_data (map fst ms) t i (channel_id_of (cat_channel opts)))))"
proof -
  obtain lf where o: "LogFile_open c fs f = Inr lf" "index_wf (lf_index lf)"
    "holds_log (lf_file lf) (map fst ms) (look (lf_index lf))"
    using log_opens [where fs = fs and f = f, OF assms(1-4)] .
  have "t \<in> fst ` stream_of ` set (map fst ms)" using imageI [OF assms(7), of fst] by (simp only: fst_conv)
  then have "t \<in> set (tasks_of (map fst ms))" by (simp add: tasks_of_def)
  then have "case cat_task opts of None \<Rightarrow> [t] = tasks_of (map fst ms)
      | Some a \<Rightarrow> IntArray_iter a = Inr [t] \<and> set [t] \<subseteq> set (tasks_of (map fst ms))"
    using assms(5,6) by simp
  from cat_holds [OF o(2,3) complete_streamsD(2) [OF assms(3)] this]
  have "cat opts lf = Inr (concat (stream_data (map fst ms) t i (channel_id_of (cat_channel opts))))"
    unfolding channel_bytes_def list.map concat.simps append_Nil2 last_of_max [OF assms(7,8)] .
  with o(1) show ?thesis by (simp only: command_log_def refuses_as_def) simp
qed

lemma received_task_data:
  assumes "worker_delivers runs frames" "r \<in> set runs" "run_stream r = (t, i)" "End t i \<in> set (received frames)"
  shows "stream_data (received frames) t i ch = stream_data (task_log (fst r) (snd r)) t i ch"
proof -
  have "End t i \<in> set (projection (run_stream r) (received frames))"
    using assms(3,4) by (simp add: projection_def)
  from run_messages_whole [OF worker_projection [OF assms(1,2)] this]
  have "projection (t, i) (received frames) = task_log (fst r) (snd r) @ [End t i]" using assms(3) by simp
  then show ?thesis using stream_data_projection [of t i "received frames" ch] by (simp add: stream_data_simps)
qed

text \<open>
  Claim C2. Program output reaches the log. Tasks of a job run on several workers with piped outputs, each
  instance of a task with a stream of its own; their messages meet in the queues of the workers,
  and the server receives these queues, or beginnings of them where a connection breaks, in any
  interleaving, and the writer of the log writes them without I/O error. Then for every task whose
  latest instance was received up to its end, \<^verbatim>\<open>hq log cat\<close> prints exactly the bytes that this
  instance wrote to the selected channel, in their order.
\<close>

theorem piped_output_reaches_log:
  assumes "codec_ok c" "\<forall>n. io_failure e n = None"
    and "list_all2 (\<lambda>conn runs. worker_delivers runs (snd conn)) conns runss"
    and "distinct (map run_stream (concat runss))"
    and "interleaving (map (\<lambda>(s, frames). fst (connection_body s frames)) conns) ms"
    and "fs f = Some (w_disk (fst (writer_task c e ms)))"
    and "k < length conns" "r \<in> set (runss ! k)" "run_stream r = (t, i)"
    and "End t i \<in> set (received (snd (conns ! k)))"
    and "\<forall>r' \<in> set (concat runss). fst (run_stream r') = t \<longrightarrow> snd (run_stream r') \<le> i"
    and "cat_task opts = Some a" "IntArray_iter a = Inr [t]"
  shows "command_log c fs f (LogCat opts) = Inr (PrintBytes (concat (stdio_chunks
    (case cat_channel opts of Stdout \<Rightarrow> run_stdout (snd r) | Stderr \<Rightarrow> run_stderr (snd r)))))"
proof -
  note cc = connections_complete [OF assms(5) workers_connections_ok [OF assms(3,4)]]
  have l: "length runss = length conns" "\<And>n. n < length conns \<Longrightarrow> worker_delivers (runss ! n) (snd (conns ! n))"
    using assms(3) by (auto simp: list_all2_conv_all_nth)
  have s: "(t, i) \<in> stream_of ` set (received (snd (conns ! k)))" using assms(10) by force
  have u: "(t, i) \<in> stream_of ` set (map fst ms)" unfolding cc(3) using s assms(7) by blast
  have m: "\<forall>j. (t, j) \<in> stream_of ` set (map fst ms) \<longrightarrow> j \<le> i"
  proof (intro allI impI)
    fix j assume j: "(t, j) \<in> stream_of ` set (map fst ms)"
    obtain n where n: "n < length conns" "(t, j) \<in> stream_of ` set (received (snd (conns ! n)))"
      using j unfolding cc(3) by blast
    have "(t, j) \<in> run_stream ` set (runss ! n)" using worker_streams [OF l(2) [OF n(1)]] n(2) by (rule subsetD)
    then obtain r' where r': "r' \<in> set (runss ! n)" "(t, j) = run_stream r'" by (rule imageE)
    have "r' \<in> set (concat runss)" using r'(1) nth_mem [of n runss] n(1) l(1) by auto
    with assms(11) have "fst (run_stream r') = t \<longrightarrow> snd (run_stream r') \<le> i" by (rule bspec)
    then show "j \<le> i" unfolding r'(2) [symmetric] by simp
  qed
  have d: "stream_data (map fst ms) t i ch = stream_data (task_log (fst r) (snd r)) t i ch" for ch
    using cc(2) [OF assms(7) s, of ch] received_task_data [OF l(2) [OF assms(7)] assms(8,9,10), of ch]
    by (rule trans)
  have "ss_task_id (fst r) = t" "ss_instance_id (fst r) = i" using assms(9) by (simp_all add: run_stream_def)
  then have "stream_data (map fst ms) t i (channel_id_of (cat_channel opts)) = stdio_chunks
      (case cat_channel opts of Stdout \<Rightarrow> run_stdout (snd r) | Stderr \<Rightarrow> run_stderr (snd r))"
    unfolding d using task_log_data [of "fst r" "snd r"] by (cases "cat_channel opts") simp_all
  with log_cat_task [where fs = fs and f = f, OF assms(1,2) cc(1) assms(6,12,13) u m] show ?thesis
    by (simp only:)
qed

text \<open>
  Task 1 wrote \<open>[7]\<close> to its standard output, the program of task 2 still runs on the same
  worker, and an earlier instance of task 1 was cut off on another one.
\<close>

definition example_run :: "bytes list \<Rightarrow> int option option \<Rightarrow> unit TaskRun" where
  "example_run out exit =
     \<lparr>run_command = None, run_spawn = None, run_start_closed = False,
      run_stdout = Some (map (\<lambda>b. (Inr b, False)) out @ (if exit = None then [] else [(Inr [], False)])),
      run_stderr = Some (if exit = None then [] else [(Inr [], False)]), run_merge = [],
      run_wait = map_option Inr exit, run_stop = None, run_close_closed = False, run_confirm = NoEvent,
      run_responder_first = False\<rparr>"

definition example_tasks :: "(StreamSender \<times> unit TaskRun) list list" where
  "example_tasks =
     [[(\<lparr>ss_sender = 0, ss_task_id = 1, ss_instance_id = 0\<rparr>, example_run [[9]] None)],
      [(\<lparr>ss_sender = 0, ss_task_id = 1, ss_instance_id = 1\<rparr>, example_run [[7]] (Some (Some 0))),
       (\<lparr>ss_sender = 0, ss_task_id = 2, ss_instance_id = 0\<rparr>, example_run [] None)]]"

definition example_frames :: "(nat \<times> frame list) list" where
  "example_frames =
     [(1, [Received (Start 1 0), Broken ''reset'']),
      (2, [Received (Start 1 1), Received (Start 2 0), Received (Data 1 1 0 [7]), Received (End 1 1)])]"

definition example_log :: "nat StreamMessage list" where
  "example_log =
     [(Start 1 0, Some 1), (Start 1 1, Some 2), (End 1 0, None), (Start 2 0, Some 2),
      (Data 1 1 0 [7], Some 2), (End 1 1, Some 2), (End 2 0, None)]"

lemma example_messages_of_runs:
  "map (map run_messages) example_tasks =
     [[[Start 1 0, Data 1 0 0 [9]]], [[Start 1 1, Data 1 1 0 [7], End 1 1], [Start 2 0]]]"
  by (simp add: example_tasks_def run_messages_def run_piped_def example_run_def send_stream_start_def
      sender_send_def resend_stdio_def send_data_def StreamSender_close_def main_result_def Let_def
      status_to_result_def)

lemma example_delivers: "list_all2 (\<lambda>conn runs. worker_delivers runs (snd conn)) example_frames example_tasks"
proof -
  have q: "map run_messages (example_tasks ! 0) = [[Start 1 0, Data 1 0 0 [9]]]"
    "map run_messages (example_tasks ! 1) = [[Start 1 1, Data 1 1 0 [7], End 1 1], [Start 2 0]]"
    using example_messages_of_runs by (simp_all add: example_tasks_def)
  have i0: "interleaving (map run_messages (example_tasks ! 0)) [Start 1 0, Data 1 0 0 [9]]"
    unfolding q by (rule interleaving_step [of 0], simp, simp, simp, rule interleaving_step [of 0], simp, simp,
        simp, rule interleaving_done) auto
  have i1: "interleaving (map run_messages (example_tasks ! 1)) [Start 1 1, Start 2 0, Data 1 1 0 [7], End 1 1]"
    unfolding q by (rule interleaving_step [of 0], simp, simp, simp, rule interleaving_step [of 1], simp, simp,
        simp, rule interleaving_step [of 0], simp, simp, simp, rule interleaving_step [of 0], simp, simp,
        simp, rule interleaving_done) auto
  have "worker_delivers (example_tasks ! 0) (snd (example_frames ! 0))"
    unfolding worker_delivers_def
    by (intro conjI exI [of _ "[Start 1 0, Data 1 0 0 [9]]"] i0)
      (simp_all add: example_frames_def example_tasks_def example_run_def reads_ok_def STDIO_BUFFER_SIZE_def)
  moreover have "worker_delivers (example_tasks ! 1) (snd (example_frames ! 1))"
    unfolding worker_delivers_def
    by (intro conjI exI [of _ "[Start 1 1, Start 2 0, Data 1 1 0 [7], End 1 1]"] i1)
      (simp_all add: example_frames_def example_tasks_def example_run_def reads_ok_def STDIO_BUFFER_SIZE_def
        run_stream_def)
  ultimately show ?thesis by (simp add: example_frames_def example_tasks_def)
qed

lemma example_interleaving:
  "interleaving (map (\<lambda>(s, frames). fst (connection_body s frames)) example_frames) example_log"
proof -
  have x: "map (\<lambda>(s, frames). fst (connection_body s frames)) example_frames =
     [[(Start 1 0, Some 1), (End 1 0, None)],
      [(Start 1 1, Some 2), (Start 2 0, Some 2), (Data 1 1 0 [7], Some 2), (End 1 1, Some 2), (End 2 0, None)]]"
    by (simp add: example_frames_def connection_body_def)
  show ?thesis unfolding x example_log_def
    by (rule interleaving_step [of 0], simp, simp, simp, rule interleaving_step [of 1], simp, simp, simp,
        rule interleaving_step [of 0], simp, simp, simp, rule interleaving_step [of 1], simp, simp, simp,
        rule interleaving_step [of 1], simp, simp, simp, rule interleaving_step [of 1], simp, simp, simp,
        rule interleaving_step [of 1], simp, simp, simp, rule interleaving_done) auto
qed

theorem piped_output_reaches_log_witness:
  "command_log big_endian (\<lambda>f. Some (w_disk (fst (writer_task big_endian ideal_file_env example_log))))
     ''job.log'' (LogCat \<lparr>cat_channel = Stdout, cat_task = Some (from_range 1 1), allow_unfinished = False\<rparr>) =
   Inr (PrintBytes [7])"
proof -
  let ?fs = "\<lambda>f :: path. Some (w_disk (fst (writer_task big_endian ideal_file_env example_log)))"
  let ?r = "example_tasks ! 1 ! 0"
  let ?opts = "\<lparr>cat_channel = Stdout, cat_task = Some (from_range 1 1), allow_unfinished = False\<rparr>"
  have "command_log big_endian ?fs ''job.log'' (LogCat ?opts) = Inr (PrintBytes (concat (stdio_chunks
    (case cat_channel ?opts of Stdout \<Rightarrow> run_stdout (snd ?r) | Stderr \<Rightarrow> run_stderr (snd ?r)))))"
  proof (rule piped_output_reaches_log [where k = 1 and t = 1 and i = 1 and e = ideal_file_env and a = "from_range 1 1",
        OF big_endian_ok _ example_delivers _ example_interleaving])
    show "distinct (map run_stream (concat example_tasks))" by (simp add: example_tasks_def run_stream_def)
    show "\<forall>r' \<in> set (concat example_tasks). fst (run_stream r') = 1 \<longrightarrow> snd (run_stream r') \<le> 1"
      by (simp add: example_tasks_def run_stream_def)
    show "IntArray_iter (from_range 1 1) = Inr [1]" by code_simp
  qed (simp_all add: ideal_file_env_def example_frames_def example_tasks_def run_stream_def)
  then show ?thesis by (simp add: example_tasks_def example_run_def stdio_chunks_def)
qed

end
